(* ===== verification/Prelude.thy ===== *)
theory Prelude
  imports Complex_Main "HOL-Library.AList" "HOL-Library.Multiset" "HOL-Library.Word"
begin

text \<open>
  What the components of the development share.

  \<^item> Go maps.  A Go map is an association list with distinct keys (\<open>AList.update\<close>,
    \<open>AList.delete\<close>, \<open>map_of\<close>).  Go's \<^verbatim>\<open>range\<close> visits the keys in an unspecified
    order, so every operation that ranges over a map takes the order as an argument: a
    \<open>map_order\<close> permutes the key list (\<open>is_order\<close>).  Theorems hold for every such order.
  \<^item> Loops with a panic.  \<open>foldM\<close> runs a loop body that may panic (\<open>None\<close>: an index out
    of range); its invariant rule \<open>foldM_inv\<close> shows at once that no step panics and that the
    invariant holds over the elements already processed.
\<close>

named_theorems kind_simps
  "distinctness of the record kinds and their predicates"
named_theorems gomap_simps
  "lookups, updates and key lists of Go maps"
named_theorems go_eval
  "definitions that evaluate a concrete input under the simplifier"
named_theorems wf_intros
  "preservation of well-formedness by the operations of the components"


subsection \<open>Go maps as association lists\<close>

type_synonym map_order = "string list \<Rightarrow> string list"

definition is_order :: "map_order \<Rightarrow> bool" where
  "is_order ord \<longleftrightarrow> (\<forall>ks. mset (ord ks) = mset ks)"

lemma is_order_id [simp]: "is_order (\<lambda>ks. ks)"
  by (simp add: is_order_def)

lemma is_order_rev [simp]: "is_order rev"
  by (simp add: is_order_def)

lemma set_order [gomap_simps]: "is_order ord \<Longrightarrow> set (ord ks) = set ks"
  by (metis is_order_def set_mset_mset)

lemma distinct_order [gomap_simps]: "is_order ord \<Longrightarrow> distinct (ord ks) = distinct ks"
  by (metis is_order_def mset_eq_imp_distinct_iff)

lemma length_order [gomap_simps]: "is_order ord \<Longrightarrow> length (ord ks) = length ks"
  by (metis is_order_def size_mset)

lemma order_Nil [gomap_simps]: "is_order ord \<Longrightarrow> ord [] = []"
  using length_order [of ord "[]"] by simp

text \<open>\<^verbatim>\<open>for k, v := range m\<close>: the entries in the order the run time picks.\<close>

definition range_map :: "map_order \<Rightarrow> (string \<times> 'v) list \<Rightarrow> (string \<times> 'v) list" where
  "range_map ord m =
     List.map_filter (\<lambda>k. map_option (Pair k) (map_of m k)) (ord (map fst m))"

definition range_vals :: "map_order \<Rightarrow> (string \<times> 'v) list \<Rightarrow> 'v list" where
  "range_vals ord m = map snd (range_map ord m)"

declare range_map_def [go_eval] range_vals_def [go_eval] map_filter_def [go_eval]

lemma map_of_update [gomap_simps]:
  "map_of (AList.update k v m) k' = (if k' = k then Some v else map_of m k')"
  by (simp add: update_conv')

lemma map_of_delete [gomap_simps]:
  "map_of (AList.delete k m) k' = (if k' = k then None else map_of m k')"
  by (simp add: delete_conv')

lemma distinct_keys_update [wf_intros]:
  "distinct (map fst m) \<Longrightarrow> distinct (map fst (AList.update k v m))"
  by (rule distinct_update)

lemma distinct_keys_delete [wf_intros]:
  "distinct (map fst m) \<Longrightarrow> distinct (map fst (AList.delete k m))"
  by (rule distinct_delete)

lemma mset_map_filter:
  "mset (List.map_filter f xs) =
     image_mset (the \<circ> f) (filter_mset (\<lambda>x. f x \<noteq> None) (mset xs))"
  by (simp add: map_filter_def)

lemma map_filter_keys:
  assumes "distinct (map fst m)" and "set xs \<subseteq> set m"
  shows "List.map_filter (\<lambda>k. map_option (Pair k) (map_of m k)) (map fst xs) = xs"
  using assms(2)
proof (induction xs)
  case Nil
  then show ?case by (simp add: map_filter_def)
next
  case (Cons x xs)
  then have "map_of m (fst x) = Some (snd x)"
    using assms(1) by (metis insert_subset list.set(2) map_of_is_SomeI prod.collapse)
  with Cons show ?case by (simp add: List.map_filter_def)
qed

lemma mset_range_map:
  assumes "is_order ord" and "distinct (map fst m)"
  shows "mset (range_map ord m) = mset m"
proof -
  have "mset (range_map ord m) =
      mset (List.map_filter (\<lambda>k. map_option (Pair k) (map_of m k)) (map fst m))"
    using assms(1) by (simp only: range_map_def mset_map_filter is_order_def)
  then show ?thesis by (simp add: map_filter_keys assms(2))
qed

lemma set_range_map [gomap_simps]:
  "is_order ord \<Longrightarrow> distinct (map fst m) \<Longrightarrow> set (range_map ord m) = set m"
  using mset_range_map by (metis set_mset_mset)

lemma mset_range_vals [gomap_simps]:
  "is_order ord \<Longrightarrow> distinct (map fst m) \<Longrightarrow> mset (range_vals ord m) = mset (map snd m)"
  by (simp add: range_vals_def mset_range_map)

lemma set_range_vals [gomap_simps]:
  "is_order ord \<Longrightarrow> distinct (map fst m) \<Longrightarrow> set (range_vals ord m) = snd ` set m"
  using mset_range_vals by (metis list.set_map set_mset_mset)

lemma length_range_vals [gomap_simps]:
  "is_order ord \<Longrightarrow> distinct (map fst m) \<Longrightarrow> length (range_vals ord m) = length m"
  using mset_range_vals by (metis length_map size_mset)

lemma map_of_set_conv:
  "distinct (map fst m) \<Longrightarrow> (k, v) \<in> set m \<longleftrightarrow> map_of m k = Some v"
  by (simp add: map_of_eq_Some_iff)

text \<open>Lookups stay lookups: membership in the list is not the normal form here.\<close>

declare map_of_eq_Some_iff [simp del] Some_eq_map_of_iff [simp del]

lemma keys_update [gomap_simps]:
  "fst ` set (AList.update k v m) = insert k (fst ` set m)"
  by (induction m) auto


lemma inj_on_pair:
  assumes "inj_on (\<lambda>a. f (g a) (h a)) A"
  shows "inj_on (\<lambda>a. (g a, h a)) A"
proof (rule inj_onI)
  fix a b
  assume "a \<in> A" and "b \<in> A" and "(g a, h a) = (g b, h b)"
  then show "a = b" using inj_onD [OF assms, of a b] by simp
qed

lemma distinct_set_single: "distinct xs \<Longrightarrow> set xs = {k} \<Longrightarrow> xs = [k]"
  by (cases xs; cases "tl xs") auto


subsection \<open>Loops whose body may panic\<close>

text \<open>\<open>i\<close> is the number of the iteration, which names its map orders.\<close>

fun foldM :: "(nat \<Rightarrow> 's \<Rightarrow> 'a \<Rightarrow> 's option) \<Rightarrow> nat \<Rightarrow> 's \<Rightarrow> 'a list \<Rightarrow> 's option" where
  "foldM f i s [] = Some s"
| "foldM f i s (x # xs) =
     (case f i s x of None \<Rightarrow> None | Some s' \<Rightarrow> foldM f (Suc i) s' xs)"

lemma foldM_append:
  "foldM f i s (xs @ ys) =
     (case foldM f i s xs of None \<Rightarrow> None | Some s' \<Rightarrow> foldM f (i + length xs) s' ys)"
  by (induction xs arbitrary: i s) (auto split: option.splits)

text \<open>
  The invariant rule: an invariant \<open>I ys s\<close> over the elements \<open>ys\<close> already processed and
  the state \<open>s\<close>, kept by a body that does not panic under it.
\<close>

lemma foldM_inv:
  assumes "I [] s"
    and "\<And>i ys y zs s. xs = ys @ y # zs \<Longrightarrow> I ys s \<Longrightarrow>
      \<exists>s'. f i s y = Some s' \<and> I (ys @ [y]) s'"
  shows "\<exists>s'. foldM f i s xs = Some s' \<and> I xs s'"
  using assms(2)
proof (induction xs rule: rev_induct)
  case Nil
  then show ?case using assms(1) by simp
next
  case (snoc x xs)
  have "\<exists>s'. foldM f i s xs = Some s' \<and> I xs s'"
    by (rule snoc.IH) (rule snoc.prems, auto)
  then obtain s' where s': "foldM f i s xs = Some s'" and "I xs s'" by blast
  moreover obtain s'' where "f (i + length xs) s' x = Some s''" and "I (xs @ [x]) s''"
    using snoc.prems [of xs x "[]" s' "i + length xs"] \<open>I xs s'\<close> by auto
  ultimately show ?case by (simp add: foldM_append)
qed

lemma fold_inv:
  assumes "I [] s" and "\<And>ys y s. set (ys @ [y]) \<subseteq> set xs \<Longrightarrow> I ys s \<Longrightarrow> I (ys @ [y]) (f y s)"
  shows "I xs (fold f xs s)"
  using assms(2)
proof (induction xs rule: rev_induct)
  case Nil
  then show ?case using assms(1) by simp
next
  case (snoc x xs)
  have "I xs (fold f xs s)" by (rule snoc.IH) (rule snoc.prems, auto)
  with snoc.prems [of xs x] show ?case by simp
qed

text \<open>\<^verbatim>\<open>xs[0]\<close>: a panic on the empty slice.\<close>

definition index0 :: "'a list \<Rightarrow> 'a option" where
  "index0 xs = (case xs of [] \<Rightarrow> None | x # _ \<Rightarrow> Some x)"

lemma index0_simps [simp]: "index0 [] = None" "index0 (x # xs) = Some x"
  by (simp_all add: index0_def)

lemma index0_SomeD: "index0 xs = Some x \<Longrightarrow> x \<in> set xs"
  by (cases xs) simp_all

end
