(* ===== verification/GoStrings.thy ===== *)
theory GoStrings
  imports Prelude
begin

text \<open>
  What the program uses of Go's \<^verbatim>\<open>strings\<close>, \<^verbatim>\<open>strconv\<close> and \<^verbatim>\<open>fmt\<close> packages.  A Go
  string is a byte string, and so is a HOL \<open>string\<close> (a list of 8-bit characters).

  Case mapping is the ASCII one.  The program only compares mapped strings with ASCII
  constants made of letters that no other Unicode code point maps to, so the bytes above 127
  make both comparisons fail alike.  \<open>TrimSpace\<close> knows every Unicode white space character,
  in its UTF-8 encoding.
\<close>

subsection \<open>Prefixes and suffixes\<close>

definition HasPrefix :: "string \<Rightarrow> string \<Rightarrow> bool" where
  "HasPrefix s p \<longleftrightarrow> take (length p) s = p"

definition HasSuffix :: "string \<Rightarrow> string \<Rightarrow> bool" where
  "HasSuffix s p \<longleftrightarrow> HasPrefix (rev s) (rev p)"

definition TrimPrefix :: "string \<Rightarrow> string \<Rightarrow> string" where
  "TrimPrefix s p = (if HasPrefix s p then drop (length p) s else s)"

definition TrimSuffix :: "string \<Rightarrow> string \<Rightarrow> string" where
  "TrimSuffix s p = (if HasSuffix s p then take (length s - length p) s else s)"

text \<open>\<^verbatim>\<open>strings.TrimRight(s, "/")\<close>, with a cutset of one character.\<close>

definition TrimRight :: "string \<Rightarrow> char \<Rightarrow> string" where
  "TrimRight s c = rev (dropWhile ((=) c) (rev s))"

lemma HasPrefix_append [simp]: "HasPrefix (p @ s) p"
  by (simp add: HasPrefix_def)

lemma HasPrefix_iff: "HasPrefix s p \<longleftrightarrow> (\<exists>t. s = p @ t)"
  by (metis HasPrefix_def append_eq_conv_conj append_take_drop_id)

lemma HasPrefix_Nil [simp]: "HasPrefix s []"
  by (simp add: HasPrefix_def)

lemma HasSuffix_iff: "HasSuffix s p \<longleftrightarrow> (\<exists>t. s = t @ p)"
  unfolding HasSuffix_def HasPrefix_iff by (metis rev_append rev_rev_ident)

lemma TrimPrefix_append [simp]: "TrimPrefix (p @ s) p = s"
  by (simp add: TrimPrefix_def)

lemma TrimSuffix_append [simp]: "TrimSuffix (s @ p) p = s"
  by (auto simp: TrimSuffix_def HasSuffix_iff)

lemma TrimSuffix_id: "\<not> HasSuffix s p \<Longrightarrow> TrimSuffix s p = s"
  by (simp add: TrimSuffix_def)

lemma TrimRight_id: "(s = [] \<or> last s \<noteq> c) \<Longrightarrow> TrimRight s c = s"
  by (cases s rule: rev_cases) (auto simp: TrimRight_def)

lemma TrimRight_snoc [simp]: "TrimRight (s @ [c]) c = TrimRight s c"
  by (simp add: TrimRight_def)

lemma TrimRight_last: "TrimRight s c = [] \<or> last (TrimRight s c) \<noteq> c"
proof (cases "dropWhile ((=) c) (rev s)")
  case (Cons x xs)
  then have "c \<noteq> x" by (metis dropWhile_eq_Cons_conv)
  with Cons show ?thesis by (simp add: TrimRight_def)
qed (simp add: TrimRight_def)

lemma TrimRight_idem [simp]: "TrimRight (TrimRight s c) c = TrimRight s c"
  using TrimRight_last TrimRight_id by blast


subsection \<open>Split and Join\<close>

fun Split :: "char \<Rightarrow> string \<Rightarrow> string list" where
  "Split c [] = [[]]"
| "Split c (x # xs) =
     (if x = c then [] # Split c xs
      else (case Split c xs of [] \<Rightarrow> [[x]] | p # ps \<Rightarrow> (x # p) # ps))"

fun Join :: "char \<Rightarrow> string list \<Rightarrow> string" where
  "Join c [] = []"
| "Join c [p] = p"
| "Join c (p # q # ps) = p @ c # Join c (q # ps)"

lemma Split_not_Nil [simp]: "Split c s \<noteq> []"
  by (cases s) (auto split: list.splits)

lemma Join_Cons: "ps \<noteq> [] \<Longrightarrow> Join c (p # ps) = p @ c # Join c ps"
  by (cases ps) simp_all

lemma Join_Split [simp]: "Join c (Split c s) = s"
proof (induction s)
  case (Cons x xs)
  then show ?case
    by (cases "Split c xs"; cases "tl (Split c xs)") (auto simp: Join_Cons)
qed simp

lemma Split_no_sep: "c \<notin> set p \<Longrightarrow> Split c p = [p]"
  by (induction p) auto

lemma Split_append_sep: "c \<notin> set p \<Longrightarrow> Split c (p @ c # s) = p # Split c s"
  by (induction p) auto

lemma Split_Join:
  "ps \<noteq> [] \<Longrightarrow> \<forall>p \<in> set ps. c \<notin> set p \<Longrightarrow> Split c (Join c ps) = ps"
proof (induction ps)
  case (Cons p ps)
  then show ?case
    by (cases "ps = []") (auto simp: Join_Cons Split_append_sep Split_no_sep)
qed simp

lemma Split_parts: "p \<in> set (Split c s) \<Longrightarrow> c \<notin> set p"
  by (induction s arbitrary: p) (fastforce split: if_splits list.splits)+

lemma Split_parts_subset: "p \<in> set (Split c s) \<Longrightarrow> set p \<subseteq> set s"
  by (induction s arbitrary: p) (fastforce split: if_splits list.splits)+

lemma set_Join: "set (Join c ps) \<subseteq> insert c (\<Union>p \<in> set ps. set p)"
  by (induction c ps rule: Join.induct) auto

lemma append_sep_inj:
  "c \<notin> set p \<Longrightarrow> c \<notin> set q \<Longrightarrow> p @ c # s = q @ c # t \<longleftrightarrow> p = q \<and> s = t"
proof (induction p arbitrary: q)
  case Nil
  then show ?case by (cases q) auto
next
  case (Cons x p)
  then show ?case by (cases q) auto
qed

lemma Join_append:
  "ps \<noteq> [] \<Longrightarrow> qs \<noteq> [] \<Longrightarrow> Join c (ps @ qs) = Join c ps @ c # Join c qs"
proof (induction ps)
  case (Cons p ps)
  then show ?case by (cases "ps = []") (simp_all add: Join_Cons)
qed simp


subsection \<open>ASCII case mapping\<close>

definition code :: "char \<Rightarrow> nat" where
  "code c = of_char c"

definition is_digit :: "char \<Rightarrow> bool" where
  "is_digit c \<longleftrightarrow> 48 \<le> code c \<and> code c \<le> 57"

definition is_upper :: "char \<Rightarrow> bool" where
  "is_upper c \<longleftrightarrow> 65 \<le> code c \<and> code c \<le> 90"

definition is_lower :: "char \<Rightarrow> bool" where
  "is_lower c \<longleftrightarrow> 97 \<le> code c \<and> code c \<le> 122"

definition ToLower :: "string \<Rightarrow> string" where
  "ToLower s = map (\<lambda>c. if is_upper c then char_of (code c + 32) else c) s"

definition ToUpper :: "string \<Rightarrow> string" where
  "ToUpper s = map (\<lambda>c. if is_lower c then char_of (code c - 32) else c) s"

definition EqualFold :: "string \<Rightarrow> string \<Rightarrow> bool" where
  "EqualFold s t \<longleftrightarrow> ToLower s = ToLower t"


subsection \<open>White space\<close>

text \<open>
  The white space characters of \<^verbatim>\<open>unicode.IsSpace\<close> by the length of their UTF-8 encoding:
  tab, line feed, vertical tab, form feed, carriage return and space; U+0085 and U+00A0;
  U+1680, U+2000 to U+200A, U+2028, U+2029, U+202F, U+205F and U+3000.
\<close>

definition space1 :: "char \<Rightarrow> bool" where
  "space1 a \<longleftrightarrow> (9 \<le> code a \<and> code a \<le> 13) \<or> code a = 32"

definition space2 :: "char \<Rightarrow> char \<Rightarrow> bool" where
  "space2 a b \<longleftrightarrow> code a = 194 \<and> (code b = 133 \<or> code b = 160)"

definition space3 :: "char \<Rightarrow> char \<Rightarrow> char \<Rightarrow> bool" where
  "space3 a b c \<longleftrightarrow>
     (code a = 225 \<and> code b = 154 \<and> code c = 128) \<or>
     (code a = 226 \<and> code b = 128 \<and>
        (128 \<le> code c \<and> code c \<le> 138 \<or> code c = 168 \<or> code c = 169 \<or> code c = 175)) \<or>
     (code a = 226 \<and> code b = 129 \<and> code c = 159) \<or>
     (code a = 227 \<and> code b = 128 \<and> code c = 128)"

fun strip_left ::
  "(char \<Rightarrow> bool) \<Rightarrow> (char \<Rightarrow> char \<Rightarrow> bool) \<Rightarrow> (char \<Rightarrow> char \<Rightarrow> char \<Rightarrow> bool) \<Rightarrow> string \<Rightarrow> string"
where
  "strip_left s1 s2 s3 [] = []"
| "strip_left s1 s2 s3 [a] = (if s1 a then [] else [a])"
| "strip_left s1 s2 s3 [a, b] =
     (if s1 a then strip_left s1 s2 s3 [b] else if s2 a b then [] else [a, b])"
| "strip_left s1 s2 s3 (a # b # c # s) =
     (if s1 a then strip_left s1 s2 s3 (b # c # s)
      else if s2 a b then strip_left s1 s2 s3 (c # s)
      else if s3 a b c then strip_left s1 s2 s3 s
      else a # b # c # s)"

definition TrimSpace :: "string \<Rightarrow> string" where
  "TrimSpace s =
     rev (strip_left space1 (\<lambda>a b. space2 b a) (\<lambda>a b c. space3 c b a)
       (rev (strip_left space1 space2 space3 s)))"

lemma strip_left_id:
  assumes "\<not> s1 (hd s)" and "\<And>b. \<not> s2 (hd s) b" and "\<And>b c. \<not> s3 (hd s) b c"
  shows "strip_left s1 s2 s3 s = s"
  using assms by (cases "(s1, s2, s3, s)" rule: strip_left.cases) auto

text \<open>A string whose first and last bytes are printable ASCII is left as it is.\<close>

definition printable :: "char \<Rightarrow> bool" where
  "printable c \<longleftrightarrow> 33 \<le> code c \<and> code c \<le> 126"

lemma TrimSpace_id:
  assumes "s = [] \<or> (printable (hd s) \<and> printable (last s))"
  shows "TrimSpace s = s"
proof (cases "s = []")
  case False
  with assms have h: "printable (hd s)" and l: "printable (last s)" by auto
  have "strip_left space1 space2 space3 s = s"
    using h by (intro strip_left_id) (auto simp: printable_def space1_def space2_def space3_def)
  moreover have "strip_left space1 (\<lambda>a b. space2 b a) (\<lambda>a b c. space3 c b a) (rev s) = rev s"
    using l False
    by (intro strip_left_id)
      (auto simp: hd_rev printable_def space1_def space2_def space3_def)
  ultimately show ?thesis by (simp add: TrimSpace_def)
qed (simp add: TrimSpace_def)


subsection \<open>Decimal numbers\<close>

definition digit_value :: "char \<Rightarrow> nat" where
  "digit_value c = code c - 48"

definition digit_char :: "nat \<Rightarrow> char" where
  "digit_char d = char_of (48 + d)"

definition decimal :: "string \<Rightarrow> nat" where
  "decimal s = foldl (\<lambda>n c. 10 * n + digit_value c) 0 s"

text \<open>\<^verbatim>\<open>strconv.ParseUint(s, 10, bits)\<close>: digits only, at least one, within the width.\<close>

definition ParseUint :: "nat \<Rightarrow> string \<Rightarrow> nat option" where
  "ParseUint bits s =
     (if s \<noteq> [] \<and> list_all is_digit s \<and> decimal s < 2 ^ bits then Some (decimal s) else None)"

text \<open>\<^verbatim>\<open>strconv.Atoi(s)\<close>: an optional sign, then digits, within the 64 bits of an int.\<close>

definition Atoi :: "string \<Rightarrow> int option" where
  "Atoi s =
     (let neg = (case s of c # _ \<Rightarrow> c = CHR ''-'' | [] \<Rightarrow> False);
          ds = (case s of c # t \<Rightarrow> if c = CHR ''-'' \<or> c = CHR ''+'' then t else s | [] \<Rightarrow> []);
          n = int (decimal ds)
      in if ds = [] \<or> \<not> list_all is_digit ds then None
         else if neg then (if n \<le> 2 ^ 63 then Some (- n) else None)
         else (if n < 2 ^ 63 then Some n else None))"

text \<open>\<^verbatim>\<open>%d\<close> of a non-negative number, and \<^verbatim>\<open>%t\<close> of a bool.\<close>

fun Itoa :: "nat \<Rightarrow> string" where
  "Itoa n = (if n < 10 then [digit_char n] else Itoa (n div 10) @ [digit_char (n mod 10)])"

declare Itoa.simps [simp del]

definition fmt_bool :: "bool \<Rightarrow> string" where
  "fmt_bool b = (if b then ''true'' else ''false'')"

lemma code_digit_char: "d < 10 \<Longrightarrow> code (digit_char d) = 48 + d"
  by (simp add: code_def digit_char_def)

lemma decimal_snoc: "decimal (s @ [c]) = 10 * decimal s + digit_value c"
  by (simp add: decimal_def)

lemma Itoa_not_Nil [simp]: "Itoa n \<noteq> []"
  by (subst Itoa.simps) simp

lemma Itoa_digits: "list_all is_digit (Itoa n)"
proof (induction n rule: Itoa.induct)
  case (1 n)
  show ?case
  proof (cases "n < 10")
    case True
    then show ?thesis by (subst Itoa.simps) (simp add: is_digit_def code_digit_char)
  next
    case False
    moreover have "is_digit (digit_char (n mod 10))"
      by (simp add: is_digit_def code_digit_char le_eq_less_or_eq [of _ 57]) linarith
    ultimately show ?thesis using "1.IH" by (subst Itoa.simps) simp
  qed
qed

lemma decimal_Itoa [simp]: "decimal (Itoa n) = n"
proof (induction n rule: Itoa.induct)
  case (1 n)
  show ?case
  proof (cases "n < 10")
    case True
    then show ?thesis
      by (subst Itoa.simps) (simp add: decimal_def digit_value_def code_digit_char)
  next
    case False
    with "1.IH" show ?thesis
      by (subst Itoa.simps) (simp add: decimal_snoc digit_value_def code_digit_char)
  qed
qed

lemma Itoa_inj: "Itoa m = Itoa n \<longleftrightarrow> m = n"
  by (metis decimal_Itoa)

lemma ParseUint_Itoa: "n < 2 ^ bits \<Longrightarrow> ParseUint bits (Itoa n) = Some n"
  by (simp add: ParseUint_def Itoa_digits)

lemma digit_not_sign: "is_digit c \<Longrightarrow> c \<noteq> CHR ''-'' \<and> c \<noteq> CHR ''+''"
  by (auto simp: is_digit_def code_def)

lemma Atoi_Itoa: "n < 2 ^ 63 \<Longrightarrow> Atoi (Itoa n) = Some (int n)"
proof -
  assume n: "n < 2 ^ 63"
  obtain c t where ct: "Itoa n = c # t" by (meson Itoa_not_Nil neq_Nil_conv)
  moreover have "c \<noteq> CHR ''-''" and "c \<noteq> CHR ''+''"
    using Itoa_digits [of n] digit_not_sign [of c] by (simp_all add: ct)
  moreover have "int n < 2 ^ 63" using n by simp
  moreover have "list_all is_digit (c # t)" using Itoa_digits [of n] by (simp add: ct)
  ultimately show ?thesis
    using decimal_Itoa [of n] by (simp add: Atoi_def)
qed

lemma char_of_numeral_eq [go_eval]:
  "(char_of (numeral n :: nat) = c) = (take_bit 8 (numeral n :: nat) = of_char c)"
  by (rule char_of_eq_iff)

lemmas [go_eval] =
  HasPrefix_def HasSuffix_def TrimPrefix_def TrimSuffix_def TrimRight_def
  code_def is_digit_def is_upper_def is_lower_def ToLower_def ToUpper_def EqualFold_def
  space1_def space2_def space3_def TrimSpace_def
  digit_value_def digit_char_def decimal_def ParseUint_def Atoi_def fmt_bool_def

end
