(* ===== verification/GoRegexp.thy ===== *)
theory GoRegexp
  imports GoStrings
begin

text \<open>
  Go's \<^verbatim>\<open>regexp\<close> package, as far as the hostname pattern needs it: character classes,
  concatenation, alternation with the empty string, bounded and unbounded repetition.
  \<open>MatchString\<close> is the anchored match (\<^verbatim>\<open>^...$\<close>), by derivatives; \<open>lang\<close> is its
  declarative meaning, and \<open>MatchString_lang\<close> shows that they agree.
\<close>

datatype regexp =
    Fail
  | Eps
  | Cls "char \<Rightarrow> bool"
  | Cat regexp regexp
  | Alt regexp regexp
  | Upto nat regexp
  | Star regexp

definition conc :: "string set \<Rightarrow> string set \<Rightarrow> string set" where
  "conc A B = {u @ v | u v. u \<in> A \<and> v \<in> B}"

fun power :: "nat \<Rightarrow> string set \<Rightarrow> string set" where
  "power 0 A = {[]}"
| "power (Suc n) A = insert [] (conc A (power n A))"

inductive_set star :: "string set \<Rightarrow> string set" for A where
  star_Nil: "[] \<in> star A"
| star_Cons: "u \<in> A \<Longrightarrow> v \<in> star A \<Longrightarrow> u @ v \<in> star A"

fun lang :: "regexp \<Rightarrow> string set" where
  "lang Fail = {}"
| "lang Eps = {[]}"
| "lang (Cls p) = {[c] | c. p c}"
| "lang (Cat r s) = conc (lang r) (lang s)"
| "lang (Alt r s) = lang r \<union> lang s"
| "lang (Upto n r) = power n (lang r)"
| "lang (Star r) = star (lang r)"

fun nullable :: "regexp \<Rightarrow> bool" where
  "nullable Fail = False"
| "nullable Eps = True"
| "nullable (Cls p) = False"
| "nullable (Cat r s) = (nullable r \<and> nullable s)"
| "nullable (Alt r s) = (nullable r \<or> nullable s)"
| "nullable (Upto n r) = True"
| "nullable (Star r) = True"

fun deriv :: "char \<Rightarrow> regexp \<Rightarrow> regexp" where
  "deriv c Fail = Fail"
| "deriv c Eps = Fail"
| "deriv c (Cls p) = (if p c then Eps else Fail)"
| "deriv c (Cat r s) =
     (if nullable r then Alt (Cat (deriv c r) s) (deriv c s) else Cat (deriv c r) s)"
| "deriv c (Alt r s) = Alt (deriv c r) (deriv c s)"
| "deriv c (Upto n r) = (case n of 0 \<Rightarrow> Fail | Suc m \<Rightarrow> Cat (deriv c r) (Upto m r))"
| "deriv c (Star r) = Cat (deriv c r) (Star r)"

definition MatchString :: "regexp \<Rightarrow> string \<Rightarrow> bool" where
  "MatchString r s = nullable (fold deriv s r)"

lemma Nil_in_power [simp]: "[] \<in> power n A"
  by (cases n) auto

lemma Nil_in_conc [simp]: "[] \<in> conc A B \<longleftrightarrow> [] \<in> A \<and> [] \<in> B"
  by (auto simp: conc_def)

lemma nullable_lang: "nullable r \<longleftrightarrow> [] \<in> lang r"
  by (induction r) (auto intro: star_Nil)

lemma Cons_in_conc:
  "c # s \<in> conc A B \<longleftrightarrow> (\<exists>u v. s = u @ v \<and> c # u \<in> A \<and> v \<in> B) \<or> ([] \<in> A \<and> c # s \<in> B)"
  by (auto simp: conc_def Cons_eq_append_conv)

lemma power_mono: "power n A \<subseteq> power (Suc n) A"
  by (induction n) (fastforce simp: conc_def)+

lemma Cons_in_power:
  "c # s \<in> power (Suc n) A \<longleftrightarrow> (\<exists>u v. s = u @ v \<and> c # u \<in> A \<and> v \<in> power n A)"
proof (induction n)
  case 0
  then show ?case by (auto simp: Cons_in_conc)
next
  case (Suc n)
  have "c # s \<in> power (Suc (Suc n)) A \<longleftrightarrow>
      (\<exists>u v. s = u @ v \<and> c # u \<in> A \<and> v \<in> power (Suc n) A) \<or> ([] \<in> A \<and> c # s \<in> power (Suc n) A)"
    by (simp only: power.simps(2) [of "Suc n"] Cons_in_conc insert_iff list.distinct simp_thms)
  then show ?case using Suc.IH power_mono [of n A] by blast
qed

lemma Cons_in_star:
  "c # s \<in> star A \<longleftrightarrow> (\<exists>u v. s = u @ v \<and> c # u \<in> A \<and> v \<in> star A)"
proof
  assume "c # s \<in> star A"
  then show "\<exists>u v. s = u @ v \<and> c # u \<in> A \<and> v \<in> star A"
    by (induction "c # s") (auto simp: append_eq_Cons_conv)
next
  assume "\<exists>u v. s = u @ v \<and> c # u \<in> A \<and> v \<in> star A"
  then show "c # s \<in> star A" by (metis append_Cons star_Cons)
qed

lemma deriv_lang: "s \<in> lang (deriv c r) \<longleftrightarrow> c # s \<in> lang r"
proof (induction r arbitrary: s)
  case (Cat r1 r2)
  then show ?case by (auto simp: Cons_in_conc nullable_lang) (auto simp: conc_def)
next
  case (Upto n r)
  then show ?case by (cases n) (auto simp: Cons_in_power conc_def simp del: power.simps(2))
next
  case (Star r)
  then show ?case by (auto simp: Cons_in_star conc_def)
qed auto

theorem MatchString_lang: "MatchString r s \<longleftrightarrow> s \<in> lang r"
  unfolding MatchString_def
  by (induction s arbitrary: r) (simp_all add: nullable_lang deriv_lang)


subsection \<open>Shapes the hostname pattern is made of\<close>

lemma power_Cls: "power n {[c] | c. p c} = {s. length s \<le> n \<and> list_all p s}"
proof (induction n)
  case (Suc n)
  show ?case
  proof (rule set_eqI)
    fix s
    show "s \<in> power (Suc n) {[c] | c. p c} \<longleftrightarrow> s \<in> {s. length s \<le> Suc n \<and> list_all p s}"
      by (cases s) (auto simp: Cons_in_power Suc simp del: power.simps(2))
  qed
qed auto

lemma conc_Cls: "s \<in> conc {[c] | c. p c} B \<longleftrightarrow> (\<exists>c t. s = c # t \<and> p c \<and> t \<in> B)"
proof
  assume "\<exists>c t. s = c # t \<and> p c \<and> t \<in> B"
  then obtain c t where "s = [c] @ t" and "p c" and "t \<in> B" by auto
  then show "s \<in> conc {[c] | c. p c} B" unfolding conc_def by blast
qed (auto simp: conc_def)

text \<open>
  \<^verbatim>\<open>P(?:sP)*\<close>, with a separator \<open>s\<close> outside the language of \<open>P\<close>: the parts of the string
  between separators all match \<open>P\<close>.
\<close>

lemma star_sep_Split:
  assumes sep: "\<And>u. u \<in> A \<Longrightarrow> c \<notin> set u"
  shows "s \<in> conc A (star (conc {[c]} A)) \<longleftrightarrow> set (Split c s) \<subseteq> A"
proof
  assume "s \<in> conc A (star (conc {[c]} A))"
  then obtain u v where s: "s = u @ v" "u \<in> A" and v: "v \<in> star (conc {[c]} A)"
    by (auto simp: conc_def)
  from v have "\<forall>u \<in> A. set (Split c (u @ v)) \<subseteq> A"
  proof induction
    case star_Nil
    then show ?case using sep by (auto simp: Split_no_sep)
  next
    case (star_Cons w v)
    then obtain x where "w = c # x" "x \<in> A" by (auto simp: conc_def)
    with star_Cons.IH show ?case using sep by (auto simp: Split_append_sep)
  qed
  with s show "set (Split c s) \<subseteq> A" by blast
next
  have "set ps \<subseteq> A \<Longrightarrow> ps \<noteq> [] \<Longrightarrow> Join c ps \<in> conc A (star (conc {[c]} A))" for ps
  proof (induction ps)
    case (Cons p ps)
    show ?case
    proof (cases "ps = []")
      case True
      with Cons.prems show ?thesis by (auto simp: conc_def intro: star_Nil)
    next
      case False
      with Cons obtain u v where uv: "Join c ps = u @ v" "u \<in> A" "v \<in> star (conc {[c]} A)"
        by (auto simp: conc_def)
      have "c # u \<in> conc {[c]} A" using uv(2) by (auto simp: conc_def)
      from star_Cons [OF this uv(3)] have "c # Join c ps \<in> star (conc {[c]} A)"
        by (simp add: uv(1))
      with Cons.prems False show ?thesis by (auto simp: conc_def Join_Cons)
    qed
  qed simp
  from this [of "Split c s"]
  show "set (Split c s) \<subseteq> A \<Longrightarrow> s \<in> conc A (star (conc {[c]} A))" by simp
qed

end
