(* ===== verification/GoNet.thy ===== *)
theory GoNet
  imports GoStrings
begin

text \<open>
  Go's \<^verbatim>\<open>net.ParseIP\<close> with \<^verbatim>\<open>To4\<close> and \<^verbatim>\<open>To16\<close>: the parsers of \<^verbatim>\<open>net/netip\<close> that it
  calls.  An address is its list of bytes; an IPv4 address is held in its 16-byte form
  \<^verbatim>\<open>::ffff:a.b.c.d\<close>, as \<^verbatim>\<open>net.ParseIP\<close> returns it.  An address with a zone (a \<^verbatim>\<open>%\<close>) is
  refused by \<^verbatim>\<open>net.ParseIP\<close>.
\<close>

type_synonym IP = "nat list"

text \<open>
  The loop of \<^verbatim>\<open>parseIPv4Fields\<close>: \<open>fresh\<close> holds at the start of a field, \<open>val\<close> and
  \<open>digLen\<close> are its value and its number of digits so far, \<open>fs\<close> the finished fields.
\<close>

fun parseIPv4Fields :: "string \<Rightarrow> bool \<Rightarrow> nat \<Rightarrow> nat \<Rightarrow> nat list \<Rightarrow> nat list option" where
  "parseIPv4Fields [] fresh val digLen fs =
     (if length fs < 3 then None else Some (fs @ [val]))"
| "parseIPv4Fields (c # s) fresh val digLen fs =
     (if is_digit c then
        (if digLen = 1 \<and> val = 0 then None
         else let val' = 10 * val + digit_value c in
           if val' > 255 then None
           else parseIPv4Fields s False val' (Suc digLen) fs)
      else if c = CHR ''.'' then
        (if fresh \<or> s = [] then None
         else if length fs = 3 then None
         else parseIPv4Fields s True 0 0 (fs @ [val]))
      else None)"

definition parseIPv4 :: "string \<Rightarrow> nat list option" where
  "parseIPv4 s = parseIPv4Fields s True 0 0 []"

definition hex_value :: "char \<Rightarrow> nat option" where
  "hex_value c =
     (if is_digit c then Some (code c - 48)
      else if 97 \<le> code c \<and> code c \<le> 102 then Some (code c - 87)
      else if 65 \<le> code c \<and> code c \<le> 70 then Some (code c - 55)
      else None)"

fun hex_run :: "string \<Rightarrow> nat list \<times> string" where
  "hex_run [] = ([], [])"
| "hex_run (c # s) =
     (case hex_value c of
        None \<Rightarrow> ([], c # s)
      | Some d \<Rightarrow> (let (ds, r) = hex_run s in (d # ds, r)))"

lemma hex_run_length: "hex_run s = (ds, r) \<Longrightarrow> length s = length ds + length r"
  by (induction s arbitrary: ds r) (auto split: option.splits prod.splits)

text \<open>
  The loop of \<^verbatim>\<open>parseIPv6\<close>: \<open>ip\<close> holds the bytes parsed so far, \<open>ell\<close> the position of the
  ellipsis.  One round reads a group of hexadecimal digits and what follows it; the loop ends
  with the bytes, the ellipsis and the rest of the string.
\<close>

datatype round =
    Bad
  | Stop "nat list" "nat option" string
  | Again string "nat list" "nat option"

definition parseIPv6Round :: "string \<Rightarrow> nat list \<Rightarrow> nat option \<Rightarrow> round" where
  "parseIPv6Round s ip ell =
     (case hex_run s of (ds, r) \<Rightarrow>
        if ds = [] \<or> length ds > 4 then Bad
        else if r \<noteq> [] \<and> hd r = CHR ''.'' then
          (if ell = None \<and> length ip \<noteq> 12 then Bad
           else if length ip + 4 > 16 then Bad
           else (case parseIPv4 s of None \<Rightarrow> Bad | Some b4 \<Rightarrow> Stop (ip @ b4) ell []))
        else
          let acc = foldl (\<lambda>a d. 16 * a + d) 0 ds;
              ip' = ip @ [acc div 256, acc mod 256]
          in (case r of
                [] \<Rightarrow> Stop ip' ell []
              | c # t \<Rightarrow>
                  if c \<noteq> CHR '':'' then Bad
                  else (case t of
                      [] \<Rightarrow> Bad
                    | e # u \<Rightarrow>
                        if e = CHR '':'' then
                          (if ell \<noteq> None then Bad
                           else if u = [] then Stop ip' (Some (length ip')) []
                           else Again u ip' (Some (length ip')))
                        else Again t ip' ell)))"

lemma parseIPv6Round_shorter:
  "parseIPv6Round s ip ell = Again s' ip' ell' \<Longrightarrow> length s' < length s"
  by (cases "hex_run s")
    (auto simp: parseIPv6Round_def Let_def split: if_splits list.splits option.splits
      dest: hex_run_length)

function parseIPv6Loop ::
  "string \<Rightarrow> nat list \<Rightarrow> nat option \<Rightarrow> (nat list \<times> nat option \<times> string) option"
where
  "parseIPv6Loop s ip ell =
     (if length ip \<ge> 16 then Some (ip, ell, s)
      else (case parseIPv6Round s ip ell of
          Bad \<Rightarrow> None
        | Stop ip' ell' r \<Rightarrow> Some (ip', ell', r)
        | Again s' ip' ell' \<Rightarrow> parseIPv6Loop s' ip' ell'))"
  by pat_completeness auto
termination
  by (relation "measure (\<lambda>(s, ip, ell). length s)") (auto dest: parseIPv6Round_shorter)

declare parseIPv6Loop.simps [simp del]

definition parseIPv6 :: "string \<Rightarrow> IP option" where
  "parseIPv6 s =
     (if s = ''::'' then Some (replicate 16 0)
      else
        let (s', ell) = (if HasPrefix s ''::'' then (drop 2 s, Some 0) else (s, None))
        in (case parseIPv6Loop s' [] ell of
              None \<Rightarrow> None
            | Some (ip, ell', r) \<Rightarrow>
                if r \<noteq> [] then None
                else if length ip < 16 then
                  (case ell' of
                     None \<Rightarrow> None
                   | Some e \<Rightarrow> Some (take e ip @ replicate (16 - length ip) 0 @ drop e ip))
                else if ell' \<noteq> None then None
                else Some ip))"

definition v4_mapped :: "nat list \<Rightarrow> IP" where
  "v4_mapped b4 = replicate 10 0 @ [255, 255] @ b4"

text \<open>
  \<^verbatim>\<open>netip.ParseAddr\<close> decides by the first dot or colon.  The zone test comes first here: a
  \<^verbatim>\<open>%\<close> makes \<^verbatim>\<open>net.ParseIP\<close> return nil wherever it stands.
\<close>

definition ParseIP :: "string \<Rightarrow> IP option" where
  "ParseIP s =
     (if CHR ''%'' \<in> set s then None
      else (case dropWhile (\<lambda>c. c \<noteq> CHR ''.'' \<and> c \<noteq> CHR '':'') s of
          [] \<Rightarrow> None
        | c # _ \<Rightarrow>
            if c = CHR ''.'' then map_option v4_mapped (parseIPv4 s) else parseIPv6 s))"

definition To4 :: "IP \<Rightarrow> nat list option" where
  "To4 ip =
     (if length ip = 4 then Some ip
      else if length ip = 16 \<and> take 12 ip = replicate 10 0 @ [255, 255]
      then Some (drop 12 ip)
      else None)"

definition To16 :: "IP \<Rightarrow> IP option" where
  "To16 ip =
     (if length ip = 4 then Some (v4_mapped ip)
      else if length ip = 16 then Some ip
      else None)"

lemmas [go_eval] =
  parseIPv4_def hex_value_def parseIPv6Round_def parseIPv6Loop.simps parseIPv6_def v4_mapped_def ParseIP_def
  To4_def To16_def

lemma replicate_numeral [go_eval]:
  "replicate (numeral k) x = x # replicate (pred_numeral k) x"
  by (simp add: numeral_eq_Suc)


subsection \<open>Every parsed address has 16 bytes\<close>

lemma parseIPv4Fields_length:
  "parseIPv4Fields s fresh val digLen fs = Some b \<Longrightarrow> length fs \<le> 3 \<Longrightarrow> length b = 4"
  by (induction s fresh val digLen fs rule: parseIPv4Fields.induct)
    (simp_all add: Let_def split: if_splits, auto)

lemma parseIPv4_length: "parseIPv4 s = Some b \<Longrightarrow> length b = 4"
  unfolding parseIPv4_def by (erule parseIPv4Fields_length) simp

lemma v4_mapped_To4: "length b = 4 \<Longrightarrow> To4 (v4_mapped b) = Some b"
  by (simp add: To4_def v4_mapped_def nth_append)

definition ell_ok :: "nat list \<Rightarrow> nat option \<Rightarrow> bool" where
  "ell_ok ip ell \<longleftrightarrow>
     length ip \<le> 16 \<and> even (length ip) \<and> (\<forall>e. ell = Some e \<longrightarrow> e \<le> length ip)"

lemma parseIPv6Round_ok:
  assumes "ell_ok ip ell" and "length ip < 16"
  shows "parseIPv6Round s ip ell = Again s' ip' ell' \<Longrightarrow> ell_ok ip' ell'"
    and "parseIPv6Round s ip ell = Stop ip' ell' r \<Longrightarrow> ell_ok ip' ell'"
proof -
  have "length ip + 2 \<le> 16" using assms by (auto simp: ell_ok_def elim: evenE)
  then show "parseIPv6Round s ip ell = Again s' ip' ell' \<Longrightarrow> ell_ok ip' ell'"
    and "parseIPv6Round s ip ell = Stop ip' ell' r \<Longrightarrow> ell_ok ip' ell'"
    using assms
    by (auto simp: ell_ok_def parseIPv6Round_def Let_def dest!: parseIPv4_length
        split: if_splits list.splits option.splits prod.splits)
qed

lemma parseIPv6Loop_ok:
  "parseIPv6Loop s ip ell = Some (ip', ell', r) \<Longrightarrow> ell_ok ip ell \<Longrightarrow> ell_ok ip' ell'"
proof (induction s ip ell rule: parseIPv6Loop.induct)
  case (1 s ip ell)
  show ?case
  proof (cases "length ip \<ge> 16")
    case True
    with "1.prems" show ?thesis by (simp add: parseIPv6Loop.simps [of s ip ell])
  next
    case False
    show ?thesis
    proof (cases "parseIPv6Round s ip ell")
      case Bad
      with "1.prems"(1) False show ?thesis by (simp add: parseIPv6Loop.simps [of s ip ell])
    next
      case (Stop ip1 ell1 r1)
      with "1.prems"(1) False have "ip' = ip1" and "ell' = ell1"
        by (simp_all add: parseIPv6Loop.simps [of s ip ell])
      with parseIPv6Round_ok(2) [OF "1.prems"(2) _ Stop] False show ?thesis by simp
    next
      case (Again s1 ip1 ell1)
      with "1.prems"(1) False have "parseIPv6Loop s1 ip1 ell1 = Some (ip', ell', r)"
        by (simp add: parseIPv6Loop.simps [of s ip ell])
      with "1.IH" Again False parseIPv6Round_ok(1) [OF "1.prems"(2) _ Again]
      show ?thesis by simp
    qed
  qed
qed

lemma parseIPv6_length:
  assumes "parseIPv6 s = Some ip"
  shows "length ip = 16"
proof (cases "s = ''::''")
  case True
  with assms show ?thesis by (auto simp: parseIPv6_def)
next
  case False
  have "ell_ok [] None" and "ell_ok [] (Some 0)" by (simp_all add: ell_ok_def)
  with assms False show ?thesis
    by (auto simp: parseIPv6_def Let_def ell_ok_def split: if_splits option.splits
        dest!: parseIPv6Loop_ok)
qed

lemma ParseIP_length: "ParseIP s = Some ip \<Longrightarrow> length ip = 16"
  unfolding ParseIP_def
  by (auto split: if_splits list.splits dest!: parseIPv6_length parseIPv4_length
      simp: v4_mapped_def)

lemma ParseIP_To16: "ParseIP s = Some ip \<Longrightarrow> To16 ip = Some ip"
  by (simp add: To16_def ParseIP_length)

text \<open>What decides the family for the callers: a parsed address is IPv4 or IPv6, never both.\<close>

definition is_ipv4 :: "string \<Rightarrow> bool" where
  "is_ipv4 s \<longleftrightarrow> (case ParseIP s of None \<Rightarrow> False | Some ip \<Rightarrow> To4 ip \<noteq> None)"

definition is_ipv6 :: "string \<Rightarrow> bool" where
  "is_ipv6 s \<longleftrightarrow>
     (case ParseIP s of None \<Rightarrow> False | Some ip \<Rightarrow> To16 ip \<noteq> None \<and> To4 ip = None)"

lemmas [go_eval] = is_ipv4_def is_ipv6_def

lemma ip_family_disjoint: "\<not> (is_ipv4 s \<and> is_ipv6 s)"
  by (auto simp: is_ipv4_def is_ipv6_def split: option.splits)

lemma ip_family_total: "ParseIP s \<noteq> None \<Longrightarrow> is_ipv4 s \<or> is_ipv6 s"
  by (auto simp: is_ipv4_def is_ipv6_def ParseIP_To16)

end
