(* ===== verification/Domain.thy ===== *)
theory Domain
  imports GoRegexp GoNet
begin

text \<open>
  \<^verbatim>\<open>internal/domain\<close>: container events, DNS records and record intents, with the validating
  constructors.  A record kind and an event type are Go strings with named constants, and so
  they are here: a value from the wire may hold any string.  A \<^verbatim>\<open>time.Time\<close> is its instant,
  in nanoseconds since the Unix epoch; a uint32 is a \<open>32 word\<close>.
\<close>

subsection \<open>Time\<close>

type_synonym Time = int

text \<open>The zero \<^verbatim>\<open>time.Time\<close> is January 1, year 1, UTC.\<close>

definition zeroTime :: Time where
  "zeroTime = - 62135596800 * 1000000000"

definition IsZero :: "Time \<Rightarrow> bool" where
  "IsZero t \<longleftrightarrow> t = zeroTime"

definition Before :: "Time \<Rightarrow> Time \<Rightarrow> bool" where
  "Before t u \<longleftrightarrow> t < u"

text \<open>\<^verbatim>\<open>time.Duration\<close> is an int64 of nanoseconds, and \<^verbatim>\<open>Time.Sub\<close> saturates.\<close>

definition minDuration :: int where "minDuration = - (2 ^ 63)"
definition maxDuration :: int where "maxDuration = 2 ^ 63 - 1"

definition TimeSub :: "Time \<Rightarrow> Time \<Rightarrow> int" where
  "TimeSub t u = max minDuration (min maxDuration (t - u))"

text \<open>\<^verbatim>\<open>time.Unix(sec, nsec)\<close>.\<close>

definition Unix :: "int \<Rightarrow> int \<Rightarrow> Time" where
  "Unix sec nsec = sec * 1000000000 + nsec"

lemmas [go_eval] =
  zeroTime_def IsZero_def Before_def minDuration_def maxDuration_def TimeSub_def Unix_def


subsection \<open>Container events\<close>

type_synonym EventType = string

definition EventTypeContainerDied :: EventType where "EventTypeContainerDied = ''die''"
definition EventTypeContainerStarted :: EventType where "EventTypeContainerStarted = ''start''"
definition EventTypeContainerStopped :: EventType where "EventTypeContainerStopped = ''stop''"
definition EventTypeInitialContainerDetection :: EventType where
  "EventTypeInitialContainerDetection = ''initial_detection''"
definition EventTypeResync :: EventType where "EventTypeResync = ''resync''"

lemmas event_type_defs [go_eval] =
  EventTypeContainerDied_def EventTypeContainerStarted_def EventTypeContainerStopped_def
  EventTypeInitialContainerDetection_def EventTypeResync_def

datatype ContainerStatus = StatusRunning | StatusRemoved

definition EventType_IsValid :: "EventType \<Rightarrow> bool" where
  "EventType_IsValid et \<longleftrightarrow>
     et \<in> {EventTypeContainerDied, EventTypeContainerStarted, EventTypeContainerStopped,
       EventTypeInitialContainerDetection, EventTypeResync}"

text \<open>\<open>Labels\<close> is a Go map: an association list with distinct keys.\<close>

record Container =
  Id :: string
  ContName :: string
  ContCreated :: Time
  Labels :: "(string \<times> string) list"

record ContainerEvent =
  Container :: Container
  EventType :: EventType
  RunningContainerIds :: "string list"


subsection \<open>Record kinds\<close>

type_synonym RecordKind = string

definition RecordA :: RecordKind where "RecordA = ''A''"
definition RecordAAAA :: RecordKind where "RecordAAAA = ''AAAA''"
definition RecordCNAME :: RecordKind where "RecordCNAME = ''CNAME''"

lemmas kind_defs [go_eval] = RecordA_def RecordAAAA_def RecordCNAME_def

lemma kind_distinct [simp, kind_simps]:
  "RecordA \<noteq> RecordAAAA" "RecordA \<noteq> RecordCNAME" "RecordAAAA \<noteq> RecordCNAME"
  "RecordAAAA \<noteq> RecordA" "RecordCNAME \<noteq> RecordA" "RecordCNAME \<noteq> RecordAAAA"
  by (simp_all add: kind_defs)

datatype domain_error =
    InvalidAName string
  | InvalidIPv4 string
  | InvalidAAAAName string
  | InvalidIPv6 string
  | InvalidCNAME string string
  | UnsupportedKind string

definition ParseKind :: "string \<Rightarrow> domain_error + RecordKind" where
  "ParseKind s =
     (let u = ToUpper s in
      if u = ''A'' then Inr RecordA
      else if u = ''AAAA'' then Inr RecordAAAA
      else if u = ''CNAME'' then Inr RecordCNAME
      else Inl (UnsupportedKind s))"


subsection \<open>Hostnames\<close>

definition alnum :: "char \<Rightarrow> bool" where
  "alnum c \<longleftrightarrow> is_lower c \<or> is_upper c \<or> is_digit c"

definition alnum_dash :: "char \<Rightarrow> bool" where
  "alnum_dash c \<longleftrightarrow> alnum c \<or> c = CHR ''-''"

definition labelRegexp :: regexp where
  "labelRegexp =
     Cat (Cls alnum) (Alt Eps (Cat (Upto 61 (Cls alnum_dash)) (Cls alnum)))"

definition hostnameRegexp :: regexp where
  "hostnameRegexp = Cat labelRegexp (Star (Cat (Cls (\<lambda>c. c = CHR ''.'')) labelRegexp))"

definition isValidHostname :: "string \<Rightarrow> bool" where
  "isValidHostname h \<longleftrightarrow> length h > 0 \<and> length h \<le> 255 \<and> MatchString hostnameRegexp h"

text \<open>
  The rules of the hostname pattern: every dot-separated label has 1 to 63 letters, digits and
  dashes, and starts and ends with a letter or digit.
\<close>

definition label_ok :: "string \<Rightarrow> bool" where
  "label_ok l \<longleftrightarrow>
     l \<noteq> [] \<and> length l \<le> 63 \<and> alnum (hd l) \<and> alnum (last l) \<and> list_all alnum_dash l"

lemma lang_labelRegexp: "lang labelRegexp = Collect label_ok"
proof (rule set_eqI)
  fix l
  have mid: "l \<in> conc (power 61 {[c] | c. alnum_dash c}) {[c] | c. alnum c} \<longleftrightarrow>
      l \<noteq> [] \<and> length l \<le> 62 \<and> alnum (last l) \<and> list_all alnum_dash (butlast l)" for l
    by (cases l rule: rev_cases) (auto simp: conc_def power_Cls)
  have "l \<in> lang labelRegexp \<longleftrightarrow>
      (\<exists>c t. l = c # t \<and> alnum c \<and> (t = [] \<or> t \<noteq> [] \<and> length t \<le> 62 \<and> alnum (last t) \<and>
         list_all alnum_dash (butlast t)))"
    by (auto simp: labelRegexp_def conc_Cls mid)
  also have "\<dots> \<longleftrightarrow> label_ok l"
  proof (cases l)
    case (Cons c t)
    then show ?thesis
      by (cases t rule: rev_cases) (auto simp: label_ok_def alnum_dash_def)
  qed (simp add: label_ok_def)
  finally show "l \<in> lang labelRegexp \<longleftrightarrow> l \<in> Collect label_ok" by simp
qed

lemma label_ok_no_dot: "label_ok l \<Longrightarrow> CHR ''.'' \<notin> set l"
  by (auto simp: label_ok_def alnum_dash_def alnum_def list_all_iff is_lower_def is_upper_def
      is_digit_def code_def)

theorem hostnameRegexp_labels:
  "MatchString hostnameRegexp h \<longleftrightarrow> list_all label_ok (Split (CHR ''.'') h)"
proof -
  have "lang hostnameRegexp =
      conc (Collect label_ok) (star (conc {[CHR ''.'']} (Collect label_ok)))"
    by (simp add: hostnameRegexp_def lang_labelRegexp)
  then show ?thesis
    using star_sep_Split [of "Collect label_ok" "CHR ''.''" h] label_ok_no_dot
    by (auto simp: MatchString_lang list_all_iff)
qed

lemma isValidHostname_labels [go_eval]:
  "isValidHostname h \<longleftrightarrow> length h \<le> 255 \<and> list_all label_ok (Split (CHR ''.'') h)"
  by (cases "h = []") (auto simp: isValidHostname_def hostnameRegexp_labels label_ok_def)

lemmas [go_eval] = alnum_def alnum_dash_def label_ok_def


subsection \<open>Records\<close>

record Record =
  Name :: string
  Kind :: RecordKind
  Value :: string

definition NewA :: "string \<Rightarrow> string \<Rightarrow> domain_error + Record" where
  "NewA name ipv4 =
     (if \<not> isValidHostname name then Inl (InvalidAName name)
      else if (case ParseIP ipv4 of None \<Rightarrow> True | Some ip \<Rightarrow> To4 ip = None)
      then Inl (InvalidIPv4 ipv4)
      else Inr \<lparr>Name = name, Kind = RecordA, Value = ipv4\<rparr>)"

definition NewAAAA :: "string \<Rightarrow> string \<Rightarrow> domain_error + Record" where
  "NewAAAA name ipv6 =
     (if \<not> isValidHostname name then Inl (InvalidAAAAName name)
      else if (case ParseIP ipv6 of None \<Rightarrow> True
               | Some ip \<Rightarrow> To16 ip = None \<or> To4 ip \<noteq> None)
      then Inl (InvalidIPv6 ipv6)
      else Inr \<lparr>Name = name, Kind = RecordAAAA, Value = ipv6\<rparr>)"

definition NewCNAME :: "string \<Rightarrow> string \<Rightarrow> domain_error + Record" where
  "NewCNAME name target =
     (if \<not> isValidHostname name \<or> \<not> isValidHostname target then Inl (InvalidCNAME name target)
      else Inr \<lparr>Name = name, Kind = RecordCNAME, Value = target\<rparr>)"

definition NewFromKind :: "RecordKind \<Rightarrow> string \<Rightarrow> string \<Rightarrow> domain_error + Record" where
  "NewFromKind kind name value =
     (if kind = RecordA then NewA name value
      else if kind = RecordAAAA then NewAAAA name value
      else if kind = RecordCNAME then NewCNAME name value
      else Inl (UnsupportedKind kind))"

definition NewFromString :: "string \<Rightarrow> string \<Rightarrow> string \<Rightarrow> domain_error + Record" where
  "NewFromString kind name value =
     (case ParseKind kind of Inl err \<Rightarrow> Inl err | Inr k \<Rightarrow> NewFromKind k name value)"

definition Record_Key :: "Record \<Rightarrow> string" where
  "Record_Key r = Name r @ ''|'' @ Kind r @ ''|'' @ Value r"

definition Record_Render :: "Record \<Rightarrow> string" where
  "Record_Render r =
     (if Value r = [] then ''['' @ Kind r @ ''] '' @ Name r @ '' -> <no value>''
      else ''['' @ Kind r @ ''] '' @ Name r @ '' -> '' @ Value r)"

definition Record_Equal :: "Record \<Rightarrow> Record \<Rightarrow> bool" where
  "Record_Equal r q \<longleftrightarrow> Name r = Name q \<and> Kind r = Kind q \<and> Value r = Value q"

definition IsA :: "Record \<Rightarrow> bool" where "IsA r \<longleftrightarrow> Kind r = RecordA"
definition IsAAAA :: "Record \<Rightarrow> bool" where "IsAAAA r \<longleftrightarrow> Kind r = RecordAAAA"
definition IsCNAME :: "Record \<Rightarrow> bool" where "IsCNAME r \<longleftrightarrow> Kind r = RecordCNAME"
definition IsAddress :: "Record \<Rightarrow> bool" where
  "IsAddress r \<longleftrightarrow> Kind r = RecordA \<or> Kind r = RecordAAAA"

lemmas kind_pred_defs [kind_simps, go_eval] = IsA_def IsAAAA_def IsCNAME_def IsAddress_def

lemmas [go_eval] =
  NewA_def NewAAAA_def NewCNAME_def NewFromKind_def NewFromString_def ParseKind_def
  Record_Key_def Record_Render_def Record_Equal_def EventType_IsValid_def


subsection \<open>Record intents\<close>

record RecordIntent =
  ContainerId :: string
  ContainerName :: string
  Created :: Time
  Hostname :: string
  Force :: bool
  TTL :: "32 word"
  Rec :: Record

definition Intent_Equal :: "RecordIntent \<Rightarrow> RecordIntent \<Rightarrow> bool" where
  "Intent_Equal ri other \<longleftrightarrow>
     ContainerId ri = ContainerId other \<and>
     ContainerName ri = ContainerName other \<and>
     Hostname ri = Hostname other \<and>
     Force ri = Force other \<and>
     TTL ri = TTL other \<and>
     Record_Equal (Rec ri) (Rec other)"

definition Intent_Key :: "RecordIntent \<Rightarrow> string" where
  "Intent_Key ri =
     ContainerId ri @ ''|'' @ ContainerName ri @ ''|'' @ Hostname ri @ ''|'' @
     fmt_bool (Force ri) @ ''|'' @ Itoa (unat (TTL ri)) @ ''|'' @ Record_Key (Rec ri)"

lemmas [go_eval] = Intent_Equal_def Intent_Key_def Itoa.simps


subsection \<open>What the constructors guarantee\<close>

text \<open>
  The validity of a record, stated without the constructors: a hostname for a name, a known
  kind, and a value of the kind's form.
\<close>

definition record_ok :: "Record \<Rightarrow> bool" where
  "record_ok r \<longleftrightarrow>
     isValidHostname (Name r) \<and>
     (Kind r = RecordA \<and> is_ipv4 (Value r) \<or>
      Kind r = RecordAAAA \<and> is_ipv6 (Value r) \<or>
      Kind r = RecordCNAME \<and> isValidHostname (Value r))"

lemma Record_eqI: "Name r = Name q \<Longrightarrow> Kind r = Kind q \<Longrightarrow> Value r = Value q \<Longrightarrow> r = (q :: Record)"
  by simp

lemma Record_eta [simp]: "\<lparr>Name = Name r, Kind = Kind r, Value = Value r\<rparr> = (r :: Record)"
  by simp

lemma Record_conv:
  "r = \<lparr>Name = n, Kind = k, Value = v\<rparr> \<longleftrightarrow> Name r = n \<and> Kind r = k \<and> Value r = v"
  by auto

lemma Record_Equal_eq: "Record_Equal r q \<longleftrightarrow> r = q"
  by (auto simp: Record_Equal_def)

lemma NewFromKind_iff:
  "NewFromKind kind name value = Inr r \<longleftrightarrow>
     r = \<lparr>Name = name, Kind = kind, Value = value\<rparr> \<and> record_ok r"
  by (auto simp: NewFromKind_def NewA_def NewAAAA_def NewCNAME_def record_ok_def is_ipv4_def
      is_ipv6_def split: option.splits if_splits)


subsection \<open>What the keys identify\<close>

text \<open>
  The keys join fields by bars.  They tell two values apart when the fields before the last hold
  no bar, which the record constructors guarantee for names and kinds.
\<close>

definition plain :: "string \<Rightarrow> bool" where
  "plain s \<longleftrightarrow> CHR ''|'' \<notin> set s"

definition plain_intent :: "RecordIntent \<Rightarrow> bool" where
  "plain_intent ri \<longleftrightarrow>
     plain (ContainerId ri) \<and> plain (ContainerName ri) \<and> plain (Hostname ri) \<and> record_ok (Rec ri)"

lemma label_ok_plain: "label_ok l \<Longrightarrow> plain l"
  by (auto simp: plain_def label_ok_def alnum_dash_def alnum_def list_all_iff is_lower_def
      is_upper_def is_digit_def code_def)

lemma isValidHostname_plain:
  assumes "isValidHostname h"
  shows "plain h"
proof -
  have "set h \<subseteq> insert (CHR ''.'') (\<Union>l \<in> set (Split (CHR ''.'') h). set l)"
    using set_Join [of "CHR ''.''" "Split (CHR ''.'') h"] by simp
  moreover have "\<forall>l \<in> set (Split (CHR ''.'') h). CHR ''|'' \<notin> set l"
    using assms label_ok_plain by (auto simp: isValidHostname_labels list_all_iff plain_def)
  ultimately show ?thesis by (auto simp: plain_def)
qed

lemma record_ok_plain: "record_ok r \<Longrightarrow> plain (Name r) \<and> plain (Kind r)"
  using isValidHostname_plain [of "Name r"] by (auto simp: record_ok_def kind_defs plain_def)

lemma plain_sep: "plain p \<Longrightarrow> plain q \<Longrightarrow> p @ ''|'' @ s = q @ ''|'' @ t \<longleftrightarrow> p = q \<and> s = t"
  using append_sep_inj [of "CHR ''|''" p q s t] by (simp add: plain_def)

lemma Record_Key_inj: "record_ok r \<Longrightarrow> record_ok q \<Longrightarrow> Record_Key r = Record_Key q \<longleftrightarrow> r = q"
  using record_ok_plain [of r] record_ok_plain [of q]
  by (auto simp: Record_Key_def plain_sep [simplified])

lemma plain_fields [simp]: "plain (fmt_bool b)" "plain (Itoa n)"
  using Itoa_digits [of n] by (auto simp: plain_def fmt_bool_def list_all_iff is_digit_def code_def)

lemma fmt_bool_inj: "fmt_bool b = fmt_bool c \<longleftrightarrow> b = c"
  by (simp add: fmt_bool_def)

theorem Intent_Key_Equal:
  "plain_intent r \<Longrightarrow> plain_intent q \<Longrightarrow> Intent_Key r = Intent_Key q \<longleftrightarrow> Intent_Equal r q"
  unfolding Intent_Key_def plain_intent_def
  by (simp only: plain_sep plain_fields Record_Key_inj Itoa_inj fmt_bool_inj
      Intent_Equal_def Record_Equal_eq word_unat_eq_iff)

end
