(* ===== verification/Go_Time.thy ===== *)
theory Go_Time
  imports Domain
begin

text \<open>
  What the program uses of Go's \<^verbatim>\<open>time\<close> package to store instants: the RFC 3339 text of an
  instant (\<open>FormatRFC3339Nano\<close>, and \<open>TimeMarshalJSON\<close> with the checks of \<^verbatim>\<open>MarshalJSON\<close>) and the
  parser behind \<^verbatim>\<open>UnmarshalJSON\<close>, which is \<^verbatim>\<open>time.Parse\<close> with the layout RFC 3339 and accepts
  more than the standard: one-digit hours, a comma before the fraction, offsets up to 24:60.  The
  calendar is the proleptic Gregorian one.  The main result is that an instant of the years 0 to
  9999 reads back as it was written.
\<close>

subsection \<open>The calendar\<close>

definition leap :: "int \<Rightarrow> bool" where
  "leap y \<longleftrightarrow> y mod 4 = 0 \<and> (y mod 100 \<noteq> 0 \<or> y mod 400 = 0)"

definition month_lengths :: "int \<Rightarrow> int list" where
  "month_lengths y = [31, if leap y then 29 else 28, 31, 30, 31, 30, 31, 31, 30, 31, 30, 31]"

text \<open>The days from January 1 of the year 0 to January 1 of the year \<open>y\<close>.\<close>

definition days_before_year :: "int \<Rightarrow> int" where
  "days_before_year y = 365 * y + (y + 3) div 4 - (y + 99) div 100 + (y + 399) div 400"

definition year_of_day :: "int \<Rightarrow> int" where
  "year_of_day d =
     (let y = (400 * d) div 146097 in
      if d < days_before_year y then y - 1
      else if days_before_year (y + 1) \<le> d then y + 1 else y)"

fun split_month :: "int list \<Rightarrow> int \<Rightarrow> int \<times> int" where
  "split_month [] k = (1, k + 1)"
| "split_month (l # ls) k =
     (if k < l then (1, k + 1) else let (m, d) = split_month ls (k - l) in (m + 1, d))"

text \<open>The year, month and day of a day number, and back.\<close>

definition civil_of_day :: "int \<Rightarrow> int \<times> int \<times> int" where
  "civil_of_day d =
     (let y = year_of_day d; (m, day) = split_month (month_lengths y) (d - days_before_year y)
      in (y, m, day))"

definition day_of_civil :: "int \<Rightarrow> int \<Rightarrow> int \<Rightarrow> int" where
  "day_of_civil y m d =
     days_before_year y + sum_list (take (nat (m - 1)) (month_lengths y)) + d - 1"

definition epoch_day :: int where
  "epoch_day = 719528"

lemma floor_bounds:
  fixes a n :: int
  assumes "n > 0"
  shows "n * (a div n) \<le> a" and "a < n * (a div n) + n"
proof -
  have "n * (a div n) = a - a mod n" by (simp add: minus_mod_eq_mult_div)
  then show "n * (a div n) \<le> a" and "a < n * (a div n) + n"
    using pos_mod_bound [OF assms, of a] pos_mod_sign [OF assms, of a] by auto
qed

lemma ceil_div:
  fixes y n :: int
  assumes "n > 0" and "m = n - 1"
  shows "(y + n) div n = (y + m) div n + (if y mod n = 0 then 1 else 0)"
proof (cases "y mod n = 0")
  case True
  then have "y + m = n * (y div n) + m" using mult_div_mod_eq [of n y] by simp
  then have "(y + m) div n = y div n"
    by (rule int_div_pos_eq) (use assms in auto)
  with True assms show ?thesis by simp
next
  case False
  then have "y + m = n * (y div n + 1) + (y mod n - 1)"
    using mult_div_mod_eq [of n y] assms(2) by (simp add: distrib_left)
  then have "(y + m) div n = y div n + 1"
    by (rule int_div_pos_eq)
      (use False assms pos_mod_bound [OF assms(1), of y] pos_mod_sign [OF assms(1), of y] in auto)
  with False assms show ?thesis by simp
qed

lemma leap_arith:
  fixes a b c y :: int
  assumes "q \<Longrightarrow> p" and "r \<Longrightarrow> q"
  shows "365 * y + 365 + (a + (if p then 1 else 0)) - (b + (if q then 1 else 0)) +
      (c + (if r then 1 else 0)) =
    365 * y + a - b + c + (if p \<and> (\<not> q \<or> r) then 366 else 365)"
  by (cases p; cases q; cases r) (use assms in simp_all)

lemma days_of_year:
  "days_before_year (y + 1) = days_before_year y + (if leap y then 366 else 365)"
proof -
  have next': "days_before_year (y + 1) =
      365 * y + 365 + (y + 4) div 4 - (y + 100) div 100 + (y + 400) div 400"
    unfolding days_before_year_def by (simp only: add.assoc distrib_left) simp
  have steps: "(y + 4) div 4 = (y + 3) div 4 + (if y mod 4 = 0 then 1 else 0)"
    "(y + 100) div 100 = (y + 99) div 100 + (if y mod 100 = 0 then 1 else 0)"
    "(y + 400) div 400 = (y + 399) div 400 + (if y mod 400 = 0 then 1 else 0)"
    by (rule ceil_div; simp)+
  have "y mod 400 = 0 \<Longrightarrow> y mod 100 = 0" "y mod 100 = 0 \<Longrightarrow> y mod 4 = 0"
    using dvd_trans [of 100 400 y] dvd_trans [of 4 100 y] by (auto simp: mod_eq_0_iff_dvd)
  then show ?thesis
    unfolding next' steps leap_def days_before_year_def [of y] by (intro leap_arith)
qed

lemma days_mono:
  assumes "x < y"
  shows "days_before_year x < days_before_year y"
  using assms
proof (induction "nat (y - x - 1)" arbitrary: y)
  case 0
  then have "y = x + 1" by simp
  then show ?case by (simp add: days_of_year)
next
  case (Suc n)
  then have "days_before_year x < days_before_year (y - 1)" by (intro Suc.hyps(1)) auto
  with days_of_year [of "y - 1"] show ?case by (auto split: if_splits)
qed

lemma days_estimate:
  "146097 * y - 400 \<le> 400 * days_before_year y" "400 * days_before_year y \<le> 146097 * y + 800"
proof -
  have "400 * days_before_year y =
      146000 * y + 100 * (4 * ((y + 3) div 4)) - 4 * (100 * ((y + 99) div 100)) +
      400 * ((y + 399) div 400)"
    by (simp add: days_before_year_def)
  with floor_bounds [of 4 "y + 3"] floor_bounds [of 100 "y + 99"] floor_bounds [of 400 "y + 399"]
  show "146097 * y - 400 \<le> 400 * days_before_year y"
    and "400 * days_before_year y \<le> 146097 * y + 800"
    by auto
qed

lemma days_near:
  assumes "146097 * y \<le> 400 * d" and "400 * d < 146097 * y + 146097"
  shows "days_before_year (y - 1) \<le> d" and "d < days_before_year (y + 2)"
  using assms days_estimate(2) [of "y - 1"] days_estimate(1) [of "y + 2"] by auto

lemma year_of_day_bounds:
  "days_before_year (year_of_day d) \<le> d \<and> d < days_before_year (year_of_day d + 1)"
proof -
  define y where "y = (400 * d) div 146097"
  have "146097 * y \<le> 400 * d" "400 * d < 146097 * y + 146097" 
    unfolding y_def by (rule floor_bounds, simp)+
  from days_near [OF this] show ?thesis
    by (simp add: year_of_day_def Let_def add.commute [of 2 y] flip: y_def)
qed

lemma year_of_day_unique:
  assumes "days_before_year y \<le> d" and "d < days_before_year (y + 1)"
  shows "year_of_day d = y"
proof (rule ccontr)
  assume "year_of_day d \<noteq> y"
  then consider "year_of_day d + 1 \<le> y" | "y + 1 \<le> year_of_day d" by linarith
  then show False
    using year_of_day_bounds [of d] assms days_mono [of "year_of_day d + 1" y]
      days_mono [of "y + 1" "year_of_day d"]
    by cases (force simp: order_le_less)+
qed

lemma split_month_sound:
  assumes "0 \<le> k" and "k < sum_list ls" and "split_month ls k = (m, d)"
  shows "1 \<le> m \<and> m \<le> int (length ls) \<and> 1 \<le> d \<and> d \<le> ls ! nat (m - 1) \<and>
    sum_list (take (nat (m - 1)) ls) + d - 1 = k"
  using assms
proof (induction ls k arbitrary: m rule: split_month.induct)
  case (2 l ls k)
  show ?case
  proof (cases "k < l")
    case False
    obtain m' where m': "split_month ls (k - l) = (m', d)" and m: "m = m' + 1"
      using 2(4) False by (auto split: prod.splits)
    have IH: "1 \<le> m' \<and> m' \<le> int (length ls) \<and> 1 \<le> d \<and> d \<le> ls ! nat (m' - 1) \<and>
        sum_list (take (nat (m' - 1)) ls) + d - 1 = k - l"
      using 2(1) [OF False _ _ m'] 2(2,3) False by simp
    have "nat m' = Suc (nat (m' - 1))" using IH by linarith
    with IH m show ?thesis by simp
  qed (use 2(2,4) in auto)
qed simp

lemma sum_month_lengths: "sum_list (month_lengths y) = (if leap y then 366 else 365)"
  by (simp add: month_lengths_def)

theorem civil_roundtrip:
  assumes "civil_of_day d = (y, m, day)"
  shows "day_of_civil y m day = d" and "1 \<le> m" and "m \<le> 12" and "1 \<le> day"
    and "day \<le> month_lengths y ! nat (m - 1)" and "y = year_of_day d"
proof -
  have y: "y = year_of_day d" and split: "split_month (month_lengths y) (d - days_before_year y) = (m, day)"
    using assms by (auto simp: civil_of_day_def Let_def split: prod.splits)
  have "0 \<le> d - days_before_year y" "d - days_before_year y < sum_list (month_lengths y)"
    using year_of_day_bounds [of d] days_of_year [of y] by (simp_all add: y sum_month_lengths)
  from split_month_sound [OF this split] y
  show "day_of_civil y m day = d" and "1 \<le> m" and "m \<le> 12" and "1 \<le> day"
    and "day \<le> month_lengths y ! nat (m - 1)" and "y = year_of_day d"
    by (simp_all add: day_of_civil_def, simp add: month_lengths_def)
qed


subsection \<open>The text of an instant\<close>

text \<open>The last \<open>w\<close> decimal digits of a number.\<close>

fun pad :: "nat \<Rightarrow> nat \<Rightarrow> string" where
  "pad 0 n = []"
| "pad (Suc w) n = pad w (n div 10) @ [digit_char (n mod 10)]"

lemma length_pad [simp]: "length (pad w n) = w"
  by (induction w arbitrary: n) auto

lemma is_digit_char: "d < 10 \<Longrightarrow> is_digit (digit_char d)"
  by (simp add: is_digit_def code_digit_char)

lemma pad_digits: "list_all is_digit (pad w n)"
  by (induction w arbitrary: n) (auto simp: is_digit_char)

lemma decimal_pad: "decimal (pad w n) = n mod 10 ^ w"
proof (induction w arbitrary: n)
  case (Suc w)
  have "n mod 10 ^ Suc w = 10 * (n div 10 mod 10 ^ w) + n mod 10"
    by (simp add: mod_mult2_eq)
  with Suc show ?case by (simp add: decimal_snoc digit_value_def code_digit_char)
qed (simp add: decimal_def)

definition fmtYear :: "int \<Rightarrow> string" where
  "fmtYear y =
     (if y < 0 then CHR ''-'' # (if - y < 10000 then pad 4 (nat (- y)) else Itoa (nat (- y)))
      else if y < 10000 then pad 4 (nat y) else Itoa (nat y))"

definition trim_zeros :: "string \<Rightarrow> string" where
  "trim_zeros ds = rev (dropWhile (\<lambda>c. c = CHR ''0'') (rev ds))"

definition fmtFraction :: "int \<Rightarrow> string" where
  "fmtFraction ns =
     (if ns = 0 then [] else CHR ''.'' # trim_zeros (pad 9 (nat ns)))"

text \<open>The offset in seconds east of UTC, cut to minutes.\<close>

definition fmtZone :: "int \<Rightarrow> string" where
  "fmtZone offset =
     (if offset = 0 then ''Z''
      else
        let zone = (if offset < 0 then - ((- offset) div 60) else offset div 60);
            z = nat (abs zone)
        in (if zone < 0 then CHR ''-'' else CHR ''+'') # pad 2 (z div 60) @ '':'' @ pad 2 (z mod 60))"

text \<open>\<^verbatim>\<open>t.Format(time.RFC3339Nano)\<close> in a zone with the given offset.\<close>

definition FormatRFC3339Nano :: "int \<Rightarrow> Time \<Rightarrow> string" where
  "FormatRFC3339Nano offset t =
     (let sec = t div 1000000000 + offset;
          (y, m, d) = civil_of_day (sec div 86400 + epoch_day);
          s = sec mod 86400
      in fmtYear y @ ''-'' @ pad 2 (nat m) @ ''-'' @ pad 2 (nat d) @ ''T'' @
         pad 2 (nat (s div 3600)) @ '':'' @ pad 2 (nat (s div 60 mod 60)) @ '':'' @
         pad 2 (nat (s mod 60)) @ fmtFraction (t mod 1000000000) @ fmtZone offset)"

definition time_year :: "int \<Rightarrow> Time \<Rightarrow> int" where
  "time_year offset t = year_of_day ((t div 1000000000 + offset) div 86400 + epoch_day)"

text \<open>The checks of \<^verbatim>\<open>Time.MarshalJSON\<close>; the result has the quotes.\<close>

definition TimeMarshalJSON :: "int \<Rightarrow> Time \<Rightarrow> string option" where
  "TimeMarshalJSON offset t =
     (if time_year offset t < 0 \<or> time_year offset t > 9999 then None
      else if abs offset div 3600 > 23 then None
      else Some (CHR 0x22 # FormatRFC3339Nano offset t @ [CHR 0x22]))"


subsection \<open>The parser\<close>

definition getnum :: "bool \<Rightarrow> string \<Rightarrow> (int \<times> string) option" where
  "getnum fixed s =
     (case s of
        [] \<Rightarrow> None
      | c # r \<Rightarrow>
          if \<not> is_digit c then None
          else (case r of
              c2 # r2 \<Rightarrow>
                if is_digit c2 then Some (int (digit_value c * 10 + digit_value c2), r2)
                else if fixed then None else Some (int (digit_value c), r)
            | [] \<Rightarrow> if fixed then None else Some (int (digit_value c), r)))"

definition literal :: "char \<Rightarrow> string \<Rightarrow> string option" where
  "literal c s = (case s of x # r \<Rightarrow> if x = c then Some r else None | [] \<Rightarrow> None)"

definition longYear :: "string \<Rightarrow> (int \<times> string) option" where
  "longYear s =
     (if length s \<ge> 4 \<and> list_all is_digit (take 4 s)
      then Some (int (decimal (take 4 s)), drop 4 s) else None)"

text \<open>A fraction after the seconds: nanoseconds, from the first nine digits.\<close>

definition fraction :: "string \<Rightarrow> int \<times> string" where
  "fraction s =
     (case s of
        c # d # r \<Rightarrow>
          if (c = CHR ''.'' \<or> c = CHR '','') \<and> is_digit d then
            let ds = takeWhile is_digit (d # r)
            in (int (decimal (take 9 ds) * 10 ^ (9 - length (take 9 ds))), dropWhile is_digit (d # r))
          else (0, s)
      | _ \<Rightarrow> (0, s))"

definition tzOffset :: "string \<Rightarrow> (int \<times> string) option" where
  "tzOffset s =
     (case s of
        [] \<Rightarrow> None
      | c # r \<Rightarrow>
          if c = CHR ''Z'' then Some (0, r)
          else if length s < 6 \<or> s ! 3 \<noteq> CHR '':'' then None
          else (case (getnum True (take 2 (drop 1 s)), getnum True (take 2 (drop 4 s))) of
              (Some (hr, _), Some (mm, _)) \<Rightarrow>
                if hr > 24 \<or> mm > 60 then None
                else if c = CHR ''+'' then Some ((hr * 60 + mm) * 60, drop 6 s)
                else if c = CHR ''-'' then Some (- ((hr * 60 + mm) * 60), drop 6 s)
                else None
            | _ \<Rightarrow> None))"

definition num_in :: "int \<Rightarrow> int \<Rightarrow> (int \<times> string) option \<Rightarrow> (int \<times> string) option" where
  "num_in lo hi r =
     (case r of Some (n, s) \<Rightarrow> if lo \<le> n \<and> n \<le> hi then Some (n, s) else None | None \<Rightarrow> None)"

text \<open>\<^verbatim>\<open>time.Parse(time.RFC3339, s)\<close>: the instant.\<close>

definition ParseRFC3339 :: "string \<Rightarrow> Time option" where
  "ParseRFC3339 s =
     Option.bind (longYear s) (\<lambda>(y, s).
     Option.bind (literal (CHR ''-'') s) (\<lambda>s.
     Option.bind (num_in 1 12 (getnum True s)) (\<lambda>(m, s).
     Option.bind (literal (CHR ''-'') s) (\<lambda>s.
     Option.bind (getnum True s) (\<lambda>(d, s).
     Option.bind (literal (CHR ''T'') s) (\<lambda>s.
     Option.bind (num_in 0 23 (getnum False s)) (\<lambda>(hh, s).
     Option.bind (literal (CHR '':'') s) (\<lambda>s.
     Option.bind (num_in 0 59 (getnum True s)) (\<lambda>(mi, s).
     Option.bind (literal (CHR '':'') s) (\<lambda>s.
     Option.bind (num_in 0 59 (getnum True s)) (\<lambda>(sec, s).
     let (ns, s) = fraction s in
     Option.bind (tzOffset s) (\<lambda>(offset, s).
     if s \<noteq> [] \<or> d < 1 \<or> d > month_lengths y ! nat (m - 1) then None
     else Some (((day_of_civil y m d - epoch_day) * 86400 + hh * 3600 + mi * 60 + sec - offset) *
            1000000000 + ns)))))))))))))"

text \<open>\<^verbatim>\<open>Time.UnmarshalJSON\<close> on the bytes of a JSON value; null leaves the time as it is.\<close>

definition TimeUnmarshalJSON :: "string \<Rightarrow> Time \<Rightarrow> Time option" where
  "TimeUnmarshalJSON raw old =
     (if raw = ''null'' then Some old
      else if length raw < 2 \<or> hd raw \<noteq> CHR 0x22 \<or> last raw \<noteq> CHR 0x22 then None
      else ParseRFC3339 (butlast (tl raw)))"

lemmas [go_eval] =
  leap_def month_lengths_def days_before_year_def year_of_day_def civil_of_day_def day_of_civil_def
  epoch_day_def fmtYear_def trim_zeros_def fmtFraction_def fmtZone_def FormatRFC3339Nano_def time_year_def
  TimeMarshalJSON_def getnum_def literal_def longYear_def fraction_def tzOffset_def num_in_def
  ParseRFC3339_def TimeUnmarshalJSON_def


subsection \<open>Round trip\<close>

lemma literal_Cons [simp]: "literal c (c # s) = Some s"
  by (simp add: literal_def)

lemma pad2: "pad 2 n = [digit_char (n div 10 mod 10), digit_char (n mod 10)]"
  by (simp add: numeral_2_eq_2)

lemma getnum_pad: "n < 100 \<Longrightarrow> getnum fixed (pad 2 n @ s) = Some (int n, s)"
  by (simp add: getnum_def pad2 is_digit_char digit_value_def code_digit_char)

lemma getnum_pad_exact: "n < 100 \<Longrightarrow> getnum fixed (pad 2 n) = Some (int n, [])"
  using getnum_pad [of n fixed "[]"] by simp

lemma longYear_pad: "n < 10000 \<Longrightarrow> longYear (pad 4 n @ s) = Some (int n, s)"
  by (simp add: longYear_def pad_digits decimal_pad)

lemma trim_zeros: "\<exists>k. ds = trim_zeros ds @ replicate k (CHR ''0'')"
proof (induction ds rule: rev_induct)
  case (snoc c ds)
  show ?case
  proof (cases "c = CHR ''0''")
    case True
    obtain k where "ds = trim_zeros ds @ replicate k (CHR ''0'')" using snoc by blast
    then have "ds @ [c] = trim_zeros ds @ replicate (Suc k) (CHR ''0'')"
      using True by (metis append_assoc replicate_append_same replicate_Suc)
    moreover have "trim_zeros (ds @ [c]) = trim_zeros ds" using True by (simp add: trim_zeros_def)
    ultimately show ?thesis by metis
  next
    case False
    then have "trim_zeros (ds @ [c]) = ds @ [c]" by (simp add: trim_zeros_def)
    then show ?thesis by (intro exI [of _ 0]) simp
  qed
qed (simp add: trim_zeros_def)

lemma decimal_zeros: "decimal (s @ replicate k (CHR ''0'')) = decimal s * 10 ^ k"
proof (induction k)
  case (Suc k)
  have "decimal (s @ replicate (Suc k) (CHR ''0'')) = decimal ((s @ replicate k (CHR ''0'')) @ [CHR ''0''])"
    by (simp add: replicate_append_same)
  also have "\<dots> = 10 * decimal (s @ replicate k (CHR ''0''))"
    unfolding decimal_snoc by (simp add: digit_value_def code_def)
  finally show ?case using Suc by simp
qed simp

lemma fraction_fmt:
  assumes "0 \<le> ns" and "ns < 1000000000" and "rest \<noteq> []" and "\<not> is_digit (hd rest)"
    and "hd rest \<noteq> CHR ''.''" and "hd rest \<noteq> CHR '',''"
  shows "fraction (fmtFraction ns @ rest) = (ns, rest)"
proof (cases "ns = 0")
  case True
  then show ?thesis using assms(3-) by (auto simp: fmtFraction_def fraction_def split: list.splits)
next
  case False
  obtain ds k where ds: "trim_zeros (pad 9 (nat ns)) = ds"
    and k: "pad 9 (nat ns) = ds @ replicate k (CHR ''0'')" using trim_zeros by blast
  have len: "length ds + k = 9" using arg_cong [OF k, of length] by simp
  have dig: "list_all is_digit ds" using pad_digits [of 9 "nat ns"] unfolding k by simp
  have dec: "decimal ds * 10 ^ k = nat ns"
    using decimal_zeros [of ds k] decimal_pad [of 9 "nat ns"] assms(1,2) by (simp flip: k)
  have "ds \<noteq> []" using dec False assms(1) by (auto simp: decimal_def)
  then obtain d r where dr: "ds = d # r" by (meson neq_Nil_conv)
  have "takeWhile is_digit rest = []" "dropWhile is_digit rest = rest"
    using assms(3,4) by (cases rest; simp)+
  then have tw: "takeWhile is_digit (ds @ rest) = ds" "dropWhile is_digit (ds @ rest) = rest"
    using dig by (simp_all add: list_all_iff takeWhile_append2 dropWhile_append2)
  have fmt: "fmtFraction ns @ rest = CHR ''.'' # d # r @ rest"
    using False by (simp add: fmtFraction_def ds dr)
  have "is_digit d" using dig by (simp add: dr)
  then have "fraction (CHR ''.'' # d # r @ rest) =
      (int (decimal (take 9 ds) * 10 ^ (9 - length (take 9 ds))), rest)"
    using tw by (simp add: fraction_def Let_def dr)
  also have "take 9 ds = ds" using len by simp
  also have "9 - length ds = k" using len by simp
  also have "int (decimal ds * 10 ^ k) = ns" unfolding dec using assms(1) by simp
  finally show ?thesis unfolding fmt .
qed

lemma tzOffset_fmt:
  assumes "offset mod 60 = 0" and "abs offset < 86400"
  shows "tzOffset (fmtZone offset) = Some (offset, [])"
proof (cases "offset = 0")
  case True
  then show ?thesis by (simp add: fmtZone_def tzOffset_def)
next
  case False
  define z where "z = nat (abs offset div 60)"
  have z: "int z * 60 = abs offset"
  proof -
    have "60 dvd abs offset" using assms(1) by (simp add: mod_eq_0_iff_dvd)
    then have "abs offset div 60 * 60 = abs offset" by (rule dvd_div_mult_self)
    then show ?thesis by (simp add: z_def pos_imp_zdiv_nonneg_iff)
  qed
  then have bounds: "z div 60 < 24" "z mod 60 < 60" using assms(2) by (simp_all add: less_mult_imp_div_less)
  have zone: "(if offset < 0 then - ((- offset) div 60) else offset div 60) =
      (if offset < 0 then - int z else int z)"
    using z by (auto simp: z_def)
  have fmt: "fmtZone offset =
      (if offset < 0 then CHR ''-'' else CHR ''+'') # pad 2 (z div 60) @ '':'' @ pad 2 (z mod 60)"
    using False z unfolding fmtZone_def zone by (auto simp: Let_def)
  have [simp]: "take 2 (pad 2 m) = pad 2 m" for m by simp
  have hr: "getnum True (take 2 (drop 1 (fmtZone offset))) = Some (int (z div 60), [])"
    and mm: "getnum True (take 2 (drop 4 (fmtZone offset))) = Some (int (z mod 60), [])"
    unfolding fmt using bounds getnum_pad_exact [of "z div 60" True] getnum_pad_exact [of "z mod 60" True]
    by simp_all
  have "(int (z div 60) * 60 + int (z mod 60)) * 60 = abs offset"
    using z by (metis div_mult_mod_eq of_nat_add of_nat_mult of_nat_numeral)
  then show ?thesis
    using bounds hr mm by (auto simp: tzOffset_def fmt pad2 nth_append)
qed

lemma fmtZone_hd: "fmtZone offset \<noteq> [] \<and> \<not> is_digit (hd (fmtZone offset)) \<and>
  hd (fmtZone offset) \<noteq> CHR ''.'' \<and> hd (fmtZone offset) \<noteq> CHR '',''"
  by (auto simp: fmtZone_def Let_def is_digit_def code_def)

lemma time_of_day:
  fixes s :: int
  shows "s div 3600 * 3600 + s div 60 mod 60 * 60 + s mod 60 = s"
proof -
  have "h * 3600 + b * 60 + d = s" if "h = a" and "a * 60 + b = c" and "c * 60 + d = s"
    for a b c d h :: int
    using that by simp
  moreover have "s div 3600 = s div 60 div 60"
    using zdiv_zmult2_eq [of 60 s 60] by simp
  moreover have "s div 60 div 60 * 60 + s div 60 mod 60 = s div 60" "s div 60 * 60 + s mod 60 = s"
    by (rule div_mult_mod_eq)+
  ultimately show ?thesis by blast
qed

lemma nat_two_digits: "x \<le> 99 \<Longrightarrow> nat x < 100"
  by simp

lemma ParseRFC3339_fields:
  assumes "0 \<le> y" "y < 10000" "1 \<le> m" "m \<le> 12" "1 \<le> d" "d \<le> month_lengths y ! nat (m - 1)"
    and "0 \<le> hh" "hh \<le> 23" "0 \<le> mi" "mi \<le> 59" "0 \<le> sec" "sec \<le> 59"
    and "0 \<le> ns" "ns < 1000000000" and "offset mod 60 = 0" "abs offset < 86400"
  shows "ParseRFC3339 (pad 4 (nat y) @ CHR ''-'' # pad 2 (nat m) @
      CHR ''-'' # pad 2 (nat d) @ CHR ''T'' # pad 2 (nat hh) @ CHR '':'' #
      pad 2 (nat mi) @ CHR '':'' # pad 2 (nat sec) @ fmtFraction ns @ fmtZone offset) =
    Some (((day_of_civil y m d - epoch_day) * 86400 + hh * 3600 + mi * 60 + sec - offset) *
      1000000000 + ns)"
proof -
  have "month_lengths y ! nat (m - 1) \<in> set (month_lengths y)"
    using assms(3,4) by (intro nth_mem) (simp add: month_lengths_def)
  then have "d \<le> 31" using assms(6) by (auto simp: month_lengths_def split: if_splits)
  then have day: "getnum True (pad 2 (nat d) @ r) = Some (d, r)" for r
    using getnum_pad [of "nat d" True r] assms(5) by simp
  have num: "num_in lo hi (getnum f (pad 2 (nat n) @ r)) = Some (n, r)"
    if "0 \<le> n" and "n \<le> 99" and "lo \<le> n" and "n \<le> hi" for lo hi n f r
    using that getnum_pad [of "nat n" f r] by (simp add: num_in_def)
  have year: "longYear (pad 4 (nat y) @ r) = Some (y, r)" for r
    using longYear_pad [of "nat y" r] assms(1,2) by simp
  have zone: "fraction (fmtFraction ns @ fmtZone offset) = (ns, fmtZone offset)"
    using fraction_fmt [OF assms(13,14)] fmtZone_hd [of offset] by simp
  have nums: "num_in 1 12 (getnum True (pad 2 (nat m) @ r)) = Some (m, r)"
    "num_in 0 23 (getnum False (pad 2 (nat hh) @ r)) = Some (hh, r)"
    "num_in 0 59 (getnum True (pad 2 (nat mi) @ r)) = Some (mi, r)"
    "num_in 0 59 (getnum True (pad 2 (nat sec) @ r)) = Some (sec, r)" for r
    using assms by (simp_all add: num)
  have ok: "\<not> d < 1" "\<not> month_lengths y ! nat (m - 1) < d" using assms(5,6) by simp_all
  show ?thesis
    unfolding ParseRFC3339_def
    by (simp only: year nums day zone literal_Cons bind.bind_lunit prod.case Let_def
        tzOffset_fmt [OF assms(15,16)] ok simp_thms if_False)
qed

theorem ParseRFC3339_Format:
  assumes "0 \<le> time_year offset t" and "time_year offset t \<le> 9999"
    and "offset mod 60 = 0" and "abs offset < 86400"
  shows "ParseRFC3339 (FormatRFC3339Nano offset t) = Some t"
proof -
  define sec where "sec = t div 1000000000 + offset"
  define s where "s = sec mod 86400"
  define ns where "ns = t mod 1000000000"
  obtain y m d where c: "civil_of_day (sec div 86400 + epoch_day) = (y, m, d)"
    using prod_cases3 by blast
  note civil = civil_roundtrip [OF c]
  have y: "0 \<le> y" "y < 10000" using assms(1,2) civil(6) by (simp_all add: time_year_def sec_def)
  obtain hh mi se where hms: "hh = s div 3600" "mi = s div 60 mod 60" "se = s mod 60" by blast
  have s: "0 \<le> s" "s < 86400" unfolding s_def by simp_all
  have hh: "0 \<le> hh" "hh \<le> 23" using s unfolding hms by (simp_all add: pos_imp_zdiv_nonneg_iff)
  have mi: "0 \<le> mi" "mi \<le> 59" "0 \<le> se" "se \<le> 59"
    using pos_mod_bound [of 60 "s div 60"] pos_mod_bound [of 60 s] unfolding hms by simp_all
  have ns: "0 \<le> ns" "ns < 1000000000" unfolding ns_def by simp_all
  have format: "FormatRFC3339Nano offset t = pad 4 (nat y) @ CHR ''-'' # pad 2 (nat m) @
      CHR ''-'' # pad 2 (nat d) @ CHR ''T'' # pad 2 (nat hh) @ CHR '':'' #
      pad 2 (nat mi) @ CHR '':'' # pad 2 (nat se) @ fmtFraction ns @ fmtZone offset"
    unfolding FormatRFC3339Nano_def Let_def sec_def [symmetric] s_def [symmetric] ns_def [symmetric]
      c prod.case hms
    using y by (simp add: fmtYear_def)
  have day: "day_of_civil y m d - epoch_day = sec div 86400" using civil(1) by simp
  have "hh * 3600 + mi * 60 + se = s" unfolding hms by (rule time_of_day)
  moreover have "sec div 86400 * 86400 + s = sec" unfolding s_def by (rule div_mult_mod_eq)
  moreover have "(sec - offset) * 1000000000 + ns = t"
    unfolding sec_def ns_def using div_mult_mod_eq [of t 1000000000] by simp
  ultimately have "(sec div 86400 * 86400 + hh * 3600 + mi * 60 + se - offset) * 1000000000 + ns = t"
    by (metis add.assoc)
  then show ?thesis
    unfolding format
    using ParseRFC3339_fields [OF y civil(2-5) hh mi ns assms(3,4)] by (simp only: day)
qed

theorem TimeJSON_roundtrip:
  assumes "offset mod 60 = 0" and "TimeMarshalJSON offset t = Some raw"
  shows "TimeUnmarshalJSON raw old = Some t"
proof -
  have y: "0 \<le> time_year offset t" "time_year offset t \<le> 9999" "abs offset div 3600 \<le> 23"
    and raw: "raw = CHR 0x22 # FormatRFC3339Nano offset t @ [CHR 0x22]"
    using assms(2) by (auto simp: TimeMarshalJSON_def split: if_splits)
  then have "abs offset < 86400" by linarith
  with ParseRFC3339_Format [OF y(1,2) assms(1)] show ?thesis
    by (simp add: TimeUnmarshalJSON_def raw)
qed

end
