(* ===== verification/Go_Json.thy ===== *)
theory Go_Json
  imports GoStrings
begin

text \<open>
  What the program uses of Go's \<^verbatim>\<open>encoding/json\<close>: the encoding of a string (with HTML escaping,
  as \<^verbatim>\<open>Marshal\<close> does), and the decoder's view of a text: the scanner's grammar, the unquoting of
  strings and the folding of key names.  A \<open>json\<close> value keeps the raw text of its numbers and of
  the inside of its strings.

  The parser takes fuel; two units per byte are enough, because at most two calls are made before
  a byte is consumed (\<open>parse_fuel\<close>: more fuel changes nothing).
\<close>

subsection \<open>UTF-8\<close>

definition cont :: "char \<Rightarrow> bool" where
  "cont c \<longleftrightarrow> 128 \<le> code c \<and> code c \<le> 191"

definition between :: "nat \<Rightarrow> nat \<Rightarrow> char \<Rightarrow> bool" where
  "between lo hi c \<longleftrightarrow> lo \<le> code c \<and> code c \<le> hi"

text \<open>\<^verbatim>\<open>utf8.DecodeRune\<close>: the code point and its length; an invalid byte is U+FFFD of length 1.\<close>

definition decode_rune :: "string \<Rightarrow> nat \<times> nat" where
  "decode_rune s =
     (case s of
        [] \<Rightarrow> (0xFFFD, 0)
      | a # r \<Rightarrow>
          if code a < 128 then (code a, 1)
          else if between 0xC2 0xDF a \<and> length r \<ge> 1 \<and> cont (r ! 0) then
            ((code a - 0xC0) * 64 + (code (r ! 0) - 128), 2)
          else if between 0xE0 0xEF a \<and> length r \<ge> 2 \<and> cont (r ! 0) \<and> cont (r ! 1) \<and>
              (code a = 0xE0 \<longrightarrow> code (r ! 0) \<ge> 0xA0) \<and> (code a = 0xED \<longrightarrow> code (r ! 0) \<le> 0x9F) then
            ((code a - 0xE0) * 4096 + (code (r ! 0) - 128) * 64 + (code (r ! 1) - 128), 3)
          else if between 0xF0 0xF4 a \<and> length r \<ge> 3 \<and> cont (r ! 0) \<and> cont (r ! 1) \<and> cont (r ! 2) \<and>
              (code a = 0xF0 \<longrightarrow> code (r ! 0) \<ge> 0x90) \<and> (code a = 0xF4 \<longrightarrow> code (r ! 0) \<le> 0x8F) then
            ((code a - 0xF0) * 262144 + (code (r ! 0) - 128) * 4096 + (code (r ! 1) - 128) * 64 +
               (code (r ! 2) - 128), 4)
          else (0xFFFD, 1))"

text \<open>\<^verbatim>\<open>utf8.EncodeRune\<close>.\<close>

definition encode_rune :: "nat \<Rightarrow> string" where
  "encode_rune r =
     (if r < 128 then [char_of r]
      else if r < 2048 then [char_of (0xC0 + r div 64), char_of (128 + r mod 64)]
      else if r > 0x10FFFF \<or> 0xD800 \<le> r \<and> r < 0xE000 then
        [char_of (0xEF :: nat), char_of (0xBF :: nat), char_of (0xBD :: nat)]
      else if r < 65536 then
        [char_of (0xE0 + r div 4096), char_of (128 + r div 64 mod 64), char_of (128 + r mod 64)]
      else
        [char_of (0xF0 + r div 262144), char_of (128 + r div 4096 mod 64),
         char_of (128 + r div 64 mod 64), char_of (128 + r mod 64)])"


subsection \<open>Encoding a string\<close>

definition hex_digit :: "nat \<Rightarrow> char" where
  "hex_digit d = (if d < 10 then char_of (48 + d) else char_of (87 + d))"

definition backslash :: char where "backslash = CHR 0x5C"
definition quote :: char where "quote = CHR 0x22"

text \<open>The bytes below 128 that are copied: \<^verbatim>\<open>htmlSafeSet\<close>.\<close>

definition html_safe :: "char \<Rightarrow> bool" where
  "html_safe c \<longleftrightarrow> code c \<ge> 32 \<and> code c < 128 \<and> c \<noteq> quote \<and> c \<noteq> backslash \<and>
     c \<noteq> CHR ''<'' \<and> c \<noteq> CHR ''>'' \<and> c \<noteq> CHR ''&''"

definition escape :: "char \<Rightarrow> string" where
  "escape c =
     (if html_safe c then [c]
      else if c = quote \<or> c = backslash then [backslash, c]
      else if code c = 8 then [backslash, CHR ''b'']
      else if code c = 12 then [backslash, CHR ''f'']
      else if code c = 10 then [backslash, CHR ''n'']
      else if code c = 13 then [backslash, CHR ''r'']
      else if code c = 9 then [backslash, CHR ''t'']
      else [backslash, CHR ''u'', CHR ''0'', CHR ''0'', hex_digit (code c div 16),
            hex_digit (code c mod 16)])"

function encodeString :: "string \<Rightarrow> string" where
  "encodeString s =
     (case s of
        [] \<Rightarrow> []
      | c # r \<Rightarrow>
          if code c < 128 then escape c @ encodeString r
          else
            let (u, n) = decode_rune s in
            if n = 1 then backslash # ''ufffd'' @ encodeString r
            else if u = 0x2028 then backslash # ''u2028'' @ encodeString (drop (n - 1) r)
            else if u = 0x2029 then backslash # ''u2029'' @ encodeString (drop (n - 1) r)
            else take n s @ encodeString (drop (n - 1) r))"
  by pat_completeness auto
termination by (relation "measure length") auto

declare encodeString.simps [simp del]

lemma encodeString_simps [simp]:
  "encodeString [] = []"
  "code c < 128 \<Longrightarrow> encodeString (c # r) = escape c @ encodeString r"
  by (simp_all add: encodeString.simps)

definition marshalString :: "string \<Rightarrow> string" where
  "marshalString s = quote # encodeString s @ [quote]"


subsection \<open>The scanner\<close>

datatype json = JNull | JBool bool | JNum string | JStr string | JArr "json list"
  | JObj "(string \<times> json) list"

definition json_space :: "char \<Rightarrow> bool" where
  "json_space c \<longleftrightarrow> code c = 32 \<or> code c = 9 \<or> code c = 10 \<or> code c = 13"

definition skip :: "string \<Rightarrow> string" where
  "skip s = dropWhile json_space s"

definition is_hex :: "char \<Rightarrow> bool" where
  "is_hex c \<longleftrightarrow> is_digit c \<or> between 97 102 c \<or> between 65 70 c"

definition simple_escape :: "char \<Rightarrow> bool" where
  "simple_escape e \<longleftrightarrow> e \<in> {quote, backslash, CHR ''/'', CHR ''b'', CHR ''f'', CHR ''n'', CHR ''r'',
     CHR ''t''}"

definition cons_raw :: "string \<Rightarrow> (string \<times> string) option \<Rightarrow> (string \<times> string) option" where
  "cons_raw p r = map_option (\<lambda>(raw, rest). (p @ raw, rest)) r"

text \<open>The inside of a string literal, after the opening quote, and what follows the closing one.\<close>

fun scanString :: "string \<Rightarrow> (string \<times> string) option" where
  "scanString [] = None"
| "scanString (c # s) =
     (if c = quote then Some ([], s)
      else if c = backslash then
        (case s of
           [] \<Rightarrow> None
         | e # s1 \<Rightarrow>
             if simple_escape e then cons_raw [c, e] (scanString s1)
             else if e = CHR ''u'' then
               (case s1 of
                  h1 # h2 # h3 # h4 # s2 \<Rightarrow>
                    if is_hex h1 \<and> is_hex h2 \<and> is_hex h3 \<and> is_hex h4
                    then cons_raw [c, e, h1, h2, h3, h4] (scanString s2) else None
                | _ \<Rightarrow> None)
             else None)
      else if code c < 32 then None
      else cons_raw [c] (scanString s))"

definition digits1 :: "string \<Rightarrow> (string \<times> string) option" where
  "digits1 s =
     (let ds = takeWhile is_digit s in if ds = [] then None else Some (ds, dropWhile is_digit s))"

definition scanInt :: "string \<Rightarrow> (string \<times> string) option" where
  "scanInt s =
     (case s of
        [] \<Rightarrow> None
      | c # r \<Rightarrow> if c = CHR ''0'' then Some ([c], r) else digits1 s)"

definition scanFrac :: "string \<Rightarrow> (string \<times> string) option" where
  "scanFrac s =
     (case s of
        c # r \<Rightarrow> if c = CHR ''.'' then cons_raw [c] (digits1 r) else Some ([], s)
      | [] \<Rightarrow> Some ([], s))"

definition scanExp :: "string \<Rightarrow> (string \<times> string) option" where
  "scanExp s =
     (case s of
        c # r \<Rightarrow>
          if c = CHR ''e'' \<or> c = CHR ''E'' then
            (case r of
               g # r2 \<Rightarrow> if g = CHR ''+'' \<or> g = CHR ''-'' then cons_raw [c, g] (digits1 r2)
                          else cons_raw [c] (digits1 r)
             | [] \<Rightarrow> None)
          else Some ([], s)
      | [] \<Rightarrow> Some ([], s))"

definition then_raw ::
  "(string \<Rightarrow> (string \<times> string) option) \<Rightarrow> (string \<times> string) option \<Rightarrow> (string \<times> string) option"
where
  "then_raw scan r = Option.bind r (\<lambda>(raw, rest). cons_raw raw (scan rest))"

definition scanNumber :: "string \<Rightarrow> (string \<times> string) option" where
  "scanNumber s =
     (case s of
        [] \<Rightarrow> None
      | c # r \<Rightarrow>
          then_raw scanExp (then_raw scanFrac
            (if c = CHR ''-'' then cons_raw [c] (scanInt r) else scanInt s)))"

definition scanLiteral :: "string \<Rightarrow> json \<Rightarrow> string \<Rightarrow> (json \<times> string) option" where
  "scanLiteral word v s = (if HasPrefix s word then Some (v, drop (length word) s) else None)"

definition maxNestingDepth :: nat where "maxNestingDepth = 10000"

text \<open>Fuel, depth and text.\<close>

fun parseValue :: "nat \<Rightarrow> nat \<Rightarrow> string \<Rightarrow> (json \<times> string) option"
  and parseElems :: "nat \<Rightarrow> nat \<Rightarrow> string \<Rightarrow> (json list \<times> string) option"
  and parseMembers :: "nat \<Rightarrow> nat \<Rightarrow> string \<Rightarrow> ((string \<times> json) list \<times> string) option"
where
  "parseValue 0 depth s = None"
| "parseValue (Suc n) depth s =
     (case skip s of
        [] \<Rightarrow> None
      | c # r \<Rightarrow>
          if c = CHR ''{'' then
            (if depth \<ge> maxNestingDepth then None
             else if HasPrefix (skip r) ''}'' then Some (JObj [], tl (skip r))
             else map_option (\<lambda>(ms, rest). (JObj ms, rest)) (parseMembers n (depth + 1) r))
          else if c = CHR ''['' then
            (if depth \<ge> maxNestingDepth then None
             else if HasPrefix (skip r) '']'' then Some (JArr [], tl (skip r))
             else map_option (\<lambda>(vs, rest). (JArr vs, rest)) (parseElems n (depth + 1) r))
          else if c = quote then map_option (\<lambda>(raw, rest). (JStr raw, rest)) (scanString r)
          else if c = CHR ''t'' then scanLiteral ''true'' (JBool True) (c # r)
          else if c = CHR ''f'' then scanLiteral ''false'' (JBool False) (c # r)
          else if c = CHR ''n'' then scanLiteral ''null'' JNull (c # r)
          else map_option (\<lambda>(raw, rest). (JNum raw, rest)) (scanNumber (c # r)))"
| "parseElems 0 depth s = None"
| "parseElems (Suc n) depth s =
     (case parseValue n depth s of
        None \<Rightarrow> None
      | Some (v, r) \<Rightarrow>
          (case skip r of
             [] \<Rightarrow> None
           | c # r1 \<Rightarrow>
               if c = CHR '']'' then Some ([v], r1)
               else if c = CHR '','' then
                 map_option (\<lambda>(vs, rest). (v # vs, rest)) (parseElems n depth r1)
               else None))"
| "parseMembers 0 depth s = None"
| "parseMembers (Suc n) depth s =
     (case skip s of
        [] \<Rightarrow> None
      | c # r \<Rightarrow>
          if c \<noteq> quote then None
          else (case scanString r of
              None \<Rightarrow> None
            | Some (key, r1) \<Rightarrow>
                (case skip r1 of
                   [] \<Rightarrow> None
                 | c2 # r2 \<Rightarrow>
                     if c2 \<noteq> CHR '':'' then None
                     else (case parseValue n depth r2 of
                         None \<Rightarrow> None
                       | Some (v, r3) \<Rightarrow>
                           (case skip r3 of
                              [] \<Rightarrow> None
                            | c4 # r4 \<Rightarrow>
                                if c4 = CHR ''}'' then Some ([(key, v)], r4)
                                else if c4 = CHR '','' then
                                  map_option (\<lambda>(ms, rest). ((key, v) # ms, rest))
                                    (parseMembers n depth r4)
                                else None)))))"

text \<open>\<^verbatim>\<open>checkValid\<close>, with the value: one value and white space.\<close>

definition parseJson :: "string \<Rightarrow> json option" where
  "parseJson s =
     (case parseValue (2 * length s + 1) 0 s of
        Some (v, rest) \<Rightarrow> if skip rest = [] then Some v else None
      | None \<Rightarrow> None)"


subsection \<open>Unquoting\<close>

definition hex_val :: "char \<Rightarrow> nat" where
  "hex_val c = (if is_digit c then code c - 48 else if code c \<ge> 97 then code c - 87 else code c - 55)"

text \<open>\<^verbatim>\<open>getu4\<close>: the code of an escape, after the backslash and u.\<close>

definition getu4 :: "string \<Rightarrow> nat option" where
  "getu4 s =
     (if length s \<ge> 4 \<and> list_all is_hex (take 4 s)
      then Some (foldl (\<lambda>n c. 16 * n + hex_val c) 0 (take 4 s)) else None)"

definition low_surrogate :: "string \<Rightarrow> nat option" where
  "low_surrogate s =
     (if HasPrefix s [backslash, CHR ''u''] then
        (case getu4 (drop 2 s) of
           Some r \<Rightarrow> if 0xDC00 \<le> r \<and> r < 0xE000 then Some r else None
         | None \<Rightarrow> None)
      else None)"

definition unescape :: "char \<Rightarrow> char" where
  "unescape e =
     (if e = CHR ''b'' then char_of (8 :: nat)
      else if e = CHR ''f'' then char_of (12 :: nat)
      else if e = CHR ''n'' then char_of (10 :: nat)
      else if e = CHR ''r'' then char_of (13 :: nat)
      else if e = CHR ''t'' then char_of (9 :: nat)
      else e)"

text \<open>The text of a scanned string literal.\<close>

function unquote :: "string \<Rightarrow> string" where
  "unquote s =
     (case s of
        [] \<Rightarrow> []
      | c # r \<Rightarrow>
          if c = backslash then
            (case r of
               [] \<Rightarrow> []
             | e # r1 \<Rightarrow>
                 if e = CHR ''u'' then
                   (case getu4 r1 of
                      None \<Rightarrow> []
                    | Some u \<Rightarrow>
                        if 0xD800 \<le> u \<and> u < 0xE000 then
                          (case (u < 0xDC00, low_surrogate (drop 4 r1)) of
                             (True, Some l) \<Rightarrow>
                               encode_rune ((u - 0xD800) * 1024 + (l - 0xDC00) + 65536) @
                               unquote (drop 10 r1)
                           | _ \<Rightarrow> encode_rune 0xFFFD @ unquote (drop 4 r1))
                        else encode_rune u @ unquote (drop 4 r1))
                 else unescape e # unquote r1)
          else if code c < 128 then c # unquote r
          else let (u, n) = decode_rune s in encode_rune u @ unquote (drop (n - 1) r))"
  by pat_completeness auto
termination by (relation "measure length") auto

declare unquote.simps [simp del]

text \<open>
  \<^verbatim>\<open>foldName\<close>, as far as it decides whether a key equals an ASCII field name: letters to upper
  case; U+212A (Kelvin sign) folds to K and U+017F (long s) to S.  No other code point above 127
  folds to an ASCII one.
\<close>

function foldName :: "string \<Rightarrow> string" where
  "foldName s =
     (case s of
        [] \<Rightarrow> []
      | c # r \<Rightarrow>
          if HasPrefix s [CHR 0xE2, CHR 0x84, CHR 0xAA] then CHR ''K'' # foldName (drop 2 r)
          else if HasPrefix s [CHR 0xC5, CHR 0xBF] then CHR ''S'' # foldName (drop 1 r)
          else (if is_lower c then char_of (code c - 32) else c) # foldName r)"
  by pat_completeness auto
termination by (relation "measure length") auto

declare foldName.simps [simp del]


subsection \<open>The fuel is enough\<close>

lemma length_skip: "length (skip s) \<le> length s"
  by (simp add: skip_def length_dropWhile_le)

lemma skip_shorter: "skip s = c # r \<Longrightarrow> length r < length s"
  using length_skip [of s] by simp

lemma cons_raw_Some: "cons_raw p r = Some (raw, rest) \<longleftrightarrow> (\<exists>raw'. r = Some (raw', rest) \<and> raw = p @ raw')"
  by (auto simp: cons_raw_def)

lemma scanString_shorter: "scanString s = Some (raw, rest) \<Longrightarrow> length rest < length s"
  by (induction s arbitrary: raw rest rule: scanString.induct)
    (fastforce simp: cons_raw_Some split: if_splits list.splits)+

lemma digits1_shorter: "digits1 s = Some (raw, rest) \<Longrightarrow> length rest < length s"
proof -
  assume "digits1 s = Some (raw, rest)"
  then have "raw \<noteq> []" and "raw = takeWhile is_digit s" and "rest = dropWhile is_digit s"
    by (auto simp: digits1_def Let_def split: if_splits)
  moreover from this have "length raw + length rest = length s"
    using takeWhile_dropWhile_id [of is_digit s] by (metis length_append)
  moreover have "length raw > 0" using \<open>raw \<noteq> []\<close> by simp
  ultimately show ?thesis by linarith
qed

lemma scanInt_shorter: "scanInt s = Some (raw, rest) \<Longrightarrow> length rest < length s"
  by (auto simp: scanInt_def split: list.splits if_splits dest: digits1_shorter)

lemma scanFrac_le: "scanFrac s = Some (raw, rest) \<Longrightarrow> length rest \<le> length s"
  by (auto simp: scanFrac_def cons_raw_Some split: list.splits if_splits dest!: digits1_shorter)

lemma scanExp_le: "scanExp s = Some (raw, rest) \<Longrightarrow> length rest \<le> length s"
  by (auto simp: scanExp_def cons_raw_Some split: list.splits if_splits dest!: digits1_shorter)

lemma scanNumber_shorter: "scanNumber s = Some (raw, rest) \<Longrightarrow> length rest < length s"
proof (cases s)
  case (Cons c r)
  assume "scanNumber s = Some (raw, rest)"
  then obtain i s1 f s2 e where int: "(if c = CHR ''-'' then cons_raw [c] (scanInt r) else scanInt s) =
      Some (i, s1)" and "scanFrac s1 = Some (f, s2)" and "scanExp s2 = Some (e, rest)"
    using Cons by (auto simp: scanNumber_def then_raw_def bind_eq_Some_conv cons_raw_Some)
  moreover have "length s1 < length s"
    using int Cons by (auto simp: cons_raw_Some split: if_splits dest!: scanInt_shorter)
  ultimately show ?thesis using scanFrac_le scanExp_le by fastforce
qed (simp add: scanNumber_def)

lemma scanLiteral_shorter:
  "scanLiteral w v s = Some (x, rest) \<Longrightarrow> w \<noteq> [] \<Longrightarrow> length rest < length s"
  by (cases w; cases s) (auto simp: scanLiteral_def HasPrefix_def split: if_splits)

lemma parse_shorter:
  "(\<forall>d s v rest. parseValue n d s = Some (v, rest) \<longrightarrow> length rest < length s) \<and>
   (\<forall>d s vs rest. parseElems n d s = Some (vs, rest) \<longrightarrow> length rest < length s) \<and>
   (\<forall>d s ms rest. parseMembers n d s = Some (ms, rest) \<longrightarrow> length rest < length s)"
proof (induction n)
  case (Suc n)
  then have v: "parseValue n d s = Some (v, rest) \<Longrightarrow> length rest < length s"
    and e: "parseElems n d s = Some (vs, rest) \<Longrightarrow> length rest < length s"
    and m: "parseMembers n d s = Some (ms, rest) \<Longrightarrow> length rest < length s" for d s v vs ms rest
    by blast+
  have "length rest < length s" if p: "parseValue (Suc n) d s = Some (v, rest)" for d s v rest
  proof -
    obtain c r where cr: "skip s = c # r" using p by (auto split: list.splits)
    note len = skip_shorter [OF cr] length_skip [of r]
    have "length (c # r) \<le> length s" using length_skip [of s] cr by simp
    with p len show ?thesis
      by (auto simp: cr split: if_splits dest!: m e scanString_shorter scanLiteral_shorter
          scanNumber_shorter)
  qed
  moreover have "length rest < length s" if p: "parseElems (Suc n) d s = Some (vs, rest)" for d s vs rest
    using p by (fastforce split: option.splits list.splits if_splits dest: v e skip_shorter)
  moreover have "length rest < length s" if p: "parseMembers (Suc n) d s = Some (ms, rest)" for d s ms rest
    using p by (fastforce split: option.splits list.splits if_splits
        dest: v m skip_shorter scanString_shorter)
  ultimately show ?case by blast
qed simp

lemma parseValue_shorter: "parseValue n d s = Some (v, rest) \<Longrightarrow> length rest < length s"
  using parse_shorter by blast

theorem parse_fuel:
  "(\<forall>m d s. 2 * length s < n \<longrightarrow> n \<le> m \<longrightarrow> parseValue m d s = parseValue n d s) \<and>
   (\<forall>m d s. 2 * length s + 1 < n \<longrightarrow> n \<le> m \<longrightarrow> parseElems m d s = parseElems n d s) \<and>
   (\<forall>m d s. 2 * length s + 1 < n \<longrightarrow> n \<le> m \<longrightarrow> parseMembers m d s = parseMembers n d s)"
proof (induction n)
  case (Suc n)
  then have v: "2 * length s < n \<Longrightarrow> n \<le> m \<Longrightarrow> parseValue m d s = parseValue n d s"
    and e: "2 * length s + 1 < n \<Longrightarrow> n \<le> m \<Longrightarrow> parseElems m d s = parseElems n d s"
    and m: "2 * length s + 1 < n \<Longrightarrow> n \<le> m \<Longrightarrow> parseMembers m d s = parseMembers n d s"
    for m d s by blast+
  have "parseValue k d s = parseValue (Suc n) d s" if len: "2 * length s < Suc n" and more: "Suc n \<le> k"
    for k d s
  proof (cases "skip s")
    case (Cons c r)
    obtain k' where k: "k = Suc k'" using more by (cases k) auto
    have "2 * length r + 1 < n" using skip_shorter [OF Cons] len by linarith
    then have eqs: "parseElems k' (d + 1) r = parseElems n (d + 1) r"
      "parseMembers k' (d + 1) r = parseMembers n (d + 1) r"
      using e [of r k' "d + 1"] m [of r k' "d + 1"] more k by simp_all
    show ?thesis unfolding k parseValue.simps Cons list.case eqs by (rule refl)
  qed (use more in \<open>cases k; simp\<close>)
  moreover have "parseElems k d s = parseElems (Suc n) d s"
    if len: "2 * length s + 1 < Suc n" and more: "Suc n \<le> k" for k d s
  proof -
    obtain k' where k: "k = Suc k'" using more by (cases k) auto
    have val: "parseValue k' d s = parseValue n d s" using v [of s k' d] len more k by simp
    show ?thesis
    proof (cases "parseValue n d s")
      case (Some vr)
      obtain x r where vr: "vr = (x, r)" by force
      show ?thesis
      proof (cases "skip r")
        case (Cons c r1)
        have "length r1 < length s"
          using skip_shorter [OF Cons] parseValue_shorter Some vr by fastforce
        then have "parseElems k' d r1 = parseElems n d r1" using e [of r1 k' d] len more k by simp
        then show ?thesis
          unfolding k parseElems.simps val Some vr option.case prod.case Cons list.case by simp
      qed (simp add: k val Some vr)
    qed (simp add: k val)
  qed
  moreover have "parseMembers k d s = parseMembers (Suc n) d s"
    if len: "2 * length s + 1 < Suc n" and more: "Suc n \<le> k" for k d s
  proof -
    obtain k' where k: "k = Suc k'" using more by (cases k) auto
    have val: "parseValue k' d t = parseValue n d t" and
      mem: "parseMembers k' d t = parseMembers n d t" if "length t < length s" for t
      using v [of t k' d] m [of t k' d] that len more k by simp_all
    show ?thesis
      unfolding k parseMembers.simps
      by (intro list.case_cong refl if_cong option.case_cong prod.case_cong)
        (auto simp: val mem dest!: skip_shorter scanString_shorter parseValue_shorter)
  qed
  ultimately show ?case by blast
qed simp


subsection \<open>ASCII strings read back\<close>

definition ascii :: "string \<Rightarrow> bool" where
  "ascii s \<longleftrightarrow> list_all (\<lambda>c. code c < 128) s"

lemma code_eq [simp]: "code c = code d \<longleftrightarrow> c = d"
  by (simp add: code_def)

lemma code_char_of [simp]: "n < 256 \<Longrightarrow> code (char_of n) = n"
  by (simp add: code_def)

lemma char_of_code [simp]: "char_of (code c) = c"
  by (simp add: code_def)

lemma code_constants:
  "code quote = 34" "code backslash = 92" "code (CHR ''/'') = 47" "code (CHR ''b'') = 98"
  "code (CHR ''f'') = 102" "code (CHR ''n'') = 110" "code (CHR ''r'') = 114"
  "code (CHR ''t'') = 116" "code (CHR ''u'') = 117" "code (CHR ''0'') = 48"
  by (simp_all add: code_def quote_def backslash_def)

lemma hex_digit_ok:
  assumes "d < 16"
  shows "is_hex (hex_digit d)" and "hex_val (hex_digit d) = d"
  using assms
  by (auto simp: hex_digit_def is_hex_def hex_val_def is_digit_def between_def)

lemma quote_not_special [simp]: "quote \<noteq> backslash" "backslash \<noteq> quote"
  by (simp_all add: quote_def backslash_def)

text \<open>The escaped forms, one by one.\<close>

lemma escape_cases:
  assumes "code c < 128"
  obtains (plain) "escape c = [c]" "c \<noteq> quote" "c \<noteq> backslash" "code c \<ge> 32"
    | (simple) e where "escape c = [backslash, e]" "simple_escape e" "unescape e = c" "e \<noteq> CHR ''u''"
    | (hex) "escape c = [backslash, CHR ''u'', CHR ''0'', CHR ''0'', hex_digit (code c div 16),
        hex_digit (code c mod 16)]"
proof (cases "html_safe c \<or> c = quote \<or> c = backslash")
  case True
  moreover have "unescape quote = quote" "unescape backslash = backslash"
    "quote \<noteq> CHR ''u''" "backslash \<noteq> CHR ''u''" "\<not> html_safe quote" "\<not> html_safe backslash"
    by (simp_all add: unescape_def html_safe_def quote_def backslash_def)
  ultimately show thesis
    using plain simple [of quote] simple [of backslash]
    by (auto simp: escape_def simple_escape_def html_safe_def)
next
  case False
  have short: thesis if "code c = n" "n < 32" "escape c = [backslash, e]" "simple_escape e"
    "unescape e = char_of n" "e \<noteq> CHR ''u''" for n e
    using that char_of_code [of c] by (intro simple [of e]) auto
  consider (special) "code c \<in> {8, 12, 10, 13, 9}" | (other) "code c \<notin> {8, 12, 10, 13, 9}" by blast
  then show thesis
  proof cases
    case special
    then consider "code c = 8" | "code c = 12" | "code c = 10" | "code c = 13" | "code c = 9" by blast
    then show thesis
      using False
      by cases (rule short, assumption, simp, simp add: escape_def,
          simp add: simple_escape_def, simp add: unescape_def, simp)+
  next
    case other
    with False show thesis by (intro hex) (simp add: escape_def)
  qed
qed

lemma scanString_escape:
  assumes "code c < 128"
  shows "scanString (escape c @ t) = cons_raw (escape c) (scanString t)"
  using assms
proof (cases rule: escape_cases)
  case hex
  have "is_hex (CHR ''0'')" by (simp add: is_hex_def is_digit_def code_constants)
  moreover have "code c div 16 < 16" "code c mod 16 < 16" using assms by auto
  moreover have "\<not> simple_escape (CHR ''u'')" by (auto simp: simple_escape_def quote_def backslash_def)
  ultimately show ?thesis by (simp add: hex hex_digit_ok)
qed auto

lemma unquote_escape:
  assumes "code c < 128"
  shows "unquote (escape c @ t) = c # unquote t"
  using assms
proof (cases rule: escape_cases)
  case plain
  then show ?thesis using assms by (simp add: unquote.simps [of "c # t"])
next
  case (simple e)
  then show ?thesis by (simp add: unquote.simps [of "backslash # e # t"])
next
  case hex
  have d: "code c div 16 < 16" "code c mod 16 < 16" using assms by auto
  let ?t = "CHR ''0'' # CHR ''0'' # hex_digit (code c div 16) # hex_digit (code c mod 16) # t"
  have "is_hex (CHR ''0'')" "hex_val (CHR ''0'') = 0"
    by (simp_all add: is_hex_def is_digit_def code_constants hex_val_def)
  then have "getu4 ?t = Some (code c)"
    using d by (simp add: getu4_def hex_digit_ok mult.commute [of 16])
  moreover have "encode_rune (code c) = [c]" using assms by (simp add: encode_rune_def)
  ultimately show ?thesis
    using assms by (simp add: hex unquote.simps [of "backslash # CHR ''u'' # ?t"])
qed

theorem scanString_encode:
  "ascii s \<Longrightarrow> scanString (encodeString s @ quote # rest) = Some (encodeString s, rest)"
  by (induction s) (simp_all add: ascii_def scanString_escape cons_raw_def)

theorem unquote_encode: "ascii s \<Longrightarrow> unquote (encodeString s) = s"
proof (induction s)
  case (Cons c s)
  then show ?case by (simp add: ascii_def unquote_escape)
qed (simp add: unquote.simps)

end
