(* ===== verification/Util.thy ===== *)
theory Util
  imports Prelude
begin

text \<open>
  \<^verbatim>\<open>internal/util\<close>: \<open>Reverse\<close> and the \<open>DefaultMap\<close>, a Go map with a factory for missing
  keys.  The keys are strings (record kinds are strings too).  \<open>go_dict\<close> is the interface its
  clients rely on; it is interpreted on \<open>DefaultMap\<close> as \<open>dm\<close>.
\<close>

subsection \<open>Reverse\<close>

text \<open>\<open>zero\<close> is the zero value of the element type, with which \<^verbatim>\<open>make\<close> fills the new slice.\<close>

definition Reverse :: "'a \<Rightarrow> 'a list \<Rightarrow> 'a list" where
  "Reverse zero elems =
     fold (\<lambda>(i, v) reversed. reversed[length elems - 1 - i := v]) (enumerate 0 elems)
       (replicate (length elems) zero)"

lemma fold_reverse:
  "length zs = length xs \<Longrightarrow>
   fold (\<lambda>(i, v) r. r[n - 1 - i := v]) (enumerate (n - length xs) xs) (zs @ ys) = rev xs @ ys"
  if "n = length xs + length ys" for n
  using that
proof (induction xs arbitrary: zs ys)
  case (Cons x xs)
  then obtain us u where zs: "zs = us @ [u]" and us: "length us = length xs"
    by (cases zs rule: rev_cases) auto
  have "(zs @ ys)[length xs := x] = us @ x # ys"
    using us by (simp add: zs list_update_append)
  moreover have "n - 1 - length ys = length xs" and "n - length xs = Suc (length ys)"
    using Cons.prems by simp_all
  ultimately show ?case
    using Cons.IH [of us "x # ys"] Cons.prems us by simp
qed simp

theorem Reverse_rev [simp]: "Reverse zero xs = rev xs"
  using fold_reverse [of "length xs" xs "[]" "replicate (length xs) zero"]
  by (simp add: Reverse_def)


subsection \<open>DefaultMap\<close>

record 'v DefaultMap =
  internal :: "(string \<times> 'v) list"
  factory :: 'v

definition NewDefaultMap :: "'v \<Rightarrow> 'v DefaultMap" where
  "NewDefaultMap f = \<lparr>internal = [], factory = f\<rparr>"

definition Get :: "'v DefaultMap \<Rightarrow> string \<Rightarrow> 'v \<times> 'v DefaultMap" where
  "Get d key =
     (case map_of (internal d) key of
        Some val \<Rightarrow> (val, d)
      | None \<Rightarrow>
          let val = factory d
          in (val, d\<lparr>internal := AList.update key val (internal d)\<rparr>))"

definition Peek :: "'v DefaultMap \<Rightarrow> string \<Rightarrow> 'v option" where
  "Peek d key = map_of (internal d) key"

definition Contains :: "'v DefaultMap \<Rightarrow> string \<Rightarrow> bool" where
  "Contains d key \<longleftrightarrow> map_of (internal d) key \<noteq> None"

definition Set :: "'v DefaultMap \<Rightarrow> string \<Rightarrow> 'v \<Rightarrow> 'v DefaultMap" where
  "Set d key value = d\<lparr>internal := AList.update key value (internal d)\<rparr>"

definition Delete :: "'v DefaultMap \<Rightarrow> string \<Rightarrow> 'v DefaultMap" where
  "Delete d key = d\<lparr>internal := AList.delete key (internal d)\<rparr>"

definition Keys :: "map_order \<Rightarrow> 'v DefaultMap \<Rightarrow> string list" where
  "Keys ord d = map fst (range_map ord (internal d))"

definition Values :: "map_order \<Rightarrow> 'v DefaultMap \<Rightarrow> 'v list" where
  "Values ord d = map snd (range_map ord (internal d))"

text \<open>A Go map never holds a key twice.\<close>

definition dm_wf :: "'v DefaultMap \<Rightarrow> bool" where
  "dm_wf d \<longleftrightarrow> distinct (map fst (internal d))"

lemmas [go_eval] =
  NewDefaultMap_def Get_def Peek_def Contains_def Set_def Delete_def Keys_def Values_def


subsection \<open>The interface of a dictionary\<close>

locale go_dict =
  fixes peek :: "'m \<Rightarrow> string \<Rightarrow> 'v option"
    and put :: "'m \<Rightarrow> string \<Rightarrow> 'v \<Rightarrow> 'm"
    and del :: "'m \<Rightarrow> string \<Rightarrow> 'm"
    and keys :: "map_order \<Rightarrow> 'm \<Rightarrow> string list"
    and vals :: "map_order \<Rightarrow> 'm \<Rightarrow> 'v list"
    and wf :: "'m \<Rightarrow> bool"
  assumes peek_put: "peek (put m k v) k' = (if k' = k then Some v else peek m k')"
    and peek_del: "peek (del m k) k' = (if k' = k then None else peek m k')"
    and wf_put: "wf m \<Longrightarrow> wf (put m k v)"
    and wf_del: "wf m \<Longrightarrow> wf (del m k)"
    and set_keys: "is_order ord \<Longrightarrow> wf m \<Longrightarrow> set (keys ord m) = {k. peek m k \<noteq> None}"
    and distinct_keys: "is_order ord \<Longrightarrow> wf m \<Longrightarrow> distinct (keys ord m)"
    and vals_keys: "is_order ord \<Longrightarrow> wf m \<Longrightarrow> vals ord m = map (\<lambda>k. the (peek m k)) (keys ord m)"
begin

lemma set_vals:
  "is_order ord \<Longrightarrow> wf m \<Longrightarrow> set (vals ord m) = {v. \<exists>k. peek m k = Some v}"
  by (force simp: vals_keys set_keys)

lemma vals_Nil_iff:
  "is_order ord \<Longrightarrow> wf m \<Longrightarrow> vals ord m = [] \<longleftrightarrow> (\<forall>k. peek m k = None)"
  using set_keys [of ord m] by (auto simp: vals_keys)

lemma vals_single:
  assumes "is_order ord" and "wf m" and "peek m k = Some v"
    and "\<And>k'. peek m k' \<noteq> None \<Longrightarrow> k' = k"
  shows "vals ord m = [v]"
proof -
  have "set (keys ord m) = {k}" using assms by (auto simp: set_keys)
  with distinct_keys [OF assms(1,2)] have "keys ord m = [k]"
    by (rule distinct_set_single)
  with assms show ?thesis by (simp add: vals_keys)
qed

lemma distinct_vals:
  assumes "is_order ord" and "wf m" and "\<And>k v. peek m k = Some v \<Longrightarrow> f v = k"
  shows "distinct (vals ord m)"
proof -
  have "inj_on (\<lambda>k. the (peek m k)) (set (keys ord m))"
    using assms by (intro inj_on_inverseI [of _ f]) (auto simp: set_keys)
  with assms show ?thesis by (simp add: vals_keys distinct_map distinct_keys)
qed

lemma vals_orders:
  assumes "is_order ord" and "is_order ord'" and "wf m"
  shows "mset (vals ord m) = mset (vals ord' m)"
proof -
  have "mset (keys ord m) = mset (keys ord' m)"
    using assms by (simp add: set_eq_iff_mset_eq_distinct [symmetric] distinct_keys set_keys)
  then have "image_mset (\<lambda>k. the (peek m k)) (mset (keys ord m)) =
      image_mset (\<lambda>k. the (peek m k)) (mset (keys ord' m))" by simp
  with assms show ?thesis by (simp add: vals_keys)
qed

end

lemma range_map_keys:
  assumes "is_order ord" and "distinct (map fst m)"
  shows "range_map ord m = map (\<lambda>k. (k, the (map_of m k))) (ord (map fst m))"
proof -
  have "\<forall>k \<in> set ks. map_of m k \<noteq> None \<Longrightarrow>
      List.map_filter (\<lambda>k. map_option (Pair k) (map_of m k)) ks =
      map (\<lambda>k. (k, the (map_of m k))) ks" for ks
    by (induction ks) (auto simp: map_filter_def)
  moreover have "\<forall>k \<in> set (ord (map fst m)). map_of m k \<noteq> None"
    using assms by (simp add: gomap_simps map_of_eq_None_iff)
  ultimately show ?thesis by (simp add: range_map_def)
qed

interpretation dm: go_dict Peek Set Delete Keys Values dm_wf
proof unfold_locales
  fix ord :: map_order and m :: "'v DefaultMap"
  assume ord: "is_order ord" and m: "dm_wf m"
  then have r: "range_map ord (internal m) =
      map (\<lambda>k. (k, the (Peek m k))) (ord (map fst (internal m)))"
    by (simp add: range_map_keys dm_wf_def Peek_def)
  show "set (Keys ord m) = {k. Peek m k \<noteq> None}"
    using ord by (auto simp: Keys_def r o_def gomap_simps Peek_def map_of_eq_None_iff)
  show "distinct (Keys ord m)"
    using ord m by (simp add: Keys_def r o_def gomap_simps dm_wf_def)
  show "Values ord m = map (\<lambda>k. the (Peek m k)) (Keys ord m)"
    by (simp add: Keys_def Values_def r o_def)
qed (auto simp: Peek_def Set_def Delete_def dm_wf_def gomap_simps wf_intros)

lemma dm_wf_New [wf_intros, simp]: "dm_wf (NewDefaultMap f)"
  by (simp add: dm_wf_def NewDefaultMap_def)

lemma Peek_New [simp]: "Peek (NewDefaultMap f) k = None"
  by (simp add: Peek_def NewDefaultMap_def)

lemma factory_simps [simp]:
  "factory (NewDefaultMap f) = f" "factory (Set d k v) = factory d"
  "factory (Delete d k) = factory d"
  by (simp_all add: NewDefaultMap_def Set_def Delete_def)

text \<open>\<open>Get\<close> returns what \<open>Peek\<close> sees, or the factory's value, which it then stores.\<close>

lemma Get_eq:
  "Get d k = (case Peek d k of
     Some v \<Rightarrow> (v, d) | None \<Rightarrow> (factory d, Set d k (factory d)))"
  by (simp add: Get_def Peek_def Set_def Let_def split: option.splits)

lemma Contains_Peek: "Contains d k \<longleftrightarrow> Peek d k \<noteq> None"
  by (simp add: Contains_def Peek_def)

lemma GetE:
  obtains d' where "Get d k = (case Peek d k of Some v \<Rightarrow> v | None \<Rightarrow> factory d, d')"
    and "\<And>k'. k' \<noteq> k \<Longrightarrow> Peek d' k' = Peek d k'" and "factory d' = factory d"
    and "dm_wf d \<Longrightarrow> dm_wf d'"
proof (cases "Peek d k")
  case None
  show ?thesis
    by (rule that [of "Set d k (factory d)"]) (simp_all add: Get_eq None dm.peek_put dm.wf_put)
next
  case (Some v)
  show ?thesis by (rule that [of d]) (simp_all add: Get_eq Some)
qed

end
