(* ===== verification/Etcd_Path.thy ===== *)
theory Etcd_Path
  imports Util Domain
begin

text \<open>
  \<^verbatim>\<open>internal/registry/etcd_path.go\<close>: the etcd key of a name and the name of a key.  The labels
  of a name are the path segments in reverse order, below the prefix; a record's key has one
  more segment, \<open>x\<close> and a number.
\<close>

definition keyBaseForFQDN :: "string \<Rightarrow> string \<Rightarrow> string" where
  "keyBaseForFQDN prefix fqdn =
     (let prefix = TrimRight prefix (CHR ''/'');
          trimmed = TrimSuffix (TrimSpace fqdn) ''.'';
          parts = Reverse [] (Split (CHR ''.'') trimmed)
      in prefix @ ''/'' @ Join (CHR ''/'') parts)"

definition fqdnFromKey :: "string \<Rightarrow> string \<Rightarrow> string" where
  "fqdnFromKey prefix key =
     (let prefix = TrimRight prefix (CHR ''/'');
          path = TrimPrefix (TrimPrefix key prefix) ''/'';
          parts = Split (CHR ''/'') path;
          parts = (if length parts > 0 \<and> HasPrefix (last parts) ''x'' then butlast parts else parts)
      in Join (CHR ''.'') (Reverse [] parts))"

definition indexedKey :: "string \<Rightarrow> nat \<Rightarrow> string" where
  "indexedKey base idx = base @ ''/x'' @ Itoa idx"

lemmas [go_eval] = keyBaseForFQDN_def fqdnFromKey_def indexedKey_def


subsection \<open>Round trip\<close>

lemma hd_Join: "ps \<noteq> [] \<Longrightarrow> hd ps \<noteq> [] \<Longrightarrow> hd (Join c ps) = hd (hd ps)"
  by (cases ps; cases "tl ps") (auto simp: Join_Cons)

lemma last_Join: "ps \<noteq> [] \<Longrightarrow> last ps \<noteq> [] \<Longrightarrow> last (Join c ps) = last (last ps)"
proof (induction ps)
  case (Cons p ps)
  show ?case
  proof (cases ps)
    case (Cons q qs)
    have "Join c ps \<noteq> []"
      using Cons Cons.prems by (cases qs) auto
    then show ?thesis using Cons Cons.IH Cons.prems by (simp add: Join_Cons)
  qed simp
qed simp

lemma alnum_printable: "alnum c \<Longrightarrow> printable c"
  by (auto simp: alnum_def is_lower_def is_upper_def is_digit_def printable_def code_def)

lemma label_ok_sep: "label_ok l \<Longrightarrow> CHR ''/'' \<notin> set l \<and> CHR ''.'' \<notin> set l"
  using label_ok_no_dot [of l]
  by (auto simp: label_ok_def alnum_dash_def alnum_def list_all_iff is_lower_def is_upper_def
      is_digit_def code_def)

lemma hostname_ends:
  assumes "isValidHostname h"
  shows "alnum (hd h)" and "alnum (last h)"
proof -
  let ?ls = "Split (CHR ''.'') h"
  have ok: "label_ok (hd ?ls)" "label_ok (last ?ls)"
    using assms by (auto simp: isValidHostname_labels list_all_iff)
  then have "hd ?ls \<noteq> []" "last ?ls \<noteq> []" by (auto simp: label_ok_def)
  then have "hd h = hd (hd ?ls)" "last h = last (last ?ls)"
    using hd_Join [of ?ls "CHR ''.''"] last_Join [of ?ls "CHR ''.''"] by simp_all
  with ok show "alnum (hd h)" and "alnum (last h)" by (auto simp: label_ok_def)
qed

lemma trimmed_hostname:
  assumes "isValidHostname h"
  shows "TrimSuffix (TrimSpace h) ''.'' = h"
proof -
  have "TrimSpace h = h"
    by (rule TrimSpace_id) (use hostname_ends [OF assms] alnum_printable in auto)
  moreover have "\<not> HasSuffix h ''.''"
  proof
    assume "HasSuffix h ''.''"
    then have "last h = CHR ''.''" by (auto simp: HasSuffix_iff)
    with hostname_ends(2) [OF assms] show False
      by (auto simp: alnum_def is_lower_def is_upper_def is_digit_def code_def)
  qed
  ultimately show ?thesis by (simp add: TrimSuffix_id)
qed

lemma keyBase_hostname:
  "isValidHostname h \<Longrightarrow>
   keyBaseForFQDN prefix h =
     TrimRight prefix (CHR ''/'') @ ''/'' @ Join (CHR ''/'') (rev (Split (CHR ''.'') h))"
  by (simp add: keyBaseForFQDN_def trimmed_hostname)

text \<open>The number of an index holds no slash.\<close>

lemma Itoa_no_slash: "CHR ''/'' \<notin> set (Itoa n)"
  using Itoa_digits [of n] by (auto simp: list_all_iff is_digit_def code_def)

theorem fqdn_of_indexedKey:
  assumes "isValidHostname h"
  shows "fqdnFromKey prefix (indexedKey (keyBaseForFQDN prefix h) i) = h"
proof -
  let ?p = "TrimRight prefix (CHR ''/'')" and ?ls = "Split (CHR ''.'') h"
  let ?parts = "rev ?ls @ [''x'' @ Itoa i]"
  have key: "indexedKey (keyBaseForFQDN prefix h) i = ?p @ ''/'' @ Join (CHR ''/'') ?parts"
    using Join_append [of "rev ?ls" "[''x'' @ Itoa i]" "CHR ''/''"]
    by (simp add: indexedKey_def keyBase_hostname [OF assms])
  have "\<forall>l \<in> set ?parts. CHR ''/'' \<notin> set l"
    using assms label_ok_sep Itoa_no_slash by (auto simp: isValidHostname_labels list_all_iff)
  then have "Split (CHR ''/'') (Join (CHR ''/'') ?parts) = ?parts" by (intro Split_Join) auto
  moreover have "TrimPrefix (TrimPrefix (?p @ ''/'' @ Join (CHR ''/'') ?parts) ?p) ''/'' =
      Join (CHR ''/'') ?parts"
    using TrimPrefix_append [of "''/''"] by simp
  ultimately have "fqdnFromKey prefix (indexedKey (keyBaseForFQDN prefix h) i) =
      Join (CHR ''.'') (rev (butlast ?parts))"
    unfolding key fqdnFromKey_def Let_def using HasPrefix_append [of "''x''" "Itoa i"] by simp
  then show ?thesis by simp
qed

theorem keyBase_inj:
  assumes "isValidHostname h" and "isValidHostname h'"
  shows "keyBaseForFQDN prefix h = keyBaseForFQDN prefix h' \<longleftrightarrow> h = h'"
  using fqdn_of_indexedKey [OF assms(1), of prefix 0] fqdn_of_indexedKey [OF assms(2), of prefix 0]
  by metis

text \<open>The keys of a name lie under its base, as do those of the names below it.\<close>

lemma keyBase_subdomain:
  assumes "isValidHostname h" and "isValidHostname (l @ ''.'' @ h)" and "CHR ''.'' \<notin> set l"
  shows "keyBaseForFQDN prefix (l @ ''.'' @ h) = keyBaseForFQDN prefix h @ ''/'' @ l"
proof -
  have "Split (CHR ''.'') (l @ ''.'' @ h) = l # Split (CHR ''.'') h"
    using Split_append_sep [OF assms(3), of h] by simp
  then show ?thesis
    using keyBase_hostname [OF assms(1)] keyBase_hostname [OF assms(2)]
      Join_append [of "rev (Split (CHR ''.'') h)" "[l]" "CHR ''/''"] by simp
qed

end
