(* ===== verification/Etcd_Wire.thy ===== *)
theory Etcd_Wire
  imports Go_Time Go_Json Etcd_Path
begin

text \<open>
  \<^verbatim>\<open>internal/registry/etcd_wire.go\<close>: the JSON value stored under the key of a record.  \<open>zone\<close> is
  the local time zone, the offset from UTC in seconds at an instant: Go prints the creation time
  in it.
  The main result is that a stored record reads back as it was written.
\<close>

subsection \<open>The wire record\<close>

record etcdRecord =
  wireHost :: string
  wireTTL :: "32 word"
  wireKind :: RecordKind
  OwnerHostname :: string
  OwnerContainerId :: string
  OwnerContainerName :: string
  wireCreated :: Time
  wireForce :: bool

text \<open>The members of an object, as \<^verbatim>\<open>Marshal\<close> prints them.\<close>

fun membersText :: "(string \<times> string) list \<Rightarrow> string" where
  "membersText [] = []"
| "membersText [(k, t)] = quote # k @ quote # CHR '':'' # t"
| "membersText ((k, t) # m # ms) = quote # k @ quote # CHR '':'' # t @ CHR '','' # membersText (m # ms)"

text \<open>\<^verbatim>\<open>json.Marshal\<close> of a wire record: the fields in order, a zero TTL left out.\<close>

definition jsonMarshal :: "(Time \<Rightarrow> int) \<Rightarrow> etcdRecord \<Rightarrow> string option" where
  "jsonMarshal zone w =
     (case TimeMarshalJSON (zone (wireCreated w)) (wireCreated w) of
        None \<Rightarrow> None
      | Some created \<Rightarrow>
          Some (CHR ''{'' # membersText
            ([(''host'', marshalString (wireHost w))] @
             (if wireTTL w = 0 then [] else [(''ttl'', Itoa (unat (wireTTL w)))]) @
             [(''record_type'', marshalString (wireKind w)),
              (''owner_hostname'', marshalString (OwnerHostname w)),
              (''owner_container_id'', marshalString (OwnerContainerId w)),
              (''owner_container_name'', marshalString (OwnerContainerName w)),
              (''created'', created),
              (''force'', fmt_bool (wireForce w))]) @ ''}''))"

definition zeroRecord :: etcdRecord where
  "zeroRecord =
     \<lparr>wireHost = [], wireTTL = 0, wireKind = [], OwnerHostname = [], OwnerContainerId = [],
      OwnerContainerName = [], wireCreated = zeroTime, wireForce = False\<rparr>"

text \<open>Storing a JSON value in a field: null leaves it alone, a value of another type is an error.\<close>

definition stringValue :: "json \<Rightarrow> string \<Rightarrow> string option" where
  "stringValue v old = (case v of JNull \<Rightarrow> Some old | JStr raw \<Rightarrow> Some (unquote raw) | _ \<Rightarrow> None)"

definition uint32Value :: "json \<Rightarrow> 32 word \<Rightarrow> 32 word option" where
  "uint32Value v old =
     (case v of
        JNull \<Rightarrow> Some old
      | JNum raw \<Rightarrow>
          (case ParseUint 64 raw of
             Some n \<Rightarrow> if n < 2 ^ 32 then Some (word_of_nat n) else None
           | None \<Rightarrow> None)
      | _ \<Rightarrow> None)"

definition boolValue :: "json \<Rightarrow> bool \<Rightarrow> bool option" where
  "boolValue v old = (case v of JNull \<Rightarrow> Some old | JBool b \<Rightarrow> Some b | _ \<Rightarrow> None)"

definition timeValue :: "json \<Rightarrow> Time \<Rightarrow> Time option" where
  "timeValue v old =
     (case v of
        JNull \<Rightarrow> TimeUnmarshalJSON ''null'' old
      | JStr raw \<Rightarrow> TimeUnmarshalJSON (quote # raw @ [quote]) old
      | _ \<Rightarrow> None)"

definition fieldNames :: "string list" where
  "fieldNames =
     [''host'', ''ttl'', ''record_type'', ''owner_hostname'', ''owner_container_id'',
      ''owner_container_name'', ''created'', ''force'']"

text \<open>The field of a key: an exact match, or else one up to case.\<close>

definition fieldOf :: "string \<Rightarrow> string option" where
  "fieldOf key =
     (if key \<in> set fieldNames then Some key
      else List.find (\<lambda>name. foldName name = foldName key) fieldNames)"

definition setWireField :: "string \<times> json \<Rightarrow> etcdRecord \<Rightarrow> etcdRecord option" where
  "setWireField = (\<lambda>(key, v) w.
     (case fieldOf (unquote key) of
        None \<Rightarrow> Some w
      | Some f \<Rightarrow>
          if f = ''host'' then map_option (\<lambda>x. w\<lparr>wireHost := x\<rparr>) (stringValue v (wireHost w))
          else if f = ''ttl'' then map_option (\<lambda>x. w\<lparr>wireTTL := x\<rparr>) (uint32Value v (wireTTL w))
          else if f = ''record_type'' then
            map_option (\<lambda>x. w\<lparr>wireKind := x\<rparr>) (stringValue v (wireKind w))
          else if f = ''owner_hostname'' then
            map_option (\<lambda>x. w\<lparr>OwnerHostname := x\<rparr>) (stringValue v (OwnerHostname w))
          else if f = ''owner_container_id'' then
            map_option (\<lambda>x. w\<lparr>OwnerContainerId := x\<rparr>) (stringValue v (OwnerContainerId w))
          else if f = ''owner_container_name'' then
            map_option (\<lambda>x. w\<lparr>OwnerContainerName := x\<rparr>) (stringValue v (OwnerContainerName w))
          else if f = ''created'' then
            map_option (\<lambda>x. w\<lparr>wireCreated := x\<rparr>) (timeValue v (wireCreated w))
          else map_option (\<lambda>x. w\<lparr>wireForce := x\<rparr>) (boolValue v (wireForce w))))"

fun setWireFields :: "(string \<times> json) list \<Rightarrow> etcdRecord \<Rightarrow> etcdRecord option" where
  "setWireFields [] w = Some w"
| "setWireFields (m # ms) w = Option.bind (setWireField m w) (setWireFields ms)"

text \<open>\<^verbatim>\<open>json.Unmarshal\<close> into a fresh wire record; its errors are not told apart.\<close>

definition jsonUnmarshal :: "string \<Rightarrow> etcdRecord option" where
  "jsonUnmarshal raw =
     (case parseJson raw of
        Some JNull \<Rightarrow> Some zeroRecord
      | Some (JObj ms) \<Rightarrow> setWireFields ms zeroRecord
      | _ \<Rightarrow> None)"

definition wireOf :: "RecordIntent \<Rightarrow> etcdRecord" where
  "wireOf ri =
     \<lparr>wireHost = Value (Rec ri), wireTTL = TTL ri, wireKind = Kind (Rec ri),
      OwnerHostname = Hostname ri, OwnerContainerId = ContainerId ri,
      OwnerContainerName = ContainerName ri, wireCreated = Created ri, wireForce = Force ri\<rparr>"

definition marshalEtcdValue :: "(Time \<Rightarrow> int) \<Rightarrow> RecordIntent \<Rightarrow> string option" where
  "marshalEtcdValue zone ri = jsonMarshal zone (wireOf ri)"

datatype wire_error = DecodeEtcdValue | InvalidRecord domain_error

definition unmarshalEtcdValue :: "string \<Rightarrow> string \<Rightarrow> string \<Rightarrow> wire_error + RecordIntent" where
  "unmarshalEtcdValue key raw prefix =
     (let fqdn = fqdnFromKey prefix key in
      case jsonUnmarshal raw of
        None \<Rightarrow> Inl DecodeEtcdValue
      | Some wire \<Rightarrow>
          (case NewFromKind (wireKind wire) fqdn (wireHost wire) of
             Inl err \<Rightarrow> Inl (InvalidRecord err)
           | Inr rec \<Rightarrow>
               Inr \<lparr>ContainerId = OwnerContainerId wire, ContainerName = OwnerContainerName wire,
                    Created = wireCreated wire, Hostname = OwnerHostname wire,
                    Force = wireForce wire, TTL = wireTTL wire, Rec = rec\<rparr>))"


subsection \<open>The text parses\<close>

definition ends_value :: "string \<Rightarrow> bool" where
  "ends_value r \<longleftrightarrow> r \<noteq> [] \<and> (hd r = CHR '','' \<or> hd r = CHR ''}'')"

definition parses :: "string \<Rightarrow> json \<Rightarrow> bool" where
  "parses t v \<longleftrightarrow> (\<forall>n d r. ends_value r \<longrightarrow> parseValue (Suc n) d (t @ r) = Some (v, r))"

lemma skip_Cons [simp]: "\<not> json_space c \<Longrightarrow> skip (c # s) = c # s"
  by (simp add: skip_def)

lemma not_space [simp]:
  "\<not> json_space quote" "\<not> json_space (CHR '':'')" "\<not> json_space (CHR '','')"
  "\<not> json_space (CHR ''}'')" "\<not> json_space (CHR ''{'')" "\<not> json_space (CHR ''t'')"
  "\<not> json_space (CHR ''f'')"
  by (simp_all add: json_space_def quote_def code_def)

lemma quote_chars [simp]:
  "quote \<noteq> CHR ''{''" "quote \<noteq> CHR ''[''" "quote \<noteq> CHR '':''" "quote \<noteq> CHR '',''" "quote \<noteq> CHR ''}''"
  by (simp_all add: quote_def)

lemma parses_literal: "scanString (raw @ quote # r) = Some (raw, r) \<Longrightarrow>
  parseValue (Suc n) d ((quote # raw @ [quote]) @ r) = Some (JStr raw, r)"
  by simp

lemma parses_string: "ascii s \<Longrightarrow> parses (marshalString s) (JStr (encodeString s))"
  unfolding parses_def marshalString_def
  by (intro allI impI parses_literal scanString_encode)

definition plain_char :: "char \<Rightarrow> bool" where
  "plain_char c \<longleftrightarrow> code c \<ge> 32 \<and> c \<noteq> quote \<and> c \<noteq> backslash"

lemma scanString_plain:
  "list_all plain_char raw \<Longrightarrow> scanString (raw @ quote # r) = Some (raw, r)"
  by (induction raw) (simp_all add: cons_raw_def plain_char_def)

lemma digit_plain: "is_digit c \<Longrightarrow> code c \<ge> 32 \<and> c \<noteq> quote \<and> c \<noteq> backslash"
  by (auto simp: is_digit_def quote_def backslash_def code_def)

lemma Itoa_hd: "n > 0 \<Longrightarrow> hd (Itoa n) \<noteq> CHR ''0''"
proof (induction n rule: Itoa.induct)
  case (1 n)
  show ?case
  proof (cases "n < 10")
    case True
    then have "code (digit_char n) \<noteq> code (CHR ''0'')"
      using 1(2) by (simp add: code_digit_char code_constants)
    with True show ?thesis by (subst Itoa.simps) auto
  next
    case False
    then have "hd (Itoa n) = hd (Itoa (n div 10))" by (subst Itoa.simps) simp
    with 1 False show ?thesis by simp
  qed
qed

lemma parses_number:
  assumes "n > 0"
  shows "parses (Itoa n) (JNum (Itoa n))"
  unfolding parses_def
proof (intro allI impI)
  fix k d r
  assume r: "ends_value r"
  obtain c t where ct: "Itoa n = c # t" by (meson Itoa_not_Nil neq_Nil_conv)
  have dig: "list_all is_digit (c # t)" using Itoa_digits [of n] by (simp add: ct)
  then have c: "is_digit c" "c \<noteq> CHR ''0''" "c \<noteq> CHR ''-''"
    using Itoa_hd [OF assms] digit_not_sign by (auto simp: ct)
  have nots: "c \<noteq> CHR ''{''" "c \<noteq> CHR ''[''" "c \<noteq> quote" "c \<noteq> CHR ''t''" "c \<noteq> CHR ''f''"
    "c \<noteq> CHR ''n''" "\<not> json_space c"
    using c(1) by (auto simp: is_digit_def code_def quote_def json_space_def)
  have hd: "takeWhile is_digit r = []" "dropWhile is_digit r = r" and hd_r: "\<exists>x s. r = x # s \<and>
      x \<noteq> CHR ''.'' \<and> x \<noteq> CHR ''e'' \<and> x \<noteq> CHR ''E''"
    using r by (cases r; auto simp: ends_value_def is_digit_def code_def)+
  have tw: "takeWhile is_digit ((c # t) @ r) = c # t" "dropWhile is_digit ((c # t) @ r) = r"
    using dig hd by (simp_all add: list_all_iff takeWhile_append2 dropWhile_append2)
  then have "scanInt ((c # t) @ r) = Some (c # t, r)"
    using c by (simp add: scanInt_def digits1_def)
  moreover have "scanFrac r = Some ([], r)" "scanExp r = Some ([], r)"
    using hd_r by (auto simp: scanFrac_def scanExp_def)
  ultimately have "scanNumber ((c # t) @ r) = Some (c # t, r)"
    using c(3) by (simp add: scanNumber_def then_raw_def cons_raw_def)
  then show "parseValue (Suc k) d (Itoa n @ r) = Some (JNum (Itoa n), r)"
    using nots by (simp add: ct)
qed

lemma parses_bool: "parses (fmt_bool b) (JBool b)"
  by (auto simp: parses_def fmt_bool_def scanLiteral_def HasPrefix_def quote_def)

text \<open>The members of an object.\<close>

lemma parseMembers_text:
  assumes "ms \<noteq> []"
    and "\<forall>(k, t, v) \<in> set ms. ascii k \<and> encodeString k = k \<and> parses t v"
  shows "parseMembers (Suc (Suc n) + length ms) d
      (membersText (map (\<lambda>(k, t, v). (k, t)) ms) @ CHR ''}'' # r) =
    Some (map (\<lambda>(k, t, v). (k, v)) ms, r)"
  using assms
proof (induction ms)
  case (Cons m ms)
  obtain k t v where m: "m = (k, t, v)" using prod_cases3 by blast
  have key: "scanString (k @ quote # s) = Some (k, s)" for s
    using scanString_encode [of k s] Cons.prems(2) by (simp add: m)
  have val: "parseValue (Suc i) d (t @ s) = Some (v, s)" if "ends_value s" for i d s
    using Cons.prems(2) that by (simp add: m parses_def)
  show ?case
  proof (cases ms)
    case Nil
    then show ?thesis
      using key val [of "CHR ''}'' # r"] by (simp add: m ends_value_def)
  next
    case (Cons m' ms')
    have "parseMembers (Suc (Suc n) + length ms) d
        (membersText (map (\<lambda>(k, t, v). (k, t)) ms) @ CHR ''}'' # r) =
      Some (map (\<lambda>(k, t, v). (k, v)) ms, r)"
      by (rule Cons.IH) (use Cons Cons.prems in auto)
    then show ?thesis
      using key val [of "CHR '','' # membersText (map (\<lambda>(k, t, v). (k, t)) ms) @ CHR ''}'' # r"]
      by (cases m') (simp add: m Cons ends_value_def)
  qed
qed simp


lemma membersText_hd: "ms \<noteq> [] \<Longrightarrow> \<exists>s. membersText ms = quote # s"
  by (cases ms rule: membersText.cases) auto

lemma membersText_length: "length ms \<le> length (membersText ms)"
  by (induction ms rule: membersText.induct) auto

lemma parseJson_object:
  assumes "ms \<noteq> []" and "\<forall>(k, t, v) \<in> set ms. ascii k \<and> encodeString k = k \<and> parses t v"
  shows "parseJson (CHR ''{'' # membersText (map (\<lambda>(k, t, v). (k, t)) ms) @ ''}'') =
    Some (JObj (map (\<lambda>(k, t, v). (k, v)) ms))"
proof -
  let ?kts = "map (\<lambda>(k, t, v). (k, t)) ms"
  let ?fuel = "2 * length (CHR ''{'' # membersText ?kts @ ''}'')"
  have "length ms \<le> length (membersText ?kts)" using membersText_length [of ?kts] by simp
  then obtain n where n: "?fuel = Suc (Suc n) + length ms"
    using le_iff_add [of "Suc (Suc 0) + length ms" ?fuel] by (auto simp: algebra_simps)
  obtain s where "membersText ?kts = quote # s" using membersText_hd [of ?kts] assms(1) by auto
  then have hd: "\<not> HasPrefix (skip (membersText ?kts @ ''}'')) ''}''"
    by (simp add: HasPrefix_iff)
  have "parseValue (Suc ?fuel) 0 (CHR ''{'' # membersText ?kts @ ''}'') =
      map_option (\<lambda>(ms, rest). (JObj ms, rest)) (parseMembers ?fuel 1 (membersText ?kts @ ''}''))"
    using hd by (simp add: maxNestingDepth_def)
  also have "\<dots> = Some (JObj (map (\<lambda>(k, t, v). (k, v)) ms), [])"
    unfolding n using parseMembers_text [OF assms, of n 1 "[]"] by simp
  finally show ?thesis unfolding parseJson_def by (simp add: skip_def)
qed


subsection \<open>Round trip\<close>

text \<open>The records that the registry can hold.\<close>

definition storable :: "(Time \<Rightarrow> int) \<Rightarrow> RecordIntent \<Rightarrow> bool" where
  "storable zone ri \<longleftrightarrow> record_ok (Rec ri) \<and> ascii (Value (Rec ri)) \<and> ascii (Kind (Rec ri)) \<and>
     ascii (Hostname ri) \<and> ascii (ContainerId ri) \<and> ascii (ContainerName ri) \<and>
     zone (Created ri) mod 60 = 0 \<and> TimeMarshalJSON (zone (Created ri)) (Created ri) \<noteq> None"

lemma foldName_simps [simp]:
  "foldName [] = []"
  "code c < 128 \<Longrightarrow> foldName (c # r) = (if is_lower c then char_of (code c - 32) else c) # foldName r"
  by (auto simp: foldName.simps [of "[]"] foldName.simps [of "c # r"] HasPrefix_def code_def)

lemma plain_chars [simp]:
  "plain_char (CHR ''-'')" "plain_char (CHR ''+'')" "plain_char (CHR ''T'')"
  "plain_char (CHR '':'')" "plain_char (CHR ''.'')" "plain_char (CHR ''Z'')"
  by (simp_all add: plain_char_def code_def quote_def backslash_def)

lemma digits_plain: "list_all is_digit s \<Longrightarrow> list_all plain_char s"
  using digit_plain by (auto simp: list_all_iff plain_char_def)

lemma trim_plain: "list_all plain_char (trim_zeros (pad w n))"
proof -
  obtain k where "pad w n = trim_zeros (pad w n) @ replicate k (CHR ''0'')"
    using trim_zeros by blast
  then show ?thesis using digits_plain [OF pad_digits, of w n] by (metis list_all_append)
qed

lemma time_text_plain: "list_all plain_char (FormatRFC3339Nano offset t)"
proof -
  note digits = digits_plain [OF pad_digits] digits_plain [OF Itoa_digits]
  have "list_all plain_char (fmtYear y)" for y
    using digits by (simp add: fmtYear_def del: pad.simps)
  moreover have "list_all plain_char (fmtFraction ns)" for ns
    using trim_plain by (simp add: fmtFraction_def del: pad.simps)
  moreover have "list_all plain_char (fmtZone offset)"
    using digits by (simp add: fmtZone_def Let_def del: pad.simps)
  moreover obtain y m d where
    "civil_of_day ((t div 1000000000 + offset) div 86400 + epoch_day) = (y, m, d)"
    using prod_cases3 by blast
  ultimately show ?thesis
    unfolding FormatRFC3339Nano_def Let_def by (simp add: digits del: pad.simps)
qed

lemma parses_time:
  assumes "TimeMarshalJSON offset t = Some raw"
  shows "parses raw (JStr (FormatRFC3339Nano offset t))"
proof -
  have "raw = quote # FormatRFC3339Nano offset t @ [quote]"
    using assms by (auto simp: TimeMarshalJSON_def quote_def split: if_splits)
  then show ?thesis
    using scanString_plain [OF time_text_plain] by (auto simp: parses_def)
qed

lemma field_names:
  "name \<in> set fieldNames \<Longrightarrow> ascii name \<and> encodeString name = name \<and> unquote name = name \<and>
     fieldOf name = Some name"
proof -
  assume n: "name \<in> set fieldNames"
  have "list_all (\<lambda>name. list_all (\<lambda>c. html_safe c \<and> code c < 128) name) fieldNames"
    by code_simp
  with n have safe: "list_all (\<lambda>c. html_safe c \<and> code c < 128) name" by (simp add: list_all_iff)
  then have a: "ascii name" by (simp add: ascii_def list_all_iff)
  have e: "encodeString name = name"
    using safe by (induction name) (simp_all add: escape_def)
  from unquote_encode [OF a] a e n show ?thesis by (simp add: fieldOf_def)
qed

theorem json_roundtrip:
  assumes "storable zone ri" and "marshalEtcdValue zone ri = Some raw"
  shows "jsonUnmarshal raw = Some (wireOf ri)"
proof -
  let ?off = "zone (Created ri)"
  obtain created where created: "TimeMarshalJSON ?off (Created ri) = Some created"
    using assms(1) by (auto simp: storable_def)
  have asc: "ascii (Value (Rec ri))" "ascii (Kind (Rec ri))" "ascii (Hostname ri)"
    "ascii (ContainerId ri)" "ascii (ContainerName ri)"
    using assms(1) by (simp_all add: storable_def)
  have time: "TimeUnmarshalJSON (quote # FormatRFC3339Nano ?off (Created ri) @ [quote]) old =
      Some (Created ri)" for old
    using TimeJSON_roundtrip [OF _ created] created assms(1)
    by (auto simp: storable_def TimeMarshalJSON_def quote_def split: if_splits)
  let ?str = "\<lambda>s. (marshalString s, JStr (encodeString s))"
  let ?ms = "[(''host'', ?str (Value (Rec ri)))] @
    (if TTL ri = 0 then [] else [(''ttl'', Itoa (unat (TTL ri)), JNum (Itoa (unat (TTL ri))))]) @
    [(''record_type'', ?str (Kind (Rec ri))),
     (''owner_hostname'', ?str (Hostname ri)),
     (''owner_container_id'', ?str (ContainerId ri)),
     (''owner_container_name'', ?str (ContainerName ri)),
     (''created'', created, JStr (FormatRFC3339Nano ?off (Created ri))),
     (''force'', fmt_bool (Force ri), JBool (Force ri))]"
  have raw: "raw = CHR ''{'' # membersText (map (\<lambda>(k, t, v). (k, t)) ?ms) @ ''}''"
    using assms(2) created
    by (cases "TTL ri = 0")
      (simp_all add: marshalEtcdValue_def jsonMarshal_def wireOf_def del: membersText.simps)
  have "TTL ri \<noteq> 0 \<Longrightarrow> unat (TTL ri) > 0" by (simp add: unat_gt_0)
  then have "parses (Itoa (unat (TTL ri))) (JNum (Itoa (unat (TTL ri))))" if "TTL ri \<noteq> 0"
    using that parses_number by blast
  moreover have "set (map fst ?ms) \<subseteq> set fieldNames" by (auto simp: fieldNames_def)
  ultimately have "\<forall>(k, t, v) \<in> set ?ms. ascii k \<and> encodeString k = k \<and> parses t v"
    using field_names parses_time [OF created] parses_bool [of "Force ri"] asc [THEN parses_string]
    by (cases "TTL ri = 0") (simp_all add: fieldNames_def)
  from parseJson_object [OF _ this] raw
  have "jsonUnmarshal raw = setWireFields (map (\<lambda>(k, t, v). (k, v)) ?ms) zeroRecord"
    by (simp add: jsonUnmarshal_def)
  moreover have "unat (TTL ri) < 2 ^ LENGTH(32)" by (rule unsigned_less)
  then have "unat (TTL ri) < 2 ^ 32" "unat (TTL ri) < 2 ^ 64" by simp_all
  then have "uint32Value (JNum (Itoa (unat (TTL ri)))) 0 = Some (TTL ri)"
    using ParseUint_Itoa [of "unat (TTL ri)" 64] by (simp add: uint32Value_def)
  ultimately show ?thesis
    using asc [THEN unquote_encode] time field_names
    by (cases "TTL ri = 0") (simp_all add: setWireField_def stringValue_def boolValue_def timeValue_def wireOf_def
        zeroRecord_def fieldNames_def)
qed

lemma marshal_defined: "storable zone ri \<Longrightarrow> \<exists>raw. marshalEtcdValue zone ri = Some raw"
  by (auto simp: storable_def marshalEtcdValue_def jsonMarshal_def wireOf_def)

text \<open>A record read from any key of its name is the record that was stored.\<close>

theorem wire_roundtrip:
  assumes "storable zone ri" and "marshalEtcdValue zone ri = Some raw"
    and "fqdnFromKey prefix key = Name (Rec ri)"
  shows "unmarshalEtcdValue key raw prefix = Inr ri"
proof -
  have "NewFromKind (Kind (Rec ri)) (Name (Rec ri)) (Value (Rec ri)) = Inr (Rec ri)"
    using assms(1) by (simp add: NewFromKind_iff storable_def)
  then show ?thesis
    using json_roundtrip [OF assms(1,2)] assms(3) by (simp add: unmarshalEtcdValue_def wireOf_def)
qed

end
