(* ===== verification/State.thy ===== *)
theory State
  imports Domain
begin

text \<open>
  \<^verbatim>\<open>internal/state\<close>: the in-memory container tracker.  Its operations run under a mutex and
  are modelled as atomic steps.  \<open>tracker\<close> is the abstract specification (which running
  containers are tracked, with their intents and the number of consecutive resyncs that missed
  them), \<open>container_tracker\<close> the interface a client relies on, and \<open>mem\<close> its interpretation on
  \<open>MemoryState\<close>, a functional refinement.
\<close>

subsection \<open>State and operations\<close>

record containerState =
  csContainerId :: string
  csContainerName :: string
  csCreated :: Time
  csLastUpdated :: Time
  RecordIntents :: "RecordIntent list"
  Status :: ContainerStatus
  missedResyncs :: nat

record MemoryState =
  containers :: "(string \<times> containerState) list"

definition NewMemoryState :: MemoryState where
  "NewMemoryState = \<lparr>containers = []\<rparr>"

text \<open>\<open>now\<close> is the instant \<^verbatim>\<open>time.Now()\<close> returns.\<close>

definition Upsert ::
  "MemoryState \<Rightarrow> Time \<Rightarrow> string \<Rightarrow> string \<Rightarrow> Time \<Rightarrow> RecordIntent list \<Rightarrow> ContainerStatus \<Rightarrow> MemoryState"
where
  "Upsert s now containerId containerName created intents status =
     s\<lparr>containers := AList.update containerId
         \<lparr>csContainerId = containerId,
          csContainerName = containerName,
          csCreated = created,
          csLastUpdated = now,
          RecordIntents = intents,
          Status = status,
          missedResyncs = 0\<rparr> (containers s)\<rparr>"

definition resyncPruneThreshold :: nat where
  "resyncPruneThreshold = 2"

text \<open>
  The body of the loop of \<open>RetainRunning\<close>, on the map and the counter.  Go allows the delete
  inside the range: a deleted entry is not visited again.
\<close>

definition retainStep ::
  "string set \<Rightarrow> string \<times> containerState \<Rightarrow>
   (string \<times> containerState) list \<times> nat \<Rightarrow> (string \<times> containerState) list \<times> nat"
where
  "retainStep runningIds = (\<lambda>(cid, cs) (m, removed).
     if Status cs \<noteq> StatusRunning then (m, removed)
     else if cid \<in> runningIds then (AList.update cid (cs\<lparr>missedResyncs := 0\<rparr>) m, removed)
     else
       let cs' = cs\<lparr>missedResyncs := missedResyncs cs + 1\<rparr>
       in if missedResyncs cs' \<ge> resyncPruneThreshold then (AList.delete cid m, removed + 1)
          else (AList.update cid cs' m, removed))"

definition RetainRunning :: "map_order \<Rightarrow> MemoryState \<Rightarrow> string set \<Rightarrow> MemoryState \<times> nat" where
  "RetainRunning ord s runningIds =
     (let (m, removed) =
        fold (retainStep runningIds) (range_map ord (containers s)) (containers s, 0)
      in (s\<lparr>containers := m\<rparr>, removed))"

definition MarkRemoved :: "MemoryState \<Rightarrow> string \<Rightarrow> MemoryState \<times> bool" where
  "MarkRemoved s containerId =
     (if map_of (containers s) containerId \<noteq> None
      then (s\<lparr>containers := AList.delete containerId (containers s)\<rparr>, True)
      else (s, False))"

definition GetAllDesiredRecordIntents :: "map_order \<Rightarrow> MemoryState \<Rightarrow> RecordIntent list" where
  "GetAllDesiredRecordIntents ord s =
     concat (map (\<lambda>cs. if Status cs = StatusRunning then RecordIntents cs else [])
       (range_vals ord (containers s)))"

lemmas [go_eval] =
  NewMemoryState_def Upsert_def resyncPruneThreshold_def retainStep_def RetainRunning_def
  MarkRemoved_def GetAllDesiredRecordIntents_def


subsection \<open>The map invariant\<close>

text \<open>
  Each container is tracked once, under its own id, and a running one has missed fewer resyncs
  than the prune threshold.
\<close>

definition mem_wf :: "MemoryState \<Rightarrow> bool" where
  "mem_wf s \<longleftrightarrow> distinct (map fst (containers s)) \<and>
     (\<forall>cid cs. map_of (containers s) cid = Some cs \<longrightarrow>
        csContainerId cs = cid \<and> missedResyncs cs < resyncPruneThreshold)"

lemma mem_wf_distinct: "mem_wf s \<Longrightarrow> distinct (map fst (containers s))"
  by (simp add: mem_wf_def)

lemma mem_wf_New [wf_intros]: "mem_wf NewMemoryState"
  by (simp add: mem_wf_def NewMemoryState_def)

lemma mem_wf_Upsert [wf_intros]: "mem_wf s \<Longrightarrow> mem_wf (Upsert s now cid nm c ris st)"
  by (auto simp: mem_wf_def Upsert_def gomap_simps wf_intros resyncPruneThreshold_def)

lemma mem_wf_MarkRemoved [wf_intros]: "mem_wf s \<Longrightarrow> mem_wf (fst (MarkRemoved s cid))"
  by (auto simp: mem_wf_def MarkRemoved_def gomap_simps wf_intros split: if_splits)


subsection \<open>The effect of a resync on one container\<close>

text \<open>What the loop does to the entry of one container, and whether it prunes it.\<close>

definition retained :: "string set \<Rightarrow> string \<Rightarrow> containerState \<Rightarrow> containerState option" where
  "retained R cid cs =
     (if Status cs \<noteq> StatusRunning then Some cs
      else if cid \<in> R then Some (cs\<lparr>missedResyncs := 0\<rparr>)
      else if missedResyncs cs + 1 \<ge> resyncPruneThreshold then None
      else Some (cs\<lparr>missedResyncs := missedResyncs cs + 1\<rparr>))"

definition retain_inv ::
  "string set \<Rightarrow> (string \<times> containerState) list \<Rightarrow> (string \<times> containerState) list \<Rightarrow>
   (string \<times> containerState) list \<times> nat \<Rightarrow> bool"
where
  "retain_inv R m0 ys = (\<lambda>(m, removed).
     distinct (map fst m) \<and>
     map_of m = (\<lambda>cid. if cid \<in> fst ` set ys then Option.bind (map_of m0 cid) (retained R cid)
                      else map_of m0 cid) \<and>
     removed = length (filter (\<lambda>(cid, cs). retained R cid cs = None) ys))"

lemma retainStep_inv:
  assumes "distinct (map fst m0)" and "map_of m0 cid = Some cs"
    and "retain_inv R m0 ys st"
  shows "retain_inv R m0 (ys @ [(cid, cs)]) (retainStep R (cid, cs) st)"
  using assms
  by (cases st)
    (auto simp: retain_inv_def retainStep_def retained_def Let_def gomap_simps wf_intros
      fun_eq_iff)

lemma RetainRunning_spec:
  assumes ord: "is_order ord" and wf: "distinct (map fst (containers s))"
  shows "distinct (map fst (containers (fst (RetainRunning ord s R))))"
    and "map_of (containers (fst (RetainRunning ord s R))) cid =
      Option.bind (map_of (containers s) cid) (retained R cid)"
    and "snd (RetainRunning ord s R) =
      card {cid. \<exists>cs. map_of (containers s) cid = Some cs \<and> retained R cid cs = None}"
proof -
  let ?m = "containers s" and ?xs = "range_map ord (containers s)"
  have xs: "set ?xs = set ?m" using ord wf by (rule set_range_map)
  have inv: "retain_inv R ?m ?xs (fold (retainStep R) ?xs (?m, 0))"
  proof (rule fold_inv)
    show "retain_inv R ?m [] (?m, 0)" using wf by (simp add: retain_inv_def)
  next
    fix ys y st
    assume "set (ys @ [y]) \<subseteq> set ?xs" and "retain_inv R ?m ys st"
    with wf show "retain_inv R ?m (ys @ [y]) (retainStep R y st)"
      by (cases y) (auto intro!: retainStep_inv simp: xs)
  qed
  obtain m removed where res: "fold (retainStep R) ?xs (?m, 0) = (m, removed)" by force
  then have R: "RetainRunning ord s R = (s\<lparr>containers := m\<rparr>, removed)"
    by (simp add: RetainRunning_def)
  from inv res show "distinct (map fst (containers (fst (RetainRunning ord s R))))"
    by (simp add: R retain_inv_def)
  from inv res show "map_of (containers (fst (RetainRunning ord s R))) cid =
      Option.bind (map_of ?m cid) (retained R cid)"
    by (cases "cid \<in> fst ` set ?m")
      (simp_all add: R retain_inv_def xs map_of_eq_None_iff [THEN iffD2])
  have "mset ?xs = mset ?m" by (rule mset_range_map [OF ord wf])
  then have dist: "distinct (map fst ?xs)"
    using wf by (metis mset_eq_imp_distinct_iff mset_map)
  let ?P = "\<lambda>(cid, cs). retained R cid cs = None"
  have "removed = length (map fst (filter ?P ?xs))"
    using inv res by (simp add: retain_inv_def)
  also have "\<dots> = card (fst ` set (filter ?P ?xs))"
    using distinct_card [OF distinct_map_filter [OF dist, of ?P]] by simp
  also have "fst ` set (filter ?P ?xs) =
      {cid. \<exists>cs. map_of ?m cid = Some cs \<and> retained R cid cs = None}"
    by (auto simp: xs image_iff map_of_set_conv [OF wf])
  finally show "snd (RetainRunning ord s R) =
      card {cid. \<exists>cs. map_of ?m cid = Some cs \<and> retained R cid cs = None}"
    by (simp add: R)
qed

lemma mem_wf_RetainRunning [wf_intros]:
  assumes "is_order ord" and "mem_wf s"
  shows "mem_wf (fst (RetainRunning ord s R))"
proof -
  have kept: "csContainerId cs' = cid \<and> missedResyncs cs' < resyncPruneThreshold"
    if "map_of (containers s) cid = Some cs" and "retained R cid cs = Some cs'" for cid cs cs'
    using assms(2) that by (auto simp: mem_wf_def retained_def resyncPruneThreshold_def
        split: if_splits)
  note spec = RetainRunning_spec [OF assms(1) mem_wf_distinct [OF assms(2)]]
  show ?thesis
    unfolding mem_wf_def using spec(1) kept by (auto simp: spec(2) bind_eq_Some_conv)
qed


subsection \<open>The abstract tracker\<close>

type_synonym tracker = "string \<rightharpoonup> RecordIntent list \<times> nat"

definition track :: "string \<Rightarrow> RecordIntent list \<Rightarrow> ContainerStatus \<Rightarrow> tracker \<Rightarrow> tracker" where
  "track cid ris st t = t(cid := if st = StatusRunning then Some (ris, 0) else None)"

definition untrack :: "string \<Rightarrow> tracker \<Rightarrow> tracker" where
  "untrack cid t = t(cid := None)"

definition resync :: "string set \<Rightarrow> tracker \<Rightarrow> tracker" where
  "resync R t = (\<lambda>cid. case t cid of
       None \<Rightarrow> None
     | Some (ris, n) \<Rightarrow>
         if cid \<in> R then Some (ris, 0)
         else if n + 1 \<ge> resyncPruneThreshold then None
         else Some (ris, n + 1))"

definition wanted :: "tracker \<Rightarrow> RecordIntent set" where
  "wanted t = {ri. \<exists>cid ris n. t cid = Some (ris, n) \<and> ri \<in> set ris}"

locale container_tracker =
  fixes abs :: "'s \<Rightarrow> tracker"
    and inv :: "'s \<Rightarrow> bool"
    and upsert :: "'s \<Rightarrow> Time \<Rightarrow> string \<Rightarrow> string \<Rightarrow> Time \<Rightarrow> RecordIntent list \<Rightarrow> ContainerStatus \<Rightarrow> 's"
    and mark :: "'s \<Rightarrow> string \<Rightarrow> 's"
    and retain :: "map_order \<Rightarrow> 's \<Rightarrow> string set \<Rightarrow> 's"
    and desired :: "map_order \<Rightarrow> 's \<Rightarrow> RecordIntent list"
  assumes inv_upsert: "inv s \<Longrightarrow> inv (upsert s now cid nm c ris st)"
    and inv_mark: "inv s \<Longrightarrow> inv (mark s cid)"
    and inv_retain: "is_order ord \<Longrightarrow> inv s \<Longrightarrow> inv (retain ord s R)"
    and abs_upsert: "inv s \<Longrightarrow> abs (upsert s now cid nm c ris st) = track cid ris st (abs s)"
    and abs_mark: "inv s \<Longrightarrow> abs (mark s cid) = untrack cid (abs s)"
    and abs_retain: "is_order ord \<Longrightarrow> inv s \<Longrightarrow> abs (retain ord s R) = resync R (abs s)"
    and set_desired: "is_order ord \<Longrightarrow> inv s \<Longrightarrow> set (desired ord s) = wanted (abs s)"
    and misses_bound: "inv s \<Longrightarrow> abs s cid = Some (ris, n) \<Longrightarrow> n < resyncPruneThreshold"
begin

text \<open>A container seen by the resync stays; one missed by a single resync stays too.\<close>

lemma retain_running:
  "is_order ord \<Longrightarrow> inv s \<Longrightarrow> cid \<in> R \<Longrightarrow>
   abs (retain ord s R) cid = map_option (\<lambda>(ris, n). (ris, 0)) (abs s cid)"
  by (auto simp: abs_retain resync_def split: option.splits)

lemma retain_debounce:
  assumes "is_order ord" and "inv s" and "abs s cid = Some (ris, 0)"
  shows "\<exists>n. abs (retain ord s R) cid = Some (ris, n)"
  using assms by (simp add: abs_retain resync_def resyncPruneThreshold_def)

text \<open>Two resyncs in a row that miss a container prune it.\<close>

lemma retain_twice:
  assumes "is_order ord" and "is_order ord'" and "inv s" and "cid \<notin> R" and "cid \<notin> R'"
  shows "abs (retain ord' (retain ord s R) R') cid = None"
  using assms
  by (auto simp: abs_retain inv_retain resync_def resyncPruneThreshold_def split: option.splits
      if_splits)

lemma retain_no_other:
  "is_order ord \<Longrightarrow> inv s \<Longrightarrow> abs s cid = None \<Longrightarrow> abs (retain ord s R) cid = None"
  by (simp add: abs_retain resync_def)

end

definition mem_abs :: "MemoryState \<Rightarrow> tracker" where
  "mem_abs s cid =
     (case map_of (containers s) cid of
        None \<Rightarrow> None
      | Some cs \<Rightarrow>
          if Status cs = StatusRunning then Some (RecordIntents cs, missedResyncs cs) else None)"

lemma set_GetAllDesired:
  assumes "is_order ord" and "distinct (map fst (containers s))"
  shows "set (GetAllDesiredRecordIntents ord s) = wanted (mem_abs s)"
proof -
  have vals: "set (range_vals ord (containers s)) = {cs. \<exists>cid. map_of (containers s) cid = Some cs}"
    using assms by (force simp: gomap_simps map_of_set_conv [symmetric])
  have "ri \<in> wanted (mem_abs s) \<longleftrightarrow>
      (\<exists>cid cs. map_of (containers s) cid = Some cs \<and> Status cs = StatusRunning \<and>
         ri \<in> set (RecordIntents cs))" for ri
    by (fastforce simp: wanted_def mem_abs_def split: option.splits if_splits)
  moreover have "ri \<in> set (GetAllDesiredRecordIntents ord s) \<longleftrightarrow>
      (\<exists>cid cs. map_of (containers s) cid = Some cs \<and> Status cs = StatusRunning \<and>
         ri \<in> set (RecordIntents cs))" for ri
    by (simp add: GetAllDesiredRecordIntents_def vals) blast
  ultimately show ?thesis by blast
qed

interpretation mem: container_tracker mem_abs mem_wf Upsert "\<lambda>s cid. fst (MarkRemoved s cid)"
  "\<lambda>ord s R. fst (RetainRunning ord s R)" GetAllDesiredRecordIntents
proof unfold_locales
  show "mem_abs (Upsert s now cid nm c ris st) = track cid ris st (mem_abs s)" for s now cid nm c ris st
    by (auto simp: fun_eq_iff mem_abs_def Upsert_def track_def gomap_simps)
  show "mem_abs (fst (MarkRemoved s cid)) = untrack cid (mem_abs s)" for s cid
    by (auto simp: fun_eq_iff mem_abs_def MarkRemoved_def untrack_def gomap_simps)
  show "mem_abs (fst (RetainRunning ord s R)) = resync R (mem_abs s)"
    if "is_order ord" and "mem_wf s" for ord s R
    using RetainRunning_spec(2) [OF that(1) mem_wf_distinct [OF that(2)]]
    by (auto simp: fun_eq_iff mem_abs_def resync_def retained_def split: option.splits)
  show "n < resyncPruneThreshold" if "mem_wf s" and "mem_abs s cid = Some (ris, n)" for s cid ris n
    using that by (auto simp: mem_wf_def mem_abs_def split: option.splits if_splits)
qed (simp_all add: wf_intros mem_wf_distinct set_GetAllDesired)

end
