(* ===== verification/Config.thy ===== *)
theory Config
  imports Domain
begin

text \<open>
  \<^verbatim>\<open>internal/config\<close>: the configuration records and \<open>validate\<close>.  A Go int is an \<open>int\<close> (no
  arithmetic is done on these fields), a float64 setting a rational number (the settings are
  finite decimals; NaN and the infinities are not modelled), a uint32 a \<open>32 word\<close>.
\<close>

record DockerConfig =
  EventBufferSize :: int
  ReconnectInitialBackoff :: rat
  ReconnectMaxBackoff :: rat

record HTTPConfig =
  HTTPEnabled :: bool
  ListenAddr :: string

record MetricsConfig =
  MetricsEnabled :: bool

record AppConfig =
  DockerLabelPrefix :: string
  HostIPv4 :: string
  HostIPv6 :: string
  AppHostname :: string
  PollInterval :: int
  DryRun :: bool
  RecordTTL :: "32 word"
  HeartbeatTTL :: int

record EtcdTLSConfig =
  CAFile :: string
  CertFile :: string
  KeyFile :: string
  InsecureSkipVerify :: bool

record EtcdConfig =
  Endpoints :: "string list"
  PathPrefix :: string
  Username :: string
  Password :: string
  TLS :: EtcdTLSConfig
  LockTTL :: rat
  LockTimeout :: rat
  LockRetryInterval :: rat

record LoggingConfig =
  Level :: string

record Config =
  App :: AppConfig
  Etcd :: EtcdConfig
  Logging :: LoggingConfig
  HTTP :: HTTPConfig
  Metrics :: MetricsConfig
  Docker :: DockerConfig

definition HeartbeatKeyPrefix :: string where
  "HeartbeatKeyPrefix = ''/docker-coredns-sync/heartbeat''"

definition Configured :: "EtcdTLSConfig \<Rightarrow> bool" where
  "Configured t \<longleftrightarrow>
     CAFile t \<noteq> [] \<or> CertFile t \<noteq> [] \<or> KeyFile t \<noteq> [] \<or> InsecureSkipVerify t"

fun hasHTTPSEndpoint_loop :: "string list \<Rightarrow> bool" where
  "hasHTTPSEndpoint_loop [] = False"
| "hasHTTPSEndpoint_loop (e # es) =
     (if HasPrefix e ''https://'' then True else hasHTTPSEndpoint_loop es)"

definition hasHTTPSEndpoint :: "EtcdConfig \<Rightarrow> bool" where
  "hasHTTPSEndpoint c = hasHTTPSEndpoint_loop (Endpoints c)"

definition UsesTLS :: "EtcdConfig \<Rightarrow> bool" where
  "UsesTLS c \<longleftrightarrow> Configured (TLS c) \<or> hasHTTPSEndpoint c"

definition HTTPServerEnabled :: "Config \<Rightarrow> bool" where
  "HTTPServerEnabled c \<longleftrightarrow> HTTPEnabled (HTTP c) \<or> MetricsEnabled (Metrics c)"

definition isValidIPv4 :: "string \<Rightarrow> bool" where
  "isValidIPv4 s \<longleftrightarrow>
     (case ParseIP (TrimSpace s) of None \<Rightarrow> False | Some ip \<Rightarrow> To4 ip \<noteq> None)"

definition isValidIPv6 :: "string \<Rightarrow> bool" where
  "isValidIPv6 s \<longleftrightarrow>
     (case ParseIP (TrimSpace s) of
        None \<Rightarrow> False | Some ip \<Rightarrow> To16 ip \<noteq> None \<and> To4 ip = None)"


subsection \<open>validate\<close>

text \<open>One constructor per error return of \<^verbatim>\<open>validate\<close>, in its order.\<close>

datatype config_error =
    EmptyLabelPrefix
  | BadHostIPv4 string
  | BadHostIPv6 string
  | EmptyHostname
  | BadPollInterval
  | BadHeartbeatTTL
  | NoEndpoints
  | BadEndpoint string
  | EmptyPathPrefix
  | OverlappingPathPrefix string
  | CertWithoutKey
  | SkipVerifyWithCA
  | TLSWithoutHTTPS
  | NoPassword
  | NoUsername
  | BadLockTTL
  | BadLockTimeout
  | BadLockRetryInterval
  | BadLogLevel string
  | EmptyListenAddr
  | BadEventBufferSize
  | BadInitialBackoff
  | BadMaxBackoff

text \<open>The loop over the endpoints returns the first one with a bad scheme.\<close>

fun bad_endpoint :: "string list \<Rightarrow> string option" where
  "bad_endpoint [] = None"
| "bad_endpoint (e # es) =
     (if \<not> HasPrefix e ''http://'' \<and> \<not> HasPrefix e ''https://'' then Some e
      else bad_endpoint es)"

definition overlapsHeartbeat :: "string \<Rightarrow> bool" where
  "overlapsHeartbeat pathPrefix =
     (let pp = TrimSuffix pathPrefix ''/'' in
      pp = [] \<or>
      HasPrefix (HeartbeatKeyPrefix @ ''/'') (pp @ ''/'') \<or>
      HasPrefix (pp @ ''/'') (HeartbeatKeyPrefix @ ''/''))"

definition validLevels :: "string list" where
  "validLevels = [''TRACE'', ''DEBUG'', ''INFO'', ''WARN'', ''ERROR'', ''FATAL'']"

definition validate :: "Config \<Rightarrow> config_error option" where
  "validate c =
    (if DockerLabelPrefix (App c) = [] then Some EmptyLabelPrefix
     else if HostIPv4 (App c) \<noteq> [] \<and> \<not> isValidIPv4 (HostIPv4 (App c))
       then Some (BadHostIPv4 (HostIPv4 (App c)))
     else if HostIPv6 (App c) \<noteq> [] \<and> \<not> isValidIPv6 (HostIPv6 (App c))
       then Some (BadHostIPv6 (HostIPv6 (App c)))
     else if AppHostname (App c) = [] then Some EmptyHostname
     else if PollInterval (App c) \<le> 0 then Some BadPollInterval
     else if HeartbeatTTL (App c) \<le> 0 then Some BadHeartbeatTTL
     else if Endpoints (Etcd c) = [] then Some NoEndpoints
     else case bad_endpoint (Endpoints (Etcd c)) of
       Some e \<Rightarrow> Some (BadEndpoint e)
     | None \<Rightarrow>
    (if PathPrefix (Etcd c) = [] then Some EmptyPathPrefix
     else if overlapsHeartbeat (PathPrefix (Etcd c))
       then Some (OverlappingPathPrefix (PathPrefix (Etcd c)))
     else if (CertFile (TLS (Etcd c)) = []) \<noteq> (KeyFile (TLS (Etcd c)) = []) then Some CertWithoutKey
     else if InsecureSkipVerify (TLS (Etcd c)) \<and> CAFile (TLS (Etcd c)) \<noteq> [] then Some SkipVerifyWithCA
     else if Configured (TLS (Etcd c)) \<and> \<not> hasHTTPSEndpoint (Etcd c) then Some TLSWithoutHTTPS
     else if Username (Etcd c) \<noteq> [] \<and> Password (Etcd c) = [] then Some NoPassword
     else if Password (Etcd c) \<noteq> [] \<and> Username (Etcd c) = [] then Some NoUsername
     else if LockTTL (Etcd c) \<le> 0 then Some BadLockTTL
     else if LockTimeout (Etcd c) \<le> 0 then Some BadLockTimeout
     else if LockRetryInterval (Etcd c) \<le> 0 then Some BadLockRetryInterval
     else if ToUpper (Level (Logging c)) \<notin> set validLevels then Some (BadLogLevel (Level (Logging c)))
     else if HTTPServerEnabled c \<and> TrimSpace (ListenAddr (HTTP c)) = [] then Some EmptyListenAddr
     else if EventBufferSize (Docker c) \<le> 0 then Some BadEventBufferSize
     else if ReconnectInitialBackoff (Docker c) \<le> 0 then Some BadInitialBackoff
     else if ReconnectMaxBackoff (Docker c) < ReconnectInitialBackoff (Docker c) then Some BadMaxBackoff
     else None))"

text \<open>The defaults \<open>initConfig\<close> registers; a file, the environment and flags override them.\<close>

definition defaultConfig :: Config where
  "defaultConfig =
     \<lparr>App = \<lparr>DockerLabelPrefix = ''coredns'', HostIPv4 = [], HostIPv6 = [], AppHostname = [],
        PollInterval = 5, DryRun = False, RecordTTL = 0, HeartbeatTTL = 30\<rparr>,
      Etcd = \<lparr>Endpoints = [''http://localhost:2379''], PathPrefix = ''/skydns'', Username = [],
        Password = [], TLS = \<lparr>CAFile = [], CertFile = [], KeyFile = [], InsecureSkipVerify = False\<rparr>,
        LockTTL = 5, LockTimeout = 2, LockRetryInterval = 1 / 10\<rparr>,
      Logging = \<lparr>Level = ''INFO''\<rparr>,
      HTTP = \<lparr>HTTPEnabled = False, ListenAddr = '':8080''\<rparr>,
      Metrics = \<lparr>MetricsEnabled = False\<rparr>,
      Docker = \<lparr>EventBufferSize = 100, ReconnectInitialBackoff = 1, ReconnectMaxBackoff = 30\<rparr>\<rparr>"

lemmas [go_eval] =
  HeartbeatKeyPrefix_def Configured_def hasHTTPSEndpoint_def UsesTLS_def HTTPServerEnabled_def
  isValidIPv4_def isValidIPv6_def overlapsHeartbeat_def validLevels_def validate_def


subsection \<open>What a validated configuration guarantees\<close>

lemma hasHTTPSEndpoint_iff:
  "hasHTTPSEndpoint c \<longleftrightarrow> (\<exists>e \<in> set (Endpoints c). HasPrefix e ''https://'')"
proof -
  have "hasHTTPSEndpoint_loop es \<longleftrightarrow> (\<exists>e \<in> set es. HasPrefix e ''https://'')" for es
    by (induction es) auto
  then show ?thesis by (simp add: hasHTTPSEndpoint_def)
qed

lemma bad_endpoint_None:
  "bad_endpoint es = None \<longleftrightarrow>
     (\<forall>e \<in> set es. HasPrefix e ''http://'' \<or> HasPrefix e ''https://'')"
  by (induction es) auto

lemma HasPrefix_trans: "HasPrefix s p \<Longrightarrow> HasPrefix s q \<Longrightarrow> HasPrefix p q \<or> HasPrefix q p"
  unfolding HasPrefix_iff by (auto simp: append_eq_append_conv2) 

text \<open>
  The promise behind the overlap test: no key is below both prefixes.
\<close>

lemma not_overlaps_disjoint:
  assumes "\<not> overlapsHeartbeat pathPrefix" and "pp = TrimSuffix pathPrefix ''/''"
  shows "\<not> (HasPrefix key (pp @ ''/'') \<and> HasPrefix key (HeartbeatKeyPrefix @ ''/''))"
  using assms HasPrefix_trans [of key "pp @ ''/''" "HeartbeatKeyPrefix @ ''/''"]
  by (auto simp: overlapsHeartbeat_def Let_def)

end
