(* ===== verification/Labels.thy ===== *)
theory Labels
  imports Config
begin

text \<open>
  \<^verbatim>\<open>internal/core/labels.go\<close>: \<open>ParseLabels\<close> turns a container's label map into labelled
  records, one per record kind and alias.  The loop over the label map and the one over the
  aggregations run in the map order \<open>ord\<close>.  \<open>label_target\<close> states what one label key means,
  \<open>label_spec\<close> the record a (kind, alias) pair gets when no two labels mean the same field.
\<close>

subsection \<open>The parser\<close>

record LabeledRecord =
  lrPrefix :: string
  lrKind :: RecordKind
  lrName :: string
  lrValue :: string
  lrAlias :: string
  lrForce :: "bool option"
  lrTTL :: "32 word option"

definition GetNameLabel :: "LabeledRecord \<Rightarrow> string" where
  "GetNameLabel lr =
     (if lrAlias lr = [] then lrPrefix lr @ ''.'' @ lrKind lr @ ''.name''
      else lrPrefix lr @ ''.'' @ lrKind lr @ ''.'' @ lrAlias lr @ ''.name'')"

definition GetValueLabel :: "LabeledRecord \<Rightarrow> string" where
  "GetValueLabel lr =
     (if lrAlias lr = [] then lrPrefix lr @ ''.'' @ lrKind lr @ ''.value''
      else lrPrefix lr @ ''.'' @ lrKind lr @ ''.'' @ lrAlias lr @ ''.value'')"

record ParsedLabels =
  Enabled :: bool
  ContainerForce :: bool
  Records :: "LabeledRecord list"

record aggregation =
  agKind :: RecordKind
  agAlias :: string
  agName :: string
  agValue :: string
  agForce :: "bool option"
  agTTL :: "32 word option"

definition boolFromLabel :: "string \<Rightarrow> bool" where
  "boolFromLabel v = EqualFold (TrimSpace v) ''true''"

definition ttlFromLabel :: "string \<Rightarrow> 32 word option" where
  "ttlFromLabel v = map_option word_of_nat (ParseUint 32 (TrimSpace v))"

text \<open>The final \<^verbatim>\<open>switch\<close> of the loop body, which stores a field of the aggregation.\<close>

definition setField :: "string \<Rightarrow> string \<Rightarrow> aggregation \<Rightarrow> aggregation" where
  "setField field v a =
     (if field = ''name'' then a\<lparr>agName := TrimSpace v\<rparr>
      else if field = ''value'' then a\<lparr>agValue := TrimSpace v\<rparr>
      else if field = ''force'' then a\<lparr>agForce := Some (boolFromLabel v)\<rparr>
      else if field = ''ttl'' then
        (case ttlFromLabel v of Some ttl \<Rightarrow> a\<lparr>agTTL := Some ttl\<rparr> | None \<Rightarrow> a)
      else a)"

definition newAggregation :: "RecordKind \<Rightarrow> string \<Rightarrow> aggregation" where
  "newAggregation kind alias =
     \<lparr>agKind = kind, agAlias = alias, agName = [], agValue = [], agForce = None, agTTL = None\<rparr>"

definition labelFields :: "string list" where
  "labelFields = [''name'', ''value'', ''force'', ''ttl'']"

text \<open>The body of the loop over the labels; every \<^verbatim>\<open>continue\<close> leaves the aggregations alone.\<close>

definition labelStep ::
  "string \<Rightarrow> string \<times> string \<Rightarrow> (string \<times> aggregation) list \<Rightarrow> (string \<times> aggregation) list"
where
  "labelStep prefix = (\<lambda>(k, v) aggregations.
     if \<not> HasPrefix k (prefix @ ''.'') then aggregations
     else let parts = Split (CHR ''.'') k in
       if length parts < 3 then aggregations
       else (case ParseKind (parts ! 1) of
           Inl err \<Rightarrow> aggregations
         | Inr kind \<Rightarrow>
             let (alias, keyIdx) = (if length parts \<ge> 4 then (parts ! 2, 3) else ([], 2)) in
             if keyIdx \<ge> length parts then aggregations
             else let field = parts ! keyIdx in
               if field \<notin> set labelFields then aggregations
               else
                 let labeledRecordKey = kind @ ''|'' @ alias;
                     a = (case map_of aggregations labeledRecordKey of
                            Some a \<Rightarrow> a | None \<Rightarrow> newAggregation kind alias)
                 in AList.update labeledRecordKey (setField field v a) aggregations))"

definition flatten :: "string \<Rightarrow> aggregation \<Rightarrow> LabeledRecord" where
  "flatten prefix a =
     \<lparr>lrPrefix = prefix, lrKind = agKind a, lrName = agName a, lrValue = agValue a,
      lrAlias = agAlias a, lrForce = agForce a, lrTTL = agTTL a\<rparr>"

definition ParseLabels :: "map_order \<Rightarrow> string \<Rightarrow> (string \<times> string) list \<Rightarrow> ParsedLabels" where
  "ParseLabels ord prefix labels =
     (let enabled = (case map_of labels (prefix @ ''.enabled'') of Some v \<Rightarrow> v | None \<Rightarrow> []);
          aggregations = fold (labelStep prefix) (range_map ord labels) []
      in \<lparr>Enabled = (ToLower enabled = ''true''),
          ContainerForce =
            (case map_of labels (prefix @ ''.force'') of
               Some v \<Rightarrow> ToLower v = ''true'' | None \<Rightarrow> False),
          Records = map (flatten prefix) (range_vals ord aggregations)\<rparr>)"

lemmas [go_eval] =
  GetNameLabel_def GetValueLabel_def boolFromLabel_def ttlFromLabel_def setField_def
  newAggregation_def labelFields_def labelStep_def flatten_def ParseLabels_def


subsection \<open>What a label key means\<close>

definition label_target :: "string \<Rightarrow> string \<Rightarrow> (RecordKind \<times> string \<times> string) option" where
  "label_target prefix k =
     (let parts = Split (CHR ''.'') k in
      if \<not> HasPrefix k (prefix @ ''.'') \<or> length parts < 3 then None
      else (case ParseKind (parts ! 1) of
          Inl err \<Rightarrow> None
        | Inr kind \<Rightarrow>
            let (alias, field) =
              (if length parts \<ge> 4 then (parts ! 2, parts ! 3) else ([], parts ! 2))
            in if field \<in> set labelFields then Some (kind, alias, field) else None))"

definition agg_key :: "RecordKind \<Rightarrow> string \<Rightarrow> string" where
  "agg_key kind alias = kind @ ''|'' @ alias"

lemma labelStep_target:
  "labelStep prefix (k, v) aggs =
     (case label_target prefix k of
        None \<Rightarrow> aggs
      | Some (kind, alias, field) \<Rightarrow>
          AList.update (agg_key kind alias)
            (setField field v (case map_of aggs (agg_key kind alias) of
               Some a \<Rightarrow> a | None \<Rightarrow> newAggregation kind alias)) aggs)"
  by (simp add: labelStep_def label_target_def agg_key_def Let_def split: sum.splits)

lemma label_target_kind:
  "label_target prefix k = Some (kind, alias, field) \<Longrightarrow>
   kind \<in> {RecordA, RecordAAAA, RecordCNAME} \<and> field \<in> set labelFields"
  by (auto simp: label_target_def Let_def ParseKind_def split: if_splits sum.splits prod.splits)

lemma agg_key_inj:
  assumes "kind \<in> {RecordA, RecordAAAA, RecordCNAME}"
    and "kind' \<in> {RecordA, RecordAAAA, RecordCNAME}"
  shows "agg_key kind alias = agg_key kind' alias' \<longleftrightarrow> kind = kind' \<and> alias = alias'"
  using assms by (auto simp: agg_key_def kind_defs)

text \<open>The labels of one (kind, alias) pair, and the aggregation they build up.\<close>

fun aimed :: "string \<Rightarrow> RecordKind \<Rightarrow> string \<Rightarrow> (string \<times> string) list \<Rightarrow> (string \<times> string) list"
where
  "aimed prefix kind al [] = []"
| "aimed prefix kind al ((k, v) # kvs) =
     (case label_target prefix k of
        None \<Rightarrow> aimed prefix kind al kvs
      | Some (kd, al', field) \<Rightarrow>
          if kd = kind \<and> al' = al then (field, v) # aimed prefix kind al kvs
          else aimed prefix kind al kvs)"

definition built :: "RecordKind \<Rightarrow> string \<Rightarrow> (string \<times> string) list \<Rightarrow> aggregation" where
  "built kind alias fvs = fold (\<lambda>(field, v). setField field v) fvs (newAggregation kind alias)"

lemma aimed_append: "aimed prefix kind al (xs @ ys) =
    aimed prefix kind al xs @ aimed prefix kind al ys"
  by (induction xs) (auto split: option.splits)

lemma aimed_mem:
  "(field, v) \<in> set (aimed prefix kind al kvs) \<longleftrightarrow>
     (\<exists>k. (k, v) \<in> set kvs \<and> label_target prefix k = Some (kind, al, field))"
proof (induction kvs)
  case (Cons kv kvs)
  obtain k w where kv: "kv = (k, w)" by (cases kv)
  show ?case
  proof (cases "label_target prefix k")
    case None
    with Cons show ?thesis by (auto simp: kv)
  next
    case (Some t)
    with Cons show ?thesis by (cases t) (auto simp: kv)
  qed
qed simp

definition known_kind :: "RecordKind \<Rightarrow> bool" where
  "known_kind kind \<longleftrightarrow> kind \<in> {RecordA, RecordAAAA, RecordCNAME}"

definition agg_inv ::
  "string \<Rightarrow> (string \<times> string) list \<Rightarrow> (string \<times> aggregation) list \<Rightarrow> bool"
where
  "agg_inv prefix ys aggs \<longleftrightarrow>
     distinct (map fst aggs) \<and>
     (\<forall>key. map_of aggs key \<noteq> None \<longrightarrow> (\<exists>kind alias. known_kind kind \<and> key = agg_key kind alias)) \<and>
     (\<forall>kind alias. known_kind kind \<longrightarrow>
        map_of aggs (agg_key kind alias) =
          (let fvs = aimed prefix kind alias ys
           in if fvs = [] then None else Some (built kind alias fvs)))"

lemma agg_inv_step:
  assumes "agg_inv prefix ys aggs"
  shows "agg_inv prefix (ys @ [kv]) (labelStep prefix kv aggs)"
proof (cases kv)
  case (Pair k v)
  show ?thesis
  proof (cases "label_target prefix k")
    case None
    with assms show ?thesis
      by (simp add: Pair agg_inv_def labelStep_target aimed_append)
  next
    case (Some t)
    then obtain kind al0 field where t: "label_target prefix k = Some (kind, al0, field)"
      by (cases t) auto
    then have kind: "known_kind kind" using label_target_kind by (auto simp: known_kind_def)
    let ?fvs = "aimed prefix kind al0 ys"
    have look: "map_of aggs (agg_key kind al0) =
        (if ?fvs = [] then None else Some (built kind al0 ?fvs))"
      using assms kind by (simp add: agg_inv_def Let_def)
    have step: "labelStep prefix (k, v) aggs =
        AList.update (agg_key kind al0) (built kind al0 (?fvs @ [(field, v)])) aggs"
      by (simp add: labelStep_target t look built_def)
    have "map_of (labelStep prefix kv aggs) (agg_key kd al) =
        (let fvs = aimed prefix kd al (ys @ [kv])
         in if fvs = [] then None else Some (built kd al fvs))" if "known_kind kd" for kd al
    proof (cases "kd = kind \<and> al = al0")
      case True
      then show ?thesis
        by (simp add: step gomap_simps Pair aimed_append t)
    next
      case False
      then have "agg_key kd al \<noteq> agg_key kind al0"
        using that kind agg_key_inj by (simp add: known_kind_def)
      moreover have "aimed prefix kd al (ys @ [kv]) = aimed prefix kd al ys"
        using False by (auto simp: Pair aimed_append t)
      ultimately show ?thesis
        using assms that by (simp add: Pair step gomap_simps agg_inv_def)
    qed
    then show ?thesis
      using assms kind unfolding agg_inv_def Pair step by (auto simp: gomap_simps wf_intros)
  qed
qed

lemma agg_inv_final:
  "agg_inv prefix (range_map ord labels) (fold (labelStep prefix) (range_map ord labels) [])"
proof (rule fold_inv)
  show "agg_inv prefix [] []" by (simp add: agg_inv_def)
qed (rule agg_inv_step)


subsection \<open>The records of a label map\<close>

lemma aimed_not_Nil:
  "aimed prefix kind al kvs \<noteq> [] \<longleftrightarrow>
     (\<exists>k v field. (k, v) \<in> set kvs \<and> label_target prefix k = Some (kind, al, field))"
proof -
  have "aimed prefix kind al kvs \<noteq> [] \<longleftrightarrow> (\<exists>field v. (field, v) \<in> set (aimed prefix kind al kvs))"
    by (cases "aimed prefix kind al kvs") auto
  then show ?thesis by (auto simp: aimed_mem)
qed

lemma built_kind: "agKind (built kind al fvs) = kind \<and> agAlias (built kind al fvs) = al"
proof -
  have "agKind (fold (\<lambda>(field, v). setField field v) fvs a) = agKind a \<and>
      agAlias (fold (\<lambda>(field, v). setField field v) fvs a) = agAlias a" for a
    by (induction fvs arbitrary: a) (auto simp: setField_def split: option.splits)
  then show ?thesis by (simp add: built_def newAggregation_def)
qed

lemma agg_lookup:
  assumes "agg_inv prefix kvs aggs" and "map_of aggs key = Some a"
  shows "\<exists>kind al. known_kind kind \<and> key = agg_key kind al \<and> aimed prefix kind al kvs \<noteq> [] \<and>
    a = built kind al (aimed prefix kind al kvs)"
proof -
  obtain kind al where "known_kind kind" and key: "key = agg_key kind al"
    using assms unfolding agg_inv_def by blast
  then have "map_of aggs key =
      (let fvs = aimed prefix kind al kvs in if fvs = [] then None else Some (built kind al fvs))"
    using assms(1) unfolding agg_inv_def by blast
  with assms(2) have "aimed prefix kind al kvs \<noteq> []"
    and "a = built kind al (aimed prefix kind al kvs)"
    by (auto simp: Let_def split: if_splits)
  with \<open>known_kind kind\<close> key show ?thesis by blast
qed

lemma ParseLabels_Records:
  assumes "is_order ord"
  shows "set (Records (ParseLabels ord prefix labels)) =
     {flatten prefix (built kind al (aimed prefix kind al (range_map ord labels))) | kind al.
        known_kind kind \<and> aimed prefix kind al (range_map ord labels) \<noteq> []}"
    (is "?records = ?spec")
proof
  let ?kvs = "range_map ord labels"
  let ?aggs = "fold (labelStep prefix) ?kvs []"
  have inv: "agg_inv prefix ?kvs ?aggs" by (rule agg_inv_final)
  then have dist: "distinct (map fst ?aggs)" by (simp add: agg_inv_def)
  have mem: "set (range_vals ord ?aggs) = {a. \<exists>key. map_of ?aggs key = Some a}"
    using assms dist by (force simp: gomap_simps map_of_set_conv [symmetric])
  have records: "?records = flatten prefix ` set (range_vals ord ?aggs)"
    by (simp add: ParseLabels_def Let_def)
  show "?records \<subseteq> ?spec"
    unfolding records mem using agg_lookup [OF inv] by blast
  show "?spec \<subseteq> ?records"
  proof
    fix lr assume "lr \<in> ?spec"
    then obtain kind al where k: "known_kind kind" "aimed prefix kind al ?kvs \<noteq> []"
      and lr: "lr = flatten prefix (built kind al (aimed prefix kind al ?kvs))" by blast
    have "map_of ?aggs (agg_key kind al) = Some (built kind al (aimed prefix kind al ?kvs))"
      using inv k by (simp add: agg_inv_def Let_def)
    then show "lr \<in> ?records" unfolding records mem lr by blast
  qed
qed

lemma ParseLabels_distinct:
  assumes "is_order ord"
  shows "distinct (map (\<lambda>lr. (lrKind lr, lrAlias lr)) (Records (ParseLabels ord prefix labels)))"
proof -
  let ?kvs = "range_map ord labels"
  let ?aggs = "fold (labelStep prefix) ?kvs []"
  have inv: "agg_inv prefix ?kvs ?aggs" by (rule agg_inv_final)
  then have dist: "distinct (map fst ?aggs)" by (simp add: agg_inv_def)
  have "fst ka = agg_key (agKind (snd ka)) (agAlias (snd ka))" if "ka \<in> set (range_map ord ?aggs)" for ka
  proof -
    have "map_of ?aggs (fst ka) = Some (snd ka)"
      using that assms dist by (simp add: set_range_map map_of_set_conv [symmetric])
    from agg_lookup [OF inv this] show ?thesis by (auto simp: built_kind)
  qed
  then have "map (\<lambda>a. agg_key (agKind a) (agAlias a)) (range_vals ord ?aggs) =
      map fst (range_map ord ?aggs)"
    by (auto simp: range_vals_def)
  moreover have "mset (map fst (range_map ord ?aggs)) = mset (map fst ?aggs)"
    by (simp add: mset_range_map assms dist)
  ultimately have "distinct (map (\<lambda>a. agg_key (agKind a) (agAlias a)) (range_vals ord ?aggs))"
    using dist by (metis mset_eq_imp_distinct_iff)
  then have d: "distinct (range_vals ord ?aggs)"
    and inj: "inj_on (\<lambda>a. agg_key (agKind a) (agAlias a)) (set (range_vals ord ?aggs))"
    by (simp_all add: distinct_map)
  from inj have "inj_on (\<lambda>a. (agKind a, agAlias a)) (set (range_vals ord ?aggs))"
    by (rule inj_on_pair)
  with d have "distinct (map (\<lambda>a. (agKind a, agAlias a)) (range_vals ord ?aggs))"
    by (simp add: distinct_map)
  then show ?thesis by (simp add: ParseLabels_def Let_def flatten_def o_def)
qed

text \<open>
  Labels are unambiguous when no two of them mean the same field of the same record, as
  \<^verbatim>\<open>coredns.a.name\<close> and \<^verbatim>\<open>coredns.A.name\<close> do.  The record of a (kind, alias) pair is then
  determined by the labels, whatever the map order.
\<close>

definition unambiguous :: "string \<Rightarrow> (string \<times> string) list \<Rightarrow> bool" where
  "unambiguous prefix labels \<longleftrightarrow>
     (\<forall>k \<in> fst ` set labels. \<forall>k' \<in> fst ` set labels.
        label_target prefix k \<noteq> None \<and> label_target prefix k = label_target prefix k' \<longrightarrow> k = k')"

definition described :: "RecordKind \<Rightarrow> string \<Rightarrow> (string \<times> string) list \<Rightarrow> aggregation" where
  "described kind al fvs =
     \<lparr>agKind = kind, agAlias = al,
      agName = (case map_of fvs ''name'' of Some v \<Rightarrow> TrimSpace v | None \<Rightarrow> []),
      agValue = (case map_of fvs ''value'' of Some v \<Rightarrow> TrimSpace v | None \<Rightarrow> []),
      agForce = map_option boolFromLabel (map_of fvs ''force''),
      agTTL = Option.bind (map_of fvs ''ttl'') ttlFromLabel\<rparr>"

definition label_spec ::
  "string \<Rightarrow> (string \<times> string) list \<Rightarrow> RecordKind \<Rightarrow> string \<Rightarrow> LabeledRecord"
where
  "label_spec prefix labels kind al =
     flatten prefix (described kind al (aimed prefix kind al labels))"

lemma setField_described:
  assumes "field \<notin> fst ` set fvs"
  shows "setField field v (described kind al fvs) = described kind al ((field, v) # fvs)"
proof -
  have "map_of fvs field = None" using assms by (simp add: map_of_eq_None_iff)
  then show ?thesis by (auto simp: setField_def described_def split: option.splits)
qed

lemma described_cong:
  assumes "set fvs = set fvs'" and "distinct (map fst fvs)" and "distinct (map fst fvs')"
  shows "described kind al fvs = described kind al fvs'"
proof -
  have "map_of fvs = map_of fvs'" using assms by (simp add: map_of_inject_set)
  then show ?thesis by (simp add: described_def)
qed

lemma built_described:
  "distinct (map fst fvs) \<Longrightarrow> built kind al fvs = described kind al fvs"
proof (induction fvs rule: rev_induct)
  case Nil
  then show ?case by (simp add: built_def described_def newAggregation_def)
next
  case (snoc fv fvs)
  obtain field v where fv: "fv = (field, v)" by (cases fv)
  have "built kind al (fvs @ [fv]) = setField field v (built kind al fvs)"
    by (simp add: built_def fv)
  also have "\<dots> = described kind al ((field, v) # fvs)"
    using snoc by (simp add: fv setField_described)
  also have "\<dots> = described kind al (fvs @ [fv])"
    using snoc.prems by (intro described_cong) (auto simp: fv)
  finally show ?case .
qed

lemma unambiguous_mono:
  assumes "unambiguous prefix kvs'" and "fst ` set kvs \<subseteq> fst ` set kvs'"
  shows "unambiguous prefix kvs"
  unfolding unambiguous_def
proof (intro ballI)
  fix k k'
  assume "k \<in> fst ` set kvs" and "k' \<in> fst ` set kvs"
  with assms(2) have "k \<in> fst ` set kvs'" and "k' \<in> fst ` set kvs'" by blast+
  then show "label_target prefix k \<noteq> None \<and>
      label_target prefix k = label_target prefix k' \<longrightarrow> k = k'"
    by (rule bspec [OF bspec [OF assms(1) [unfolded unambiguous_def]]])
qed

lemma unambiguous_aimed:
  "unambiguous prefix kvs \<Longrightarrow> distinct (map fst kvs) \<Longrightarrow>
   distinct (map fst (aimed prefix kind al kvs))"
proof (induction kvs)
  case (Cons kv kvs)
  obtain k v where kv: "kv = (k, v)" by (cases kv)
  have IH: "distinct (map fst (aimed prefix kind al kvs))"
  proof (rule Cons.IH)
    show "unambiguous prefix kvs" using Cons.prems(1) by (rule unambiguous_mono) auto
  qed (use Cons.prems(2) in simp)
  have "field \<notin> fst ` set (aimed prefix kind al kvs)"
    if t: "label_target prefix k = Some (kind, al, field)" for field
  proof
    assume "field \<in> fst ` set (aimed prefix kind al kvs)"
    then obtain k' v' where k': "(k', v') \<in> set kvs" "label_target prefix k' = Some (kind, al, field)"
      by (auto simp: aimed_mem)
    then have "k = k'"
      using Cons.prems(1) t by (fastforce simp: unambiguous_def kv)
    with k'(1) Cons.prems(2) show False by (force simp: kv)
  qed
  with IH show ?case by (auto simp: kv split: option.splits)
qed simp

lemma ParseLabels_spec:
  assumes ord: "is_order ord" and dist: "distinct (map fst labels)"
    and unamb: "unambiguous prefix labels"
  shows "set (Records (ParseLabels ord prefix labels)) =
     {label_spec prefix labels kind al | kind al.
        \<exists>k v field. (k, v) \<in> set labels \<and> label_target prefix k = Some (kind, al, field)}"
proof -
  let ?kvs = "range_map ord labels"
  have set: "set ?kvs = set labels" using ord dist by (rule set_range_map)
  have "distinct (map fst ?kvs)"
    using mset_range_map [OF ord dist] dist by (metis mset_eq_imp_distinct_iff mset_map)
  moreover have "unambiguous prefix ?kvs" using unamb by (simp add: unambiguous_def set)
  ultimately have d: "distinct (map fst (aimed prefix kind al ?kvs))" for kind al
    by (intro unambiguous_aimed)
  have "set (aimed prefix kind al ?kvs) = set (aimed prefix kind al labels)" for kind al
    by (auto simp: aimed_mem set)
  then have "built kind al (aimed prefix kind al ?kvs) =
      described kind al (aimed prefix kind al labels)" for kind al
    using d unambiguous_aimed [OF unamb dist] by (simp add: built_described cong: described_cong)
  moreover have "known_kind kind \<and> aimed prefix kind al ?kvs \<noteq> [] \<longleftrightarrow>
      (\<exists>k v field. (k, v) \<in> set labels \<and> label_target prefix k = Some (kind, al, field))" for kind al
    unfolding aimed_not_Nil set known_kind_def using label_target_kind by blast
  ultimately show ?thesis
    unfolding ParseLabels_Records [OF ord] label_spec_def by simp
qed

end
