(* ===== verification/Record_Builder.thy ===== *)
theory Record_Builder
  imports Labels
begin

text \<open>
  \<^verbatim>\<open>internal/core/record_builder.go\<close>: the record intents of a container event.  A
  \<^verbatim>\<open>continue\<close> of the loop drops the labelled record.  Log output is not modelled.
\<close>

text \<open>The value after the fallback for an empty one; \<open>None\<close> is the \<^verbatim>\<open>continue\<close>.\<close>

definition fallbackValue :: "AppConfig \<Rightarrow> LabeledRecord \<Rightarrow> string option" where
  "fallbackValue cfg lr =
     (let value = TrimSpace (lrValue lr) in
      if value = [] then
        (if lrKind lr = RecordA then
           (if HostIPv4 cfg = [] then None else Some (HostIPv4 cfg))
         else if lrKind lr = RecordAAAA then
           (if HostIPv6 cfg = [] then None else Some (HostIPv6 cfg))
         else if lrKind lr = RecordCNAME then None
         else Some value)
      else Some value)"

definition buildIntent ::
  "AppConfig \<Rightarrow> Container \<Rightarrow> bool \<Rightarrow> LabeledRecord \<Rightarrow> RecordIntent option"
where
  "buildIntent cfg container containerForce lr =
     (if TrimSpace (lrName lr) = [] then None
      else (case fallbackValue cfg lr of
          None \<Rightarrow> None
        | Some value \<Rightarrow>
            (case NewFromKind (lrKind lr) (lrName lr) value of
               Inl err \<Rightarrow> None
             | Inr rec \<Rightarrow>
                 let force = (case lrForce lr of Some f \<Rightarrow> f | None \<Rightarrow> containerForce);
                     ttl = (case lrTTL lr of Some t \<Rightarrow> t | None \<Rightarrow> RecordTTL cfg)
                 in Some \<lparr>ContainerId = Id container,
                          ContainerName = ContName container,
                          Created = ContCreated container,
                          Hostname = AppHostname cfg,
                          Force = force,
                          TTL = ttl,
                          Rec = rec\<rparr>)))"

definition GetContainerRecordIntents ::
  "map_order \<Rightarrow> ContainerEvent \<Rightarrow> AppConfig \<Rightarrow> RecordIntent list"
where
  "GetContainerRecordIntents ord event cfg =
     (let parsedLabels = ParseLabels ord (DockerLabelPrefix cfg) (Labels (Container event)) in
      if \<not> Enabled parsedLabels then []
      else List.map_filter
             (buildIntent cfg (Container event) (ContainerForce parsedLabels))
             (Records parsedLabels))"

lemmas [go_eval] = fallbackValue_def buildIntent_def GetContainerRecordIntents_def


subsection \<open>What an intent looks like\<close>

lemma buildIntent_Some:
  assumes "buildIntent cfg c cf lr = Some ri"
  shows "record_ok (Rec ri)" and "Kind (Rec ri) = lrKind lr" and "Name (Rec ri) = lrName lr"
    and "ContainerId ri = Id c" and "ContainerName ri = ContName c" and "Created ri = ContCreated c"
    and "Hostname ri = AppHostname cfg"
    and "Force ri = (case lrForce lr of Some f \<Rightarrow> f | None \<Rightarrow> cf)"
    and "TTL ri = (case lrTTL lr of Some t \<Rightarrow> t | None \<Rightarrow> RecordTTL cfg)"
    and "fallbackValue cfg lr = Some (Value (Rec ri))"
  using assms
  by (auto simp: buildIntent_def Let_def NewFromKind_iff split: if_splits option.splits sum.splits)

lemma buildIntent_iff:
  "buildIntent cfg c cf lr \<noteq> None \<longleftrightarrow>
     TrimSpace (lrName lr) \<noteq> [] \<and>
     (\<exists>value. fallbackValue cfg lr = Some value \<and>
        record_ok \<lparr>Name = lrName lr, Kind = lrKind lr, Value = value\<rparr>)"
proof (cases "fallbackValue cfg lr")
  case (Some v)
  show ?thesis
  proof (cases "NewFromKind (lrKind lr) (lrName lr) v")
    case (Inl err)
    then have "\<not> record_ok \<lparr>Name = lrName lr, Kind = lrKind lr, Value = v\<rparr>"
      using NewFromKind_iff [of "lrKind lr" "lrName lr" v] by (metis Inl_Inr_False)
    with Some Inl show ?thesis by (simp add: buildIntent_def)
  next
    case (Inr rec)
    then have "record_ok \<lparr>Name = lrName lr, Kind = lrKind lr, Value = v\<rparr>"
      by (auto simp: NewFromKind_iff)
    with Some Inr show ?thesis by (simp add: buildIntent_def Let_def)
  qed
qed (simp add: buildIntent_def)

lemma set_map_filter: "set (List.map_filter f xs) = {y. \<exists>x \<in> set xs. f x = Some y}"
  by (force simp: map_filter_def)

lemma intents_mem:
  "ri \<in> set (GetContainerRecordIntents ord event cfg) \<longleftrightarrow>
     (let pl = ParseLabels ord (DockerLabelPrefix cfg) (Labels (Container event)) in
      Enabled pl \<and>
      (\<exists>lr \<in> set (Records pl). buildIntent cfg (Container event) (ContainerForce pl) lr = Some ri))"
  by (simp add: GetContainerRecordIntents_def Let_def set_map_filter)

end
