(* ===== verification/Nested_Maps.thy ===== *)
theory Nested_Maps
  imports Util Domain
begin

text \<open>
  \<^verbatim>\<open>internal/core/nested_maps.go\<close>: records by name, kind and value, three \<open>DefaultMap\<close>s deep.
  The inner maps are reached only through the outer ones, so storing the changed inner map
  back is what Go's update through the pointer does.  \<open>record_index\<close> is the interface the
  reconciler relies on, with the lookup function \<open>look\<close> as its abstract state; \<open>ix\<close> is its
  interpretation.
\<close>

subsection \<open>The maps\<close>

type_synonym recordMap = "RecordIntent DefaultMap"
type_synonym kindMap = "recordMap DefaultMap"
type_synonym nestedRecordMap = "kindMap DefaultMap"

text \<open>
  The factory of the innermost map returns nil in Go.  It never runs: the program reaches a
  \<open>recordMap\<close> by \<open>Peek\<close>, \<open>Set\<close>, \<open>Delete\<close> and \<open>Values\<close> only.  A zero intent stands in.
\<close>

definition zeroIntent :: RecordIntent where
  "zeroIntent =
     \<lparr>ContainerId = [], ContainerName = [], Created = zeroTime, Hostname = [], Force = False,
      TTL = 0, Rec = \<lparr>Name = [], Kind = [], Value = []\<rparr>\<rparr>"

definition newRecordMap :: recordMap where
  "newRecordMap = NewDefaultMap zeroIntent"

definition newKindMap :: kindMap where
  "newKindMap = NewDefaultMap newRecordMap"

definition newNestedRecordMap :: nestedRecordMap where
  "newNestedRecordMap = NewDefaultMap newKindMap"

definition GetAllValues :: "map_order \<Rightarrow> nestedRecordMap \<Rightarrow> RecordIntent list" where
  "GetAllValues ord m =
     concat (map (\<lambda>kindMap. concat (map (Values ord) (Values ord kindMap))) (Values ord m))"

definition GetAllNames :: "map_order \<Rightarrow> nestedRecordMap \<Rightarrow> string list" where
  "GetAllNames ord m = Keys ord m"

text \<open>The slice and the flag of \<^verbatim>\<open>PeekNameKindRecords\<close>: \<open>None\<close> when the flag is false.\<close>

definition PeekNameKindRecords ::
  "map_order \<Rightarrow> nestedRecordMap \<Rightarrow> string \<Rightarrow> RecordKind \<Rightarrow> RecordIntent list option"
where
  "PeekNameKindRecords ord m name kind =
     (case Peek m name of
        None \<Rightarrow> None
      | Some kindMap \<Rightarrow>
          (case Peek kindMap kind of
             None \<Rightarrow> None
           | Some recordMap \<Rightarrow> Some (Values ord recordMap)))"

definition PeekNameKindRecord ::
  "nestedRecordMap \<Rightarrow> string \<Rightarrow> RecordKind \<Rightarrow> string \<Rightarrow> RecordIntent option"
where
  "PeekNameKindRecord m name kind value =
     (case Peek m name of
        None \<Rightarrow> None
      | Some kindMap \<Rightarrow>
          (case Peek kindMap kind of
             None \<Rightarrow> None
           | Some recordMap \<Rightarrow> Peek recordMap value))"

text \<open>The call chains \<^verbatim>\<open>m.Get(name).Get(kind).Set(value, ri)\<close> and \<^verbatim>\<open>....Delete(value)\<close>.\<close>

definition modify ::
  "nestedRecordMap \<Rightarrow> string \<Rightarrow> RecordKind \<Rightarrow> (recordMap \<Rightarrow> recordMap) \<Rightarrow> nestedRecordMap"
where
  "modify m name kind f =
     (let (kindMap, m') = Get m name;
          (recordMap, kindMap') = Get kindMap kind
      in Set m' name (Set kindMap' kind (f recordMap)))"

definition nestedSet ::
  "nestedRecordMap \<Rightarrow> string \<Rightarrow> RecordKind \<Rightarrow> string \<Rightarrow> RecordIntent \<Rightarrow> nestedRecordMap"
where
  "nestedSet m name kind value ri = modify m name kind (\<lambda>r. Set r value ri)"

definition nestedDelete ::
  "nestedRecordMap \<Rightarrow> string \<Rightarrow> RecordKind \<Rightarrow> string \<Rightarrow> nestedRecordMap"
where
  "nestedDelete m name kind value = modify m name kind (\<lambda>r. Delete r value)"

lemmas [go_eval] =
  zeroIntent_def newRecordMap_def newKindMap_def newNestedRecordMap_def GetAllValues_def
  GetAllNames_def PeekNameKindRecords_def PeekNameKindRecord_def modify_def nestedSet_def
  nestedDelete_def


subsection \<open>The interface of the record index\<close>

text \<open>
  \<open>look m n k v\<close> is the record stored at name, kind and value; \<open>has m n k\<close> says that the map
  of the kind exists.  In a well-formed index (\<open>ok\<close>) that map is not empty, which is what makes
  the reconciler's \<^verbatim>\<open>cnames[0]\<close> safe.
\<close>

locale record_index =
  fixes look :: "'m \<Rightarrow> string \<Rightarrow> RecordKind \<Rightarrow> string \<Rightarrow> RecordIntent option"
    and ok :: "'m \<Rightarrow> bool"
    and empty :: 'm
    and put :: "'m \<Rightarrow> string \<Rightarrow> RecordKind \<Rightarrow> string \<Rightarrow> RecordIntent \<Rightarrow> 'm"
    and swap :: "'m \<Rightarrow> string \<Rightarrow> RecordKind \<Rightarrow> string \<Rightarrow> string \<Rightarrow> RecordIntent \<Rightarrow> 'm"
    and recs :: "map_order \<Rightarrow> 'm \<Rightarrow> string \<Rightarrow> RecordKind \<Rightarrow> RecordIntent list option"
    and names :: "map_order \<Rightarrow> 'm \<Rightarrow> string list"
    and all :: "map_order \<Rightarrow> 'm \<Rightarrow> RecordIntent list"
  assumes ok_empty: "ok empty"
    and ok_put: "ok m \<Longrightarrow> ok (put m n k v r)"
    and ok_swap: "ok m \<Longrightarrow> ok (swap m n k v v' r)"
    and look_empty: "look empty n k v = None"
    and look_put: "ok m \<Longrightarrow> look (put m n k v r) n' k' v' =
      (if n' = n \<and> k' = k \<and> v' = v then Some r else look m n' k' v')"
    and look_swap: "ok m \<Longrightarrow> look (swap m n k v v' r) n' k' w =
      (if n' = n \<and> k' = k \<and> w = v' then Some r
       else if n' = n \<and> k' = k \<and> w = v then None else look m n' k' w)"
    and recs_None: "ok m \<Longrightarrow> recs ord m n k = None \<longleftrightarrow> (\<forall>v. look m n k v = None)"
    and recs_Some: "is_order ord \<Longrightarrow> ok m \<Longrightarrow> recs ord m n k = Some rs \<Longrightarrow>
      set rs = {r. \<exists>v. look m n k v = Some r}"
    and set_names: "is_order ord \<Longrightarrow> ok m \<Longrightarrow>
      set (names ord m) = {n. \<exists>k v. look m n k v \<noteq> None}"
    and distinct_names: "is_order ord \<Longrightarrow> ok m \<Longrightarrow> distinct (names ord m)"
    and set_all: "is_order ord \<Longrightarrow> ok m \<Longrightarrow> set (all ord m) = {r. \<exists>n k v. look m n k v = Some r}"
begin

lemma recs_not_Nil: "is_order ord \<Longrightarrow> ok m \<Longrightarrow> recs ord m n k = Some rs \<Longrightarrow> rs \<noteq> []"
proof
  assume a: "is_order ord" "ok m" "recs ord m n k = Some rs" and "rs = []"
  then have "\<forall>v. look m n k v = None" using recs_Some [OF a] by (auto intro: ccontr)
  then show False using recs_None [OF a(2), of ord n k] a(3) by simp
qed

lemma recs_first:
  assumes "is_order ord" and "ok m" and "recs ord m n k = Some rs"
  shows "\<exists>r. index0 rs = Some r \<and> (\<exists>v. look m n k v = Some r)"
proof -
  obtain r rs' where rs: "rs = r # rs'"
    using recs_not_Nil [OF assms] by (cases rs) auto
  with recs_Some [OF assms] have "\<exists>v. look m n k v = Some r" by auto
  with rs show ?thesis by simp
qed

text \<open>When at most one record is stored under a name and kind, it is the first of the slice.\<close>

lemma recs_unique:
  assumes "is_order ord" and "ok m" and "look m n k v = Some r"
    and "\<And>v' r'. look m n k v' = Some r' \<Longrightarrow> r' = r"
  shows "\<exists>rs. recs ord m n k = Some rs \<and> index0 rs = Some r \<and> set rs = {r}"
proof -
  obtain rs where rs: "recs ord m n k = Some rs"
    using recs_None [OF assms(2), of ord n k] assms(3) by auto
  have "set rs = {r'. \<exists>v. look m n k v = Some r'}" by (rule recs_Some [OF assms(1,2) rs])
  also have "\<dots> = {r}" using assms(3,4) by blast
  finally have "set rs = {r}" .
  moreover obtain r' where "index0 rs = Some r'" and "\<exists>v. look m n k v = Some r'"
    using recs_first [OF assms(1,2) rs] by blast
  ultimately show ?thesis using rs assms(4) by blast
qed

end


subsection \<open>The nested maps provide it\<close>

text \<open>
  The shape all operations keep (\<open>nested_wf\<close>), and that no inner map is empty (\<open>nested_ok\<close>): a
  delete alone may break the latter, the delete with the set that follows it does not.
\<close>

definition kind_wf :: "kindMap \<Rightarrow> bool" where
  "kind_wf km \<longleftrightarrow> dm_wf km \<and> factory km = newRecordMap \<and> (\<forall>k rm. Peek km k = Some rm \<longrightarrow> dm_wf rm)"

definition nested_wf :: "nestedRecordMap \<Rightarrow> bool" where
  "nested_wf m \<longleftrightarrow> dm_wf m \<and> factory m = newKindMap \<and> (\<forall>n km. Peek m n = Some km \<longrightarrow> kind_wf km)"

definition nested_ok :: "nestedRecordMap \<Rightarrow> bool" where
  "nested_ok m \<longleftrightarrow> nested_wf m \<and>
     (\<forall>n km. Peek m n = Some km \<longrightarrow> (\<exists>k. Peek km k \<noteq> None)) \<and>
     (\<forall>n km k rm. Peek m n = Some km \<longrightarrow> Peek km k = Some rm \<longrightarrow> (\<exists>v. Peek rm v \<noteq> None))"

definition kind_at :: "nestedRecordMap \<Rightarrow> string \<Rightarrow> kindMap" where
  "kind_at m n = (case Peek m n of Some km \<Rightarrow> km | None \<Rightarrow> newKindMap)"

definition record_at :: "nestedRecordMap \<Rightarrow> string \<Rightarrow> RecordKind \<Rightarrow> recordMap" where
  "record_at m n k = (case Peek (kind_at m n) k of Some rm \<Rightarrow> rm | None \<Rightarrow> newRecordMap)"

lemma kind_wf_New [wf_intros, simp]: "kind_wf newKindMap"
  by (simp add: kind_wf_def newKindMap_def)

lemma kind_wf_at [wf_intros]: "nested_wf m \<Longrightarrow> kind_wf (kind_at m n)"
  by (auto simp: nested_wf_def kind_at_def split: option.splits)

lemma dm_wf_record_at [wf_intros]: "nested_wf m \<Longrightarrow> dm_wf (record_at m n k)"
  using kind_wf_at [of m n]
  by (auto simp: record_at_def kind_wf_def newRecordMap_def split: option.splits)

lemma PeekNameKindRecord_at: "PeekNameKindRecord m n k v = Peek (record_at m n k) v"
  by (auto simp: PeekNameKindRecord_def record_at_def kind_at_def newKindMap_def newRecordMap_def
      split: option.splits)

lemma PeekNameKindRecord_Some:
  "PeekNameKindRecord m n k v = Some r \<longleftrightarrow>
     (\<exists>km rm. Peek m n = Some km \<and> Peek km k = Some rm \<and> Peek rm v = Some r)"
  by (simp add: PeekNameKindRecord_def split: option.splits)

lemma modifyE:
  assumes "nested_wf m"
  obtains km where "Peek (modify m n k f) n = Some km"
    and "\<And>n'. n' \<noteq> n \<Longrightarrow> Peek (modify m n k f) n' = Peek m n'"
    and "Peek km k = Some (f (record_at m n k))"
    and "\<And>k'. k' \<noteq> k \<Longrightarrow> Peek km k' = Peek (kind_at m n) k'"
    and "dm_wf km" and "factory km = newRecordMap"
    and "dm_wf (modify m n k f)" and "factory (modify m n k f) = newKindMap"
proof -
  have m: "dm_wf m" "factory m = newKindMap" using assms by (simp_all add: nested_wf_def)
  have k: "dm_wf (kind_at m n)" "factory (kind_at m n) = newRecordMap"
    using kind_wf_at [OF assms, of n] by (simp_all add: kind_wf_def)
  obtain m' where m': "Get m n = (case Peek m n of Some v \<Rightarrow> v | None \<Rightarrow> factory m, m')"
    "\<And>n'. n' \<noteq> n \<Longrightarrow> Peek m' n' = Peek m n'" "factory m' = factory m" "dm_wf m \<Longrightarrow> dm_wf m'"
    by (rule GetE [of m n]) blast
  have m1: "Get m n = (kind_at m n, m')" by (simp add: m'(1) kind_at_def m split: option.split)
  obtain km' where km': "Get (kind_at m n) k =
      (case Peek (kind_at m n) k of Some v \<Rightarrow> v | None \<Rightarrow> factory (kind_at m n), km')"
    "\<And>k'. k' \<noteq> k \<Longrightarrow> Peek km' k' = Peek (kind_at m n) k'"
    "factory km' = factory (kind_at m n)" "dm_wf (kind_at m n) \<Longrightarrow> dm_wf km'"
    by (rule GetE [of "kind_at m n" k]) blast
  have k1: "Get (kind_at m n) k = (record_at m n k, km')" by (simp add: km'(1) record_at_def k split: option.split)
  have "modify m n k f = Set m' n (Set km' k (f (record_at m n k)))"
    by (simp add: modify_def m1 k1)
  then show ?thesis
    by (rule_tac that [of "Set km' k (f (record_at m n k))"])
      (simp_all add: dm.peek_put m'(2-4) km'(2-4) dm.wf_put m k)
qed

lemma record_at_modify:
  assumes "nested_wf m"
  shows "record_at (modify m n k f) n' k' =
    (if n' = n \<and> k' = k then f (record_at m n k) else record_at m n' k')"
proof -
  obtain km where km: "Peek (modify m n k f) n = Some km"
    "\<And>n'. n' \<noteq> n \<Longrightarrow> Peek (modify m n k f) n' = Peek m n'"
    "Peek km k = Some (f (record_at m n k))"
    "\<And>k'. k' \<noteq> k \<Longrightarrow> Peek km k' = Peek (kind_at m n) k'"
    using assms by (rule modifyE [of m n k f]) blast
  show ?thesis
    by (cases "n' = n"; cases "k' = k") (simp_all add: record_at_def kind_at_def km)
qed

lemma nested_wf_modify [wf_intros]:
  assumes "nested_wf m" and "\<And>r. dm_wf r \<Longrightarrow> dm_wf (f r)"
  shows "nested_wf (modify m n k f)"
proof -
  obtain km where km: "Peek (modify m n k f) n = Some km"
    "\<And>n'. n' \<noteq> n \<Longrightarrow> Peek (modify m n k f) n' = Peek m n'"
    "Peek km k = Some (f (record_at m n k))"
    "\<And>k'. k' \<noteq> k \<Longrightarrow> Peek km k' = Peek (kind_at m n) k'"
    "dm_wf km" "factory km = newRecordMap"
    "dm_wf (modify m n k f)" "factory (modify m n k f) = newKindMap"
    using assms(1) by (rule modifyE [of m n k f]) blast
  have "kind_wf km"
    unfolding kind_wf_def
  proof (intro conjI allI impI)
    fix k' rm assume "Peek km k' = Some rm"
    then show "dm_wf rm"
      using km assms kind_wf_at [OF assms(1), of n] dm_wf_record_at [OF assms(1)]
      by (cases "k' = k") (auto simp: kind_wf_def)
  qed (fact km)+
  show ?thesis
    unfolding nested_wf_def
  proof (intro conjI allI impI)
    fix n' km' assume "Peek (modify m n k f) n' = Some km'"
    then show "kind_wf km'"
      using km(1,2) \<open>kind_wf km\<close> assms(1) by (cases "n' = n") (auto simp: nested_wf_def)
  qed (fact km)+
qed

text \<open>The lookups: an update changes one of them, and no other inner map appears.\<close>

lemma look_modify:
  "nested_wf m \<Longrightarrow>
   PeekNameKindRecord (modify m n k f) n' k' v =
     (if n' = n \<and> k' = k then Peek (f (record_at m n k)) v else PeekNameKindRecord m n' k' v)"
  by (simp add: PeekNameKindRecord_at record_at_modify)

lemma look_nestedSet:
  "nested_wf m \<Longrightarrow>
   PeekNameKindRecord (nestedSet m n k v r) n' k' v' =
     (if n' = n \<and> k' = k \<and> v' = v then Some r else PeekNameKindRecord m n' k' v')"
  by (auto simp: nestedSet_def look_modify dm.peek_put simp flip: PeekNameKindRecord_at)

lemma look_nestedDelete:
  "nested_wf m \<Longrightarrow>
   PeekNameKindRecord (nestedDelete m n k v) n' k' v' =
     (if n' = n \<and> k' = k \<and> v' = v then None else PeekNameKindRecord m n' k' v')"
  by (auto simp: nestedDelete_def look_modify dm.peek_del simp flip: PeekNameKindRecord_at)

lemma nested_wf_nestedSet [wf_intros]: "nested_wf m \<Longrightarrow> nested_wf (nestedSet m n k v r)"
  by (simp add: nestedSet_def nested_wf_modify dm.wf_put)

lemma nested_wf_nestedDelete [wf_intros]: "nested_wf m \<Longrightarrow> nested_wf (nestedDelete m n k v)"
  by (simp add: nestedDelete_def nested_wf_modify dm.wf_del)

definition nestedReplace ::
  "nestedRecordMap \<Rightarrow> string \<Rightarrow> RecordKind \<Rightarrow> string \<Rightarrow> string \<Rightarrow> RecordIntent \<Rightarrow> nestedRecordMap"
where
  "nestedReplace m name kind old new ri = nestedSet (nestedDelete m name kind old) name kind new ri"

lemmas [go_eval] = nestedReplace_def

text \<open>An inner map that exists is one with a record in it; a delete spares all but its own.\<close>

definition filled :: "nestedRecordMap \<Rightarrow> string \<Rightarrow> RecordKind \<Rightarrow> bool" where
  "filled m n k \<longleftrightarrow>
     (\<forall>km rm. Peek m n = Some km \<longrightarrow> Peek km k = Some rm \<longrightarrow>
        (\<exists>v. PeekNameKindRecord m n k v \<noteq> None))"

lemma nested_ok_filled:
  "nested_ok m \<longleftrightarrow> nested_wf m \<and>
     (\<forall>n km. Peek m n = Some km \<longrightarrow> (\<exists>k. Peek km k \<noteq> None)) \<and> (\<forall>n k. filled m n k)"
  by (auto simp: nested_ok_def filled_def PeekNameKindRecord_def)

lemma modify_filled:
  assumes "nested_wf m" and "\<And>r. dm_wf r \<Longrightarrow> dm_wf (f r)"
    and "\<forall>n km. Peek m n = Some km \<longrightarrow> (\<exists>k. Peek km k \<noteq> None)"
    and "\<And>n' k'. \<not> (n' = n \<and> k' = k) \<Longrightarrow> filled m n' k'"
    and "\<exists>v. Peek (f (record_at m n k)) v \<noteq> None"
  shows "nested_ok (modify m n k f)"
proof -
  obtain km where km: "Peek (modify m n k f) n = Some km"
    "\<And>n'. n' \<noteq> n \<Longrightarrow> Peek (modify m n k f) n' = Peek m n'"
    "Peek km k = Some (f (record_at m n k))"
    "\<And>k'. k' \<noteq> k \<Longrightarrow> Peek km k' = Peek (kind_at m n) k'"
    using assms(1) by (rule modifyE [of m n k f]) blast
  have "\<exists>k'. Peek km' k' \<noteq> None" if "Peek (modify m n k f) n' = Some km'" for n' km'
    using that km(1-3) assms(3) by (cases "n' = n") auto
  moreover have "filled (modify m n k f) n' k'" for n' k'
  proof (cases "n' = n \<and> k' = k")
    case True
    then show ?thesis using assms(1,5) by (simp add: filled_def look_modify)
  next
    case False
    then show ?thesis
      using assms(4) [OF False] km
      by (cases "n' = n")
        (auto simp: filled_def look_modify assms(1) kind_at_def newKindMap_def split: option.splits)
  qed
  ultimately show ?thesis
    using nested_wf_modify [OF assms(1,2)] by (simp add: nested_ok_filled)
qed

lemma nested_ok_Set [wf_intros]: "nested_ok m \<Longrightarrow> nested_ok (nestedSet m n k v r)"
  unfolding nestedSet_def nested_ok_filled [of m]
  by (rule modify_filled) (auto simp: dm.peek_put dm.wf_put)

lemma nested_ok_Replace [wf_intros]:
  assumes "nested_ok m"
  shows "nested_ok (nestedReplace m n k old new r)"
proof -
  let ?d = "nestedDelete m n k old"
  have wf: "nested_wf m" using assms by (simp add: nested_ok_def)
  obtain km where km: "Peek ?d n = Some km" "\<And>n'. n' \<noteq> n \<Longrightarrow> Peek ?d n' = Peek m n'"
    "Peek km k = Some (Delete (record_at m n k) old)"
    "\<And>k'. k' \<noteq> k \<Longrightarrow> Peek km k' = Peek (kind_at m n) k'"
    unfolding nestedDelete_def using wf by (rule modifyE [of m n k "\<lambda>r. Delete r old"]) blast
  have "filled ?d n' k'" if "\<not> (n' = n \<and> k' = k)" for n' k'
  proof -
    have "filled m n' k'" using assms by (simp add: nested_ok_filled)
    with that km wf show ?thesis
      by (cases "n' = n")
        (auto simp: filled_def look_nestedDelete kind_at_def newKindMap_def split: option.splits)
  qed
  moreover have "\<exists>k'. Peek km' k' \<noteq> None" if "Peek ?d n' = Some km'" for n' km'
    using that km(1-3) assms by (cases "n' = n") (auto simp: nested_ok_def)
  ultimately show ?thesis
    unfolding nestedReplace_def nestedSet_def
    by (intro modify_filled) (auto simp: wf_intros wf dm.peek_put dm.wf_put)
qed

lemma PeekNameKindRecords_None:
  "nested_ok m \<Longrightarrow> PeekNameKindRecords ord m n k = None \<longleftrightarrow> (\<forall>v. PeekNameKindRecord m n k v = None)"
  by (auto simp: nested_ok_def PeekNameKindRecords_def PeekNameKindRecord_def split: option.splits)

lemma PeekNameKindRecords_Some:
  assumes "is_order ord" and "nested_wf m" and "PeekNameKindRecords ord m n k = Some rs"
  shows "set rs = {r. \<exists>v. PeekNameKindRecord m n k v = Some r}"
proof -
  obtain km rm where km: "Peek m n = Some km" "Peek km k = Some rm" "rs = Values ord rm"
    using assms(3) by (auto simp: PeekNameKindRecords_def split: option.splits)
  then have "dm_wf rm" using assms(2) by (auto simp: nested_wf_def kind_wf_def)
  then show ?thesis using km assms(1) by (simp add: dm.set_vals PeekNameKindRecord_def)
qed

lemma set_GetAllNames:
  assumes "is_order ord" and "nested_ok m"
  shows "set (GetAllNames ord m) = {n. \<exists>k v. PeekNameKindRecord m n k v \<noteq> None}"
proof -
  have "Peek m n \<noteq> None \<longleftrightarrow> (\<exists>k v. PeekNameKindRecord m n k v \<noteq> None)" for n
  proof
    assume "Peek m n \<noteq> None"
    then obtain km where km: "Peek m n = Some km" by blast
    with assms(2) obtain k rm where "Peek km k = Some rm" unfolding nested_ok_def by blast
    with km assms(2) obtain v where "Peek rm v \<noteq> None" unfolding nested_ok_def by blast
    with km \<open>Peek km k = Some rm\<close> show "\<exists>k v. PeekNameKindRecord m n k v \<noteq> None"
      by (auto simp: PeekNameKindRecord_Some)
  qed (auto simp: PeekNameKindRecord_Some)
  moreover have "dm_wf m" using assms(2) by (simp add: nested_ok_def nested_wf_def)
  ultimately show ?thesis using assms(1) by (simp add: GetAllNames_def dm.set_keys)
qed

lemma set_GetAllValues:
  assumes "is_order ord" and "nested_wf m"
  shows "set (GetAllValues ord m) = {r. \<exists>n k v. PeekNameKindRecord m n k v = Some r}"
proof -
  have m: "dm_wf m" using assms(2) by (simp add: nested_wf_def)
  have km: "dm_wf km" if "Peek m n = Some km" for n km
    using that assms(2) by (auto simp: nested_wf_def kind_wf_def)
  have rm: "dm_wf rm" if "Peek m n = Some km" and "Peek km k = Some rm" for n km k rm
    using that assms(2) by (auto simp: nested_wf_def kind_wf_def)
  have "set (GetAllValues ord m) =
      {r. \<exists>n km k rm v. Peek m n = Some km \<and> Peek km k = Some rm \<and> Peek rm v = Some r}"
    using assms(1) m km rm by (fastforce simp: GetAllValues_def dm.set_vals)
  then show ?thesis by (simp add: PeekNameKindRecord_Some) blast
qed

interpretation ix: record_index PeekNameKindRecord nested_ok newNestedRecordMap nestedSet
  nestedReplace PeekNameKindRecords GetAllNames GetAllValues
proof unfold_locales
  show "nested_ok newNestedRecordMap"
    by (simp add: nested_ok_def nested_wf_def newNestedRecordMap_def)
  show "PeekNameKindRecord newNestedRecordMap n k v = None" for n k v
    by (simp add: PeekNameKindRecord_def newNestedRecordMap_def)
  show "PeekNameKindRecord (nestedReplace m n k v v' r) n' k' w =
      (if n' = n \<and> k' = k \<and> w = v' then Some r
       else if n' = n \<and> k' = k \<and> w = v then None else PeekNameKindRecord m n' k' w)"
    if "nested_ok m" for m n k v v' r n' k' w
    using that
    by (simp add: nested_ok_def nestedReplace_def look_nestedSet look_nestedDelete wf_intros)
  show "distinct (GetAllNames ord m)" if "is_order ord" and "nested_ok m" for ord m
    using that by (simp add: GetAllNames_def nested_ok_def nested_wf_def dm.distinct_keys)
qed (simp_all add: wf_intros look_nestedSet nested_ok_def [THEN iffD1] PeekNameKindRecords_None
    PeekNameKindRecords_Some set_GetAllNames set_GetAllValues)

end
