(* ===== verification/Validation.thy ===== *)
theory Validation
  imports Domain
begin

text \<open>
  \<^verbatim>\<open>internal/core/validation.go\<close>: \<open>ValidateRecord\<close>, the check of a proposed record against
  the existing ones.  The rules are stated twice: as the code's flags, early returns and walk
  over the alias map, and as \<open>compatible\<close> (a relation of two records) and \<open>resolves\<close> (an alias
  chain that ends).  The lemmas show that they agree, and what the check does for a whole zone.
\<close>

subsection \<open>The errors\<close>

text \<open>One constructor per message; all carry the name and the value of the new record.\<close>

datatype validation_error =
    CNAMEAmongAddresses string string
  | AddressBesideCNAME string string
  | DuplicateCNAME string string
  | DuplicateA string string
  | DuplicateAAAA string string
  | CNAMECycle string


subsection \<open>Flags\<close>

record flags =
  sameNameCNAME :: bool
  sameNameAnyAddress :: bool
  dupAValue :: bool
  dupAAAAValue :: bool

definition noFlags :: flags where
  "noFlags =
     \<lparr>sameNameCNAME = False, sameNameAnyAddress = False, dupAValue = False, dupAAAAValue = False\<rparr>"

definition flagStep :: "Record \<Rightarrow> RecordIntent \<Rightarrow> flags \<Rightarrow> flags" where
  "flagStep newR ri fl =
     (let r = Rec ri;
          sameName = Name r = Name newR;
          sameValue = Value r = Value newR
      in
      if IsA r then
        let fl' = (if sameName then fl\<lparr>sameNameAnyAddress := True\<rparr> else fl)
        in if sameName \<and> sameValue \<and> IsA newR then fl'\<lparr>dupAValue := True\<rparr> else fl'
      else if IsAAAA r then
        let fl' = (if sameName then fl\<lparr>sameNameAnyAddress := True\<rparr> else fl)
        in if sameName \<and> sameValue \<and> IsAAAA newR then fl'\<lparr>dupAAAAValue := True\<rparr> else fl'
      else if IsCNAME r then
        if sameName then fl\<lparr>sameNameCNAME := True\<rparr> else fl
      else fl)"


subsection \<open>The alias map and the walk\<close>

definition forwardStep ::
  "RecordIntent \<Rightarrow> (string \<times> string) list \<Rightarrow> (string \<times> string) list"
where
  "forwardStep ri forward =
     (if IsCNAME (Rec ri) then
        if map_of forward (Name (Rec ri)) \<noteq> None then forward
        else AList.update (Name (Rec ri)) (Value (Rec ri)) forward
      else forward)"

text \<open>The loop from \<open>cur\<close>, with the names already \<open>seen\<close>: does it meet one of them again?\<close>

function cycleWalk :: "(string \<times> string) list \<Rightarrow> string list \<Rightarrow> string \<Rightarrow> bool" where
  "cycleWalk forward seen cur =
     (case map_of forward cur of
        None \<Rightarrow> False
      | Some v \<Rightarrow> if cur \<in> set seen then True else cycleWalk forward (cur # seen) v)"
  by pat_completeness auto

termination
proof (relation "measure (\<lambda>(forward, seen, cur). card (fst ` set forward - set seen))")
  fix forward :: "(string \<times> string) list" and seen cur v
  assume "map_of forward cur = Some v" and "cur \<notin> set seen"
  then have "cur \<in> fst ` set forward - set seen" by (force dest: map_of_SomeD)
  then have "fst ` set forward - set (cur # seen) \<subset> fst ` set forward - set seen" by auto
  then show "((forward, cur # seen, v), (forward, seen, cur)) \<in>
      measure (\<lambda>(forward, seen, cur). card (fst ` set forward - set seen))"
    by (simp add: psubset_card_mono)
qed simp

declare cycleWalk.simps [simp del]


subsection \<open>The check\<close>

definition ValidateRecord :: "RecordIntent \<Rightarrow> RecordIntent list \<Rightarrow> validation_error option" where
  "ValidateRecord newRI existing =
     (let newR = Rec newRI;
          fl = fold (flagStep newR) existing noFlags
      in
      if IsCNAME newR \<and> sameNameAnyAddress fl
      then Some (CNAMEAmongAddresses (Name newR) (Value newR))
      else if IsAddress newR \<and> sameNameCNAME fl
      then Some (AddressBesideCNAME (Name newR) (Value newR))
      else if IsCNAME newR \<and> sameNameCNAME fl
      then Some (DuplicateCNAME (Name newR) (Value newR))
      else if IsA newR \<and> dupAValue fl then Some (DuplicateA (Name newR) (Value newR))
      else if IsAAAA newR \<and> dupAAAAValue fl then Some (DuplicateAAAA (Name newR) (Value newR))
      else if IsCNAME newR \<and>
        cycleWalk (AList.update (Name newR) (Value newR) (fold forwardStep existing []))
          [] (Name newR)
      then Some (CNAMECycle (Name newR))
      else None)"

lemmas [go_eval] =
  noFlags_def flagStep_def forwardStep_def cycleWalk.simps ValidateRecord_def


subsection \<open>The rules on two records\<close>

definition compatible :: "Record \<Rightarrow> Record \<Rightarrow> bool" where
  "compatible r q \<longleftrightarrow> Name r \<noteq> Name q \<or>
     \<not> (IsCNAME r \<and> IsAddress q) \<and> \<not> (IsAddress r \<and> IsCNAME q) \<and> \<not> (IsCNAME r \<and> IsCNAME q) \<and>
     \<not> (IsAddress r \<and> Kind q = Kind r \<and> Value q = Value r)"

lemma compatible_sym: "compatible r q \<longleftrightarrow> compatible q r"
  by (auto simp: compatible_def kind_simps)


subsection \<open>Alias chains\<close>

definition forward_of :: "RecordIntent list \<Rightarrow> (string \<times> string) list" where
  "forward_of existing = fold forwardStep existing []"

inductive resolves :: "(string \<Rightarrow> string option) \<Rightarrow> string \<Rightarrow> string \<Rightarrow> bool" for f where
  "f n = None \<Longrightarrow> resolves f n n"
| "f n = Some v \<Longrightarrow> resolves f v m \<Longrightarrow> resolves f n m"

inductive_cases resolvesE: "resolves f n m"

definition ends :: "(string \<Rightarrow> string option) \<Rightarrow> string \<Rightarrow> bool" where
  "ends f n \<longleftrightarrow> (\<exists>m. resolves f n m)"

lemma ends_simps: "ends f n \<longleftrightarrow> (case f n of None \<Rightarrow> True | Some v \<Rightarrow> ends f v)"
proof (cases "f n")
  case (Some v)
  have "resolves f n m \<longleftrightarrow> resolves f v m" for m
    using Some by (auto intro: resolves.intros elim: resolvesE [of f n])
  with Some show ?thesis by (simp add: ends_def)
qed (auto simp: ends_def intro: resolves.intros)

text \<open>A name that reaches itself has no end.\<close>

lemma resolves_no_loop: "resolves f n m \<Longrightarrow> \<not> (\<lambda>x y. f x = Some y)\<^sup>+\<^sup>+ n n"
proof (induction rule: resolves.induct)
  case (1 n)
  then show ?case by (auto dest: tranclpD)
next
  case (2 n v m)
  show ?case
  proof
    assume "(\<lambda>x y. f x = Some y)\<^sup>+\<^sup>+ n n"
    then have "(\<lambda>x y. f x = Some y)\<^sup>*\<^sup>* v n" using 2(1) by (auto dest: tranclpD)
    then have "(\<lambda>x y. f x = Some y)\<^sup>+\<^sup>+ v v" using 2(1) by (rule rtranclp_into_tranclp1)
    then show False using 2(3) by contradiction
  qed
qed

lemma cycleWalk_ends:
  "\<forall>s \<in> set seen. (\<lambda>x y. map_of forward x = Some y)\<^sup>+\<^sup>+ s cur \<Longrightarrow>
   cycleWalk forward seen cur \<longleftrightarrow> \<not> ends (map_of forward) cur"
proof (induction forward seen cur rule: cycleWalk.induct)
  case (1 forward seen cur)
  show ?case
  proof (cases "map_of forward cur")
    case None
    then show ?thesis by (simp add: cycleWalk.simps [of forward seen cur] ends_simps [of _ cur])
  next
    case (Some v)
    show ?thesis
    proof (cases "cur \<in> set seen")
      case True
      with "1.prems" have "\<not> ends (map_of forward) cur"
        by (auto simp: ends_def dest: resolves_no_loop)
      with True Some show ?thesis by (simp add: cycleWalk.simps [of forward seen cur])
    next
      case False
      have "\<forall>s \<in> set (cur # seen). (\<lambda>x y. map_of forward x = Some y)\<^sup>+\<^sup>+ s v"
        using "1.prems" Some by (auto intro: tranclp.intros)
      with "1.IH" [OF Some False] show ?thesis
        using Some False
        by (simp add: cycleWalk.simps [of forward seen cur] ends_simps [of _ cur])
    qed
  qed
qed

lemma cycleWalk_iff: "cycleWalk forward [] cur \<longleftrightarrow> \<not> ends (map_of forward) cur"
  by (rule cycleWalk_ends) simp

text \<open>The alias map holds the first alias of each name.\<close>

lemma map_of_forwardStep:
  "map_of (forwardStep e fw) n =
     (if map_of fw n = None \<and> IsCNAME (Rec e) \<and> Name (Rec e) = n then Some (Value (Rec e))
      else map_of fw n)"
  by (auto simp: forwardStep_def gomap_simps)

lemma forward_of_snoc: "forward_of (es @ [e]) = forwardStep e (forward_of es)"
  by (simp add: forward_of_def)

lemma forward_of_SomeD:
  "map_of (forward_of es) n = Some v \<Longrightarrow>
   \<exists>e \<in> set es. IsCNAME (Rec e) \<and> Name (Rec e) = n \<and> Value (Rec e) = v"
  by (induction es rule: rev_induct)
    (auto simp: forward_of_snoc map_of_forwardStep forward_of_def [of "[]"] split: if_splits)

lemma forward_of_None:
  "map_of (forward_of es) n = None \<longleftrightarrow> (\<forall>e \<in> set es. IsCNAME (Rec e) \<longrightarrow> Name (Rec e) \<noteq> n)"
  by (induction es rule: rev_induct)
    (auto simp: forward_of_snoc map_of_forwardStep forward_of_def [of "[]"])


subsection \<open>What the check decides\<close>

definition alias_map :: "RecordIntent \<Rightarrow> RecordIntent list \<Rightarrow> string \<Rightarrow> string option" where
  "alias_map new es = (map_of (forward_of es))(Name (Rec new) \<mapsto> Value (Rec new))"

definition no_clash :: "Record \<Rightarrow> flags \<Rightarrow> bool" where
  "no_clash r fl \<longleftrightarrow>
     \<not> (IsCNAME r \<and> (sameNameAnyAddress fl \<or> sameNameCNAME fl)) \<and>
     \<not> (IsAddress r \<and> sameNameCNAME fl) \<and> \<not> (IsA r \<and> dupAValue fl) \<and>
     \<not> (IsAAAA r \<and> dupAAAAValue fl)"

lemma no_clash_step:
  "no_clash r (flagStep r e fl) \<longleftrightarrow> no_clash r fl \<and> compatible r (Rec e)"
  by (auto simp: no_clash_def flagStep_def compatible_def kind_simps Let_def)

lemma no_clash_fold:
  "no_clash r (fold (flagStep r) es fl) \<longleftrightarrow>
     no_clash r fl \<and> (\<forall>e \<in> set es. compatible r (Rec e))"
  by (induction es arbitrary: fl) (auto simp: no_clash_step)

lemma ValidateRecord_None:
  "ValidateRecord new es = None \<longleftrightarrow>
     (\<forall>e \<in> set es. compatible (Rec new) (Rec e)) \<and>
     (IsCNAME (Rec new) \<longrightarrow> ends (alias_map new es) (Name (Rec new)))"
proof -
  define fl where "fl = fold (flagStep (Rec new)) es noFlags"
  have al: "map_of (AList.update (Name (Rec new)) (Value (Rec new)) (forward_of es)) =
      alias_map new es"
    by (simp add: alias_map_def fun_eq_iff gomap_simps)
  have "ValidateRecord new es = None \<longleftrightarrow> no_clash (Rec new) fl \<and>
      (IsCNAME (Rec new) \<longrightarrow> ends (alias_map new es) (Name (Rec new)))"
    unfolding ValidateRecord_def Let_def forward_of_def [symmetric] cycleWalk_iff al
      fl_def [symmetric]
    by (auto simp: no_clash_def)
  moreover have "no_clash (Rec new) noFlags" by (simp add: no_clash_def noFlags_def)
  ultimately show ?thesis by (simp add: fl_def no_clash_fold)
qed

lemma ValidateRecord_cycle:
  "ValidateRecord new es = Some (CNAMECycle (Name (Rec new))) \<longleftrightarrow>
     IsCNAME (Rec new) \<and> (\<forall>e \<in> set es. compatible (Rec new) (Rec e)) \<and>
     \<not> ends (alias_map new es) (Name (Rec new))"
proof -
  define fl where "fl = fold (flagStep (Rec new)) es noFlags"
  have "ValidateRecord new es = Some (CNAMECycle (Name (Rec new))) \<longleftrightarrow>
      ValidateRecord new es \<noteq> None \<and> no_clash (Rec new) fl"
    unfolding ValidateRecord_def Let_def fl_def [symmetric] by (auto simp: no_clash_def)
  also have "no_clash (Rec new) fl \<longleftrightarrow> (\<forall>e \<in> set es. compatible (Rec new) (Rec e))"
    by (simp add: fl_def no_clash_fold) (simp add: no_clash_def noFlags_def)
  finally show ?thesis by (auto simp: ValidateRecord_None)
qed

lemma ValidateRecord_compatible:
  "ValidateRecord new es = None \<Longrightarrow> e \<in> set es \<Longrightarrow> compatible (Rec new) (Rec e)"
  by (simp add: ValidateRecord_None)

text \<open>Fewer aliases, no new loop.\<close>

lemma resolves_map_le:
  "resolves g n m \<Longrightarrow> (\<And>x y. f x = Some y \<Longrightarrow> g x = Some y) \<Longrightarrow> ends f n"
proof (induction rule: resolves.induct)
  case (1 n)
  then have "f n = None" by (cases "f n") auto
  then show ?case by (simp add: ends_simps [of f n])
next
  case (2 n v m)
  then show ?case
    using 2(4) [of n] by (cases "f n") (auto simp: ends_simps [of f n])
qed

lemma ends_map_le: "ends g n \<Longrightarrow> (\<And>x y. f x = Some y \<Longrightarrow> g x = Some y) \<Longrightarrow> ends f n"
  unfolding ends_def [of g] by (auto intro: resolves_map_le)

text \<open>An alias added to a loop-free zone closes a loop only if its own chain has no end.\<close>

lemma ends_add:
  assumes "ends (f(n \<mapsto> v)) n" and "f n = None" and "\<And>x. ends f x"
  shows "ends (f(n \<mapsto> v)) x"
proof -
  define g where "g = f(n \<mapsto> v)"
  have g: "g n = Some v" "\<And>x. x \<noteq> n \<Longrightarrow> g x = f x" by (simp_all add: g_def)
  have "ends g n" using assms(1) by (simp add: g_def)
  obtain y where "resolves f x y" using assms(3) [of x] by (auto simp: ends_def)
  then have "ends g x"
  proof (induction rule: resolves.induct)
    case (1 x)
    then show ?case using \<open>ends g n\<close> g by (cases "x = n") (auto simp: ends_simps [of g x])
  next
    case (2 x w y)
    have "x \<noteq> n" using 2(1) assms(2) by auto
    with 2 g show ?case by (simp add: ends_simps [of g x])
  qed
  then show ?thesis by (simp add: g_def)
qed


subsection \<open>Zones\<close>

text \<open>
  A set of records in which any two are compatible, and in which every alias chain ends.  An
  alias chain follows the CNAME records; in a compatible zone there is one per name.
\<close>

definition zone_ok :: "RecordIntent set \<Rightarrow> bool" where
  "zone_ok Z \<longleftrightarrow> (\<forall>r \<in> Z. \<forall>q \<in> Z. r \<noteq> q \<longrightarrow> compatible (Rec r) (Rec q))"

definition loop_free :: "RecordIntent list \<Rightarrow> bool" where
  "loop_free es \<longleftrightarrow> (\<forall>n. ends (map_of (forward_of es)) n)"

lemma zone_okD: "zone_ok Z \<Longrightarrow> r \<in> Z \<Longrightarrow> q \<in> Z \<Longrightarrow> r \<noteq> q \<Longrightarrow> compatible (Rec r) (Rec q)"
  by (simp add: zone_ok_def)

lemma zone_ok_subset: "zone_ok Z \<Longrightarrow> Y \<subseteq> Z \<Longrightarrow> zone_ok Y"
  by (auto simp: zone_ok_def)

lemma zone_ok_insert:
  "zone_ok Z \<Longrightarrow> (\<And>q. q \<in> Z \<Longrightarrow> compatible (Rec r) (Rec q)) \<Longrightarrow> zone_ok (insert r Z)"
  using compatible_sym by (auto simp: zone_ok_def)

lemma zone_ok_Un:
  "zone_ok Y \<Longrightarrow> zone_ok Z \<Longrightarrow> (\<And>r q. r \<in> Y \<Longrightarrow> q \<in> Z \<Longrightarrow> compatible (Rec r) (Rec q)) \<Longrightarrow>
   zone_ok (Y \<union> Z)"
  unfolding zone_ok_def using compatible_sym by (metis Un_iff)

lemma forward_of_zone:
  assumes "zone_ok (set es)" and "e \<in> set es" and "IsCNAME (Rec e)"
  shows "map_of (forward_of es) (Name (Rec e)) = Some (Value (Rec e))"
proof -
  have "map_of (forward_of es) (Name (Rec e)) \<noteq> None"
    using assms(2,3) by (auto simp: forward_of_None)
  then obtain v where v: "map_of (forward_of es) (Name (Rec e)) = Some v" by blast
  then obtain e' where "e' \<in> set es" "IsCNAME (Rec e')" "Name (Rec e') = Name (Rec e)"
    "Value (Rec e') = v" by (auto dest: forward_of_SomeD)
  moreover from this have "e' = e" using assms zone_okD [of "set es" e' e]
    by (auto simp: compatible_def)
  ultimately show ?thesis using v by simp
qed

lemma loop_free_subset:
  assumes "zone_ok (set es)" and "loop_free es" and "set es' \<subseteq> set es"
  shows "loop_free es'"
  unfolding loop_free_def
proof
  fix n
  have "map_of (forward_of es) x = Some y" if "map_of (forward_of es') x = Some y" for x y
    using forward_of_SomeD [OF that] forward_of_zone [OF assms(1)] assms(3) by auto
  moreover have "ends (map_of (forward_of es)) n" using assms(2) by (simp add: loop_free_def)
  ultimately show "ends (map_of (forward_of es')) n" by (rule_tac ends_map_le)
qed

lemma ValidateRecord_loop_free:
  assumes "ValidateRecord new es = None" and "loop_free es"
  shows "loop_free (es @ [new])"
proof (cases "IsCNAME (Rec new)")
  case True
  have none: "map_of (forward_of es) (Name (Rec new)) = None"
    using assms(1) True
    by (auto simp: ValidateRecord_None forward_of_None compatible_def)
  have "map_of (forward_of (es @ [new])) = alias_map new es"
    using none True
    by (auto simp: fun_eq_iff forward_of_snoc map_of_forwardStep alias_map_def)
  moreover have "ends (alias_map new es) x" for x
    unfolding alias_map_def
    by (rule ends_add)
      (use assms True none in \<open>auto simp: ValidateRecord_None alias_map_def loop_free_def\<close>)
  ultimately show ?thesis by (simp add: loop_free_def)
next
  case False
  then show ?thesis
    using assms(2) by (simp add: loop_free_def forward_of_snoc forwardStep_def)
qed

end
