(* ===== verification/Priority.thy ===== *)
theory Priority
  imports Domain
begin

text \<open>
  \<^verbatim>\<open>internal/core/reconciliation.go\<close>, the two priority rules: which of two conflicting
  record intents stays, and when an alias replaces all address records of its name.
  \<open>contest\<close> is the interface of a priority rule, an order with a list's champion; the rule of
  the code is the linear order of \<open>priority\<close>.
\<close>

subsection \<open>The rules\<close>

definition shouldReplaceExisting :: "RecordIntent \<Rightarrow> RecordIntent \<Rightarrow> bool" where
  "shouldReplaceExisting new existing =
     (if Force new \<and> \<not> Force existing then True
      else if \<not> Force new \<and> Force existing then False
      else if Before (Created new) (Created existing) then True
      else False)"

record scan =
  anyForce :: bool
  allForce :: bool
  allNonForce :: bool
  newCreatedBeforeAllOldWithForce :: bool
  newCreatedBeforeAll :: bool

definition scanStep :: "RecordIntent \<Rightarrow> RecordIntent \<Rightarrow> scan \<Rightarrow> scan" where
  "scanStep new ri sc =
     (let newCreatedBeforeExisting = Before (Created new) (Created ri);
          sc1 = (if Force ri
            then let sc' = sc\<lparr>anyForce := True, allNonForce := False\<rparr>
                 in if \<not> newCreatedBeforeExisting
                    then sc'\<lparr>newCreatedBeforeAllOldWithForce := False\<rparr> else sc'
            else sc\<lparr>allForce := False\<rparr>)
      in if \<not> newCreatedBeforeExisting then sc1\<lparr>newCreatedBeforeAll := False\<rparr> else sc1)"

definition shouldReplaceAllExisting :: "RecordIntent \<Rightarrow> RecordIntent list \<Rightarrow> bool" where
  "shouldReplaceAllExisting new existing =
     (if existing = [] then True
      else
        let sc = fold (scanStep new) existing
              \<lparr>anyForce = False, allForce = True, allNonForce = True,
               newCreatedBeforeAllOldWithForce = True, newCreatedBeforeAll = True\<rparr>
        in if anyForce sc \<and> \<not> Force new then False
           else if Force new \<and> allNonForce sc then True
           else if Force new \<and> \<not> allForce sc then newCreatedBeforeAllOldWithForce sc
           else newCreatedBeforeAll sc)"


lemmas [go_eval] = shouldReplaceExisting_def scanStep_def shouldReplaceAllExisting_def


subsection \<open>Priority as a linear order\<close>

text \<open>Forced records come first, older ones before younger ones.\<close>

datatype priority = Priority (yields: bool) (since: Time)

instantiation priority :: linorder
begin

definition less_eq_priority :: "priority \<Rightarrow> priority \<Rightarrow> bool" where
  "less_eq_priority p q \<longleftrightarrow> \<not> yields p \<and> yields q \<or> yields p = yields q \<and> since p \<le> since q"

definition less_priority :: "priority \<Rightarrow> priority \<Rightarrow> bool" where
  "less_priority p q \<longleftrightarrow> \<not> yields p \<and> yields q \<or> yields p = yields q \<and> since p < since q"

instance
  by standard (auto simp: less_eq_priority_def less_priority_def intro: priority.expand)

end

definition rank :: "RecordIntent \<Rightarrow> priority" where
  "rank ri = Priority (\<not> Force ri) (Created ri)"

lemma shouldReplaceExisting_rank: "shouldReplaceExisting new e \<longleftrightarrow> rank new < rank e"
  by (auto simp: shouldReplaceExisting_def rank_def less_priority_def Before_def)

text \<open>The scan's flags, over the records seen so far.\<close>

lemma scan_eq:
  "fold (scanStep new) es sc =
     \<lparr>anyForce = anyForce sc \<or> (\<exists>e \<in> set es. Force e),
      allForce = allForce sc \<and> (\<forall>e \<in> set es. Force e),
      allNonForce = allNonForce sc \<and> (\<forall>e \<in> set es. \<not> Force e),
      newCreatedBeforeAllOldWithForce = newCreatedBeforeAllOldWithForce sc \<and>
        (\<forall>e \<in> set es. Force e \<longrightarrow> Created new < Created e),
      newCreatedBeforeAll = newCreatedBeforeAll sc \<and>
        (\<forall>e \<in> set es. Created new < Created e)\<rparr>"
proof (induction es arbitrary: sc)
  case (Cons e es)
  have "scanStep new e sc =
      \<lparr>anyForce = anyForce sc \<or> Force e, allForce = allForce sc \<and> Force e,
       allNonForce = allNonForce sc \<and> \<not> Force e,
       newCreatedBeforeAllOldWithForce = newCreatedBeforeAllOldWithForce sc \<and>
         (Force e \<longrightarrow> Created new < Created e),
       newCreatedBeforeAll = newCreatedBeforeAll sc \<and> Created new < Created e\<rparr>"
    by (auto simp: scanStep_def Before_def Let_def)
  with Cons.IH [of "scanStep new e sc"] show ?case by simp
qed simp

lemma shouldReplaceAllExisting_rank:
  "shouldReplaceAllExisting new es \<longleftrightarrow> (\<forall>e \<in> set es. rank new < rank e)"
proof (cases "es = []")
  case False
  then show ?thesis
    by (cases "Force new")
      (auto simp: shouldReplaceAllExisting_def Let_def scan_eq rank_def less_priority_def)
qed (simp add: shouldReplaceAllExisting_def)


subsection \<open>The champion of a list\<close>

definition champ_step :: "('a \<Rightarrow> 'a \<Rightarrow> bool) \<Rightarrow> 'a option \<Rightarrow> 'a \<Rightarrow> 'a option" where
  "champ_step beats cur x =
     (case cur of None \<Rightarrow> Some x | Some e \<Rightarrow> if beats x e then Some x else Some e)"

definition champion :: "('a \<Rightarrow> 'a \<Rightarrow> bool) \<Rightarrow> 'a list \<Rightarrow> 'a option" where
  "champion beats xs = foldl (champ_step beats) None xs"

lemma champion_Nil [simp]: "champion beats [] = None"
  by (simp add: champion_def)

lemma champion_snoc: "champion beats (xs @ [x]) = champ_step beats (champion beats xs) x"
  by (simp add: champion_def)

locale contest =
  fixes beats :: "'a \<Rightarrow> 'a \<Rightarrow> bool"
    and prio :: "'a \<Rightarrow> 'p::linorder"
  assumes beats_prio: "beats x y \<longleftrightarrow> prio x < prio y"
begin

lemma champion_None: "champion beats xs = None \<longleftrightarrow> xs = []"
  by (cases xs rule: rev_cases) (auto simp: champion_snoc champ_step_def split: option.splits)

lemma champion_least:
  "champion beats xs = Some r \<Longrightarrow> r \<in> set xs \<and> (\<forall>x \<in> set xs. prio r \<le> prio x)"
proof (induction xs arbitrary: r rule: rev_induct)
  case (snoc x xs)
  show ?case
  proof (cases "champion beats xs")
    case None
    with snoc.prems show ?thesis by (simp add: champion_None champion_snoc champ_step_def)
  next
    case (Some e)
    with snoc.prems have "r = (if beats x e then x else e)"
      by (simp add: champion_snoc champ_step_def split: if_splits)
    with snoc.IH [OF Some] show ?thesis by (auto simp: beats_prio)
  qed
qed simp

text \<open>Without ties the champion depends on the set of contestants only.\<close>

lemma champion_set:
  assumes "inj_on prio (set xs)" and "set ys = set xs"
  shows "champion beats xs = champion beats ys"
proof (cases "xs = []")
  case False
  with assms(2) have "ys \<noteq> []" by auto
  then obtain r q where r: "champion beats xs = Some r" and q: "champion beats ys = Some q"
    using False champion_None by (metis not_None_eq)
  then have "prio r = prio q"
    using champion_least [OF r] champion_least [OF q] assms(2) by (metis order_antisym)
  then have "r = q"
    using champion_least [OF r] champion_least [OF q] assms by (auto dest: inj_onD)
  with r q show ?thesis by simp
qed (use assms(2) in simp)

end

interpretation prio: contest shouldReplaceExisting rank
  by unfold_locales (rule shouldReplaceExisting_rank)

end
