(* ===== verification/Intent_Filter.thy ===== *)
theory Intent_Filter
  imports Nested_Maps Validation Priority
begin

text \<open>
  \<^verbatim>\<open>internal/core/reconciliation.go\<close>, \<open>addrRecords\<close> and \<open>FilterRecordIntents\<close>: the filter
  over the desired records.

  The code ranges over Go maps at many places.  A \<open>range_orders\<close> gives the order for each
  place (a \<open>site\<close>) and iteration of the loop around it, so that no two \<^verbatim>\<open>range\<close> loops need
  agree on an order.  \<^verbatim>\<open>cnames[0]\<close> panics on an empty slice: the functions return an option,
  and the lemmas show that they never return \<open>None\<close>.
\<close>

subsection \<open>The places where the code ranges over a map\<close>

datatype site = Dedup | Names | AtA | AtAAAA | AtCNAME | AddrA | AddrAAAA | AllValues
  | EvictCNAME | EvictA | EvictAAAA | Adds | Removes

type_synonym range_orders = "site \<Rightarrow> nat \<Rightarrow> map_order"

definition orders_ok :: "range_orders \<Rightarrow> bool" where
  "orders_ok ords \<longleftrightarrow> (\<forall>s i. is_order (ords s i))"

lemma orders_okD [intro, simp]: "orders_ok ords \<Longrightarrow> is_order (ords s i)"
  by (simp add: orders_ok_def)

lemma orders_ok_id [simp]: "orders_ok (\<lambda>s i ks. ks)"
  by (simp add: orders_ok_def)

definition addrRecords ::
  "map_order \<Rightarrow> map_order \<Rightarrow> nestedRecordMap \<Rightarrow> string \<Rightarrow> RecordIntent list option"
where
  "addrRecords ordA ordAAAA m name =
     (let a = PeekNameKindRecords ordA m name RecordA;
          aaaa = PeekNameKindRecords ordAAAA m name RecordAAAA
      in if a = None \<and> aaaa = None then None
         else Some ((case a of None \<Rightarrow> [] | Some rs \<Rightarrow> rs) @
                    (case aaaa of None \<Rightarrow> [] | Some rs \<Rightarrow> rs)))"


subsection \<open>Filtering the desired records\<close>

text \<open>Step 1: one record per name, kind and value, and one CNAME per name.\<close>

definition dedupStep ::
  "range_orders \<Rightarrow> nat \<Rightarrow> nestedRecordMap \<Rightarrow> RecordIntent \<Rightarrow> nestedRecordMap option"
where
  "dedupStep ords i m ri =
     (let r = Rec ri in
      if IsA r then
        (if (case PeekNameKindRecord m (Name r) RecordA (Value r) of
               None \<Rightarrow> True | Some existing \<Rightarrow> shouldReplaceExisting ri existing)
         then Some (nestedSet m (Name r) RecordA (Value r) ri) else Some m)
      else if IsAAAA r then
        (if (case PeekNameKindRecord m (Name r) RecordAAAA (Value r) of
               None \<Rightarrow> True | Some existing \<Rightarrow> shouldReplaceExisting ri existing)
         then Some (nestedSet m (Name r) RecordAAAA (Value r) ri) else Some m)
      else if IsCNAME r then
        (case PeekNameKindRecords (ords Dedup i) m (Name r) RecordCNAME of
           Some cnames \<Rightarrow>
             (case index0 cnames of
                None \<Rightarrow> None
              | Some existing \<Rightarrow>
                  if shouldReplaceExisting ri existing
                  then Some (nestedReplace m (Name r) RecordCNAME (Value (Rec existing)) (Value r) ri)
                  else Some m)
         | None \<Rightarrow> Some (nestedSet m (Name r) RecordCNAME (Value r) ri))
      else Some m)"

text \<open>\<^verbatim>\<open>for _, ri := range rs\<close> with a \<^verbatim>\<open>Set\<close> of each record under its value.\<close>

definition setAll ::
  "string \<Rightarrow> RecordKind \<Rightarrow> RecordIntent list \<Rightarrow> nestedRecordMap \<Rightarrow> nestedRecordMap"
where
  "setAll name kind rs m = fold (\<lambda>ri m. nestedSet m name kind (Value (Rec ri)) ri) rs m"

definition slice_of :: "'a list option \<Rightarrow> 'a list" where
  "slice_of rs = (case rs of None \<Rightarrow> [] | Some xs \<Rightarrow> xs)"

text \<open>Step 2, for one name: the CNAME or the addresses.\<close>

definition resolveStep ::
  "range_orders \<Rightarrow> nestedRecordMap \<Rightarrow> nat \<Rightarrow> nestedRecordMap \<Rightarrow> string \<Rightarrow> nestedRecordMap option"
where
  "resolveStep ords m i out name =
     (let aRecs = PeekNameKindRecords (ords AtA i) m name RecordA;
          aaaaRecs = PeekNameKindRecords (ords AtAAAA i) m name RecordAAAA;
          cnameRecs = PeekNameKindRecords (ords AtCNAME i) m name RecordCNAME;
          hasAddr = (aRecs \<noteq> None \<or> aaaaRecs \<noteq> None);
          keepAddrs = setAll name RecordAAAA (slice_of aaaaRecs)
            (setAll name RecordA (slice_of aRecs) out)
      in
      if cnameRecs \<noteq> None \<and> \<not> hasAddr then
        (case index0 (slice_of cnameRecs) of
           None \<Rightarrow> None
         | Some ri \<Rightarrow> Some (nestedSet out name RecordCNAME (Value (Rec ri)) ri))
      else if hasAddr \<and> cnameRecs = None then Some keepAddrs
      else if cnameRecs \<noteq> None \<and> hasAddr then
        (case index0 (slice_of cnameRecs) of
           None \<Rightarrow> None
         | Some cnameRecord \<Rightarrow>
             if shouldReplaceAllExisting cnameRecord
               (slice_of (addrRecords (ords AddrA i) (ords AddrAAAA i) m name))
             then Some (nestedSet out name RecordCNAME (Value (Rec cnameRecord)) cnameRecord)
             else Some keepAddrs)
      else Some out)"

definition FilterRecordIntents :: "range_orders \<Rightarrow> RecordIntent list \<Rightarrow> RecordIntent list option" where
  "FilterRecordIntents ords recordIntents =
     (case foldM (dedupStep ords) 0 newNestedRecordMap recordIntents of
        None \<Rightarrow> None
      | Some m \<Rightarrow>
          map_option (GetAllValues (ords AllValues 0))
            (foldM (resolveStep ords m) 0 newNestedRecordMap (GetAllNames (ords Names 0) m)))"


lemmas [go_eval] =
  addrRecords_def dedupStep_def setAll_def slice_of_def resolveStep_def FilterRecordIntents_def


subsection \<open>Slots and their winners\<close>

text \<open>
  Records that exclude each other in one kind share a slot: a name with an address, or a name's
  alias.  The winner of a slot is its first record of the highest priority.  An alias is kept
  if it has a higher priority than all winning addresses of its name; else these are kept.
\<close>

definition known :: "Record \<Rightarrow> bool" where
  "known r \<longleftrightarrow> IsAddress r \<or> IsCNAME r"

definition same_slot :: "Record \<Rightarrow> Record \<Rightarrow> bool" where
  "same_slot r q \<longleftrightarrow> Name r = Name q \<and> Kind r = Kind q \<and> (IsCNAME r \<or> Value r = Value q)"

definition holder :: "RecordIntent list \<Rightarrow> Record \<Rightarrow> RecordIntent option" where
  "holder ris rc = champion shouldReplaceExisting (filter (\<lambda>q. same_slot (Rec q) rc) ris)"

definition winner :: "RecordIntent list \<Rightarrow> RecordIntent \<Rightarrow> bool" where
  "winner ris r \<longleftrightarrow> known (Rec r) \<and> holder ris (Rec r) = Some r"

definition rivals :: "RecordIntent list \<Rightarrow> RecordIntent \<Rightarrow> RecordIntent list" where
  "rivals ris r =
     filter (\<lambda>a. winner ris a \<and> IsAddress (Rec a) \<and> Name (Rec a) = Name (Rec r)) ris"

definition outranks_all :: "RecordIntent \<Rightarrow> RecordIntent list \<Rightarrow> bool" where
  "outranks_all r as \<longleftrightarrow> (\<forall>a \<in> set as. rank r < rank a)"

definition kept :: "RecordIntent list \<Rightarrow> RecordIntent \<Rightarrow> bool" where
  "kept ris r \<longleftrightarrow> winner ris r \<and>
     (IsCNAME (Rec r) \<longrightarrow> outranks_all r (rivals ris r)) \<and>
     (IsAddress (Rec r) \<longrightarrow>
        (\<forall>c \<in> set ris. winner ris c \<and> IsCNAME (Rec c) \<and> Name (Rec c) = Name (Rec r) \<longrightarrow>
           \<not> outranks_all c (rivals ris c)))"

lemma address_not_cname: "IsAddress r \<Longrightarrow> \<not> IsCNAME r"
  by (auto simp: kind_simps)

lemma same_slot_refl [simp]: "same_slot r r"
  by (simp add: same_slot_def)

lemma same_slot_eq: "same_slot r q \<Longrightarrow> same_slot x r \<longleftrightarrow> same_slot x q"
  by (auto simp: same_slot_def kind_simps)

lemma same_slot_sym: "same_slot r q \<longleftrightarrow> same_slot q r"
  by (auto simp: same_slot_def kind_simps)

lemma same_slot_address: "IsAddress r \<Longrightarrow> same_slot q r \<longleftrightarrow> q = r"
  by (cases q; cases r) (auto simp: same_slot_def kind_simps)

lemma holder_Nil [simp]: "holder [] rc = None"
  by (simp add: holder_def)

lemma holder_snoc:
  "holder (ris @ [x]) rc =
     (if same_slot (Rec x) rc then champ_step shouldReplaceExisting (holder ris rc) x
      else holder ris rc)"
  by (simp add: holder_def champion_snoc)

lemma holder_slot: "same_slot r q \<Longrightarrow> holder ris r = holder ris q"
  by (simp add: holder_def same_slot_eq)

lemma holder_Some:
  assumes "holder ris rc = Some r"
  shows "r \<in> set ris" and "same_slot (Rec r) rc"
    and "\<And>q. q \<in> set ris \<Longrightarrow> same_slot (Rec q) rc \<Longrightarrow> rank r \<le> rank q"
  using prio.champion_least [OF assms [unfolded holder_def]] by auto

lemma holder_None: "holder ris rc = None \<longleftrightarrow> (\<forall>q \<in> set ris. \<not> same_slot (Rec q) rc)"
  by (simp add: holder_def prio.champion_None filter_empty_conv)

lemma holder_winner:
  assumes "holder ris rc = Some r" and "known rc"
  shows "winner ris r"
proof -
  have "same_slot (Rec r) rc" by (rule holder_Some [OF assms(1)])
  with assms show ?thesis
    by (auto simp: winner_def holder_slot [of "Rec r" rc] known_def same_slot_def kind_simps)
qed

lemma winner_mem: "winner ris r \<Longrightarrow> r \<in> set ris"
  by (auto simp: winner_def dest: holder_Some)

lemma winner_unique: "winner ris r \<Longrightarrow> winner ris q \<Longrightarrow> same_slot (Rec r) (Rec q) \<Longrightarrow> r = q"
  using holder_slot [of "Rec r" "Rec q" ris] by (simp add: winner_def)

lemma winner_snoc:
  "winner (ris @ [x]) r \<longleftrightarrow>
     (if same_slot (Rec x) (Rec r)
      then known (Rec x) \<and> champ_step shouldReplaceExisting (holder ris (Rec x)) x = Some r
      else winner ris r)"
proof (cases "same_slot (Rec x) (Rec r)")
  case True
  then have "known (Rec x) \<longleftrightarrow> known (Rec r)" by (auto simp: known_def same_slot_def kind_simps)
  with True show ?thesis by (simp add: winner_def holder_snoc holder_slot)
qed (simp add: winner_def holder_snoc)


subsection \<open>Step 1 computes the winners\<close>

definition holds_winners :: "RecordIntent list \<Rightarrow> nestedRecordMap \<Rightarrow> bool" where
  "holds_winners ris m \<longleftrightarrow> nested_ok m \<and>
     (\<forall>n k v r. PeekNameKindRecord m n k v = Some r \<longleftrightarrow>
        Rec r = \<lparr>Name = n, Kind = k, Value = v\<rparr> \<and> winner ris r)"

lemma holds_winnersD:
  assumes "holds_winners ris m"
  shows "nested_ok m"
    and "PeekNameKindRecord m n k v = Some r \<longleftrightarrow>
      Rec r = \<lparr>Name = n, Kind = k, Value = v\<rparr> \<and> winner ris r"
  using assms by (simp_all add: holds_winners_def)

lemma look_address:
  assumes "holds_winners ris m" and "IsAddress r"
  shows "PeekNameKindRecord m (Name r) (Kind r) (Value r) = holder ris r"
proof -
  have "PeekNameKindRecord m (Name r) (Kind r) (Value r) = Some x \<longleftrightarrow> holder ris r = Some x" for x
    using assms holder_Some(2) [of ris r x]
    by (auto simp: holds_winnersD winner_def known_def same_slot_address)
  then show ?thesis by (metis not_None_eq)
qed

lemma recs_cname:
  assumes "holds_winners ris m" and "is_order ord" and "Kind r = RecordCNAME"
  shows "case PeekNameKindRecords ord m (Name r) RecordCNAME of
      None \<Rightarrow> holder ris r = None
    | Some rs \<Rightarrow> index0 rs = holder ris r \<and> holder ris r \<noteq> None"
proof -
  have "known r" using assms(3) by (simp add: known_def kind_simps)
  have look: "PeekNameKindRecord m (Name r) RecordCNAME v = Some x \<longleftrightarrow>
      holder ris r = Some x \<and> Value (Rec x) = v" for v x
  proof
    assume "PeekNameKindRecord m (Name r) RecordCNAME v = Some x"
    then have x: "Rec x = \<lparr>Name = Name r, Kind = RecordCNAME, Value = v\<rparr>" "winner ris x"
      using assms(1) by (auto simp: holds_winnersD)
    then have "same_slot (Rec x) r" using assms(3) by (simp add: same_slot_def kind_simps)
    then show "holder ris r = Some x \<and> Value (Rec x) = v"
      using x by (simp add: winner_def flip: holder_slot)
  next
    assume x: "holder ris r = Some x \<and> Value (Rec x) = v"
    then have "same_slot (Rec x) r" by (auto dest: holder_Some)
    with x holder_winner [of ris r x] \<open>known r\<close> assms(1,3)
    show "PeekNameKindRecord m (Name r) RecordCNAME v = Some x"
      by (cases "Rec x") (auto simp: holds_winnersD same_slot_def)
  qed
  show ?thesis
  proof (cases "holder ris r")
    case None
    then have "\<forall>v. PeekNameKindRecord m (Name r) RecordCNAME v = None"
      using look by (metis not_None_eq option.distinct(1))
    then have "PeekNameKindRecords ord m (Name r) RecordCNAME = None"
      by (simp add: ix.recs_None holds_winnersD [OF assms(1)])
    with None show ?thesis by simp
  next
    case (Some x)
    then have "PeekNameKindRecord m (Name r) RecordCNAME (Value (Rec x)) = Some x"
      by (simp add: look)
    from ix.recs_unique [OF assms(2) holds_winnersD(1) [OF assms(1)] this]
    obtain rs where "PeekNameKindRecords ord m (Name r) RecordCNAME = Some rs" "index0 rs = Some x"
      using look Some by fastforce
    with Some show ?thesis by simp
  qed
qed

text \<open>Within the slot of \<open>y\<close> the index holds the slot's holder and nothing else.\<close>

lemma look_slot:
  assumes "holds_winners ris m" and "known (Rec y)"
    and "same_slot (Rec y) \<lparr>Name = n, Kind = k, Value = v\<rparr>"
  shows "PeekNameKindRecord m n k v = Some x \<longleftrightarrow>
    holder ris (Rec y) = Some x \<and> Rec x = \<lparr>Name = n, Kind = k, Value = v\<rparr>"
proof -
  have "known \<lparr>Name = n, Kind = k, Value = v\<rparr>"
    using assms(2,3) by (auto simp: known_def same_slot_def kind_simps)
  then show ?thesis
    using holds_winnersD(2) [OF assms(1)] holder_slot [OF assms(3)] by (auto simp: winner_def)
qed

lemma holds_winners_snoc:
  assumes "holds_winners ris m" and "known (Rec y)" and "nested_ok m'"
    and "champ_step shouldReplaceExisting (holder ris (Rec y)) y = Some w"
    and "\<And>n k v x. PeekNameKindRecord m' n k v = Some x \<longleftrightarrow>
      (if same_slot (Rec y) \<lparr>Name = n, Kind = k, Value = v\<rparr>
       then x = w \<and> Rec w = \<lparr>Name = n, Kind = k, Value = v\<rparr>
       else PeekNameKindRecord m n k v = Some x)"
  shows "holds_winners (ris @ [y]) m'"
  unfolding holds_winners_def
proof (intro conjI allI)
  fix n k v r
  show "PeekNameKindRecord m' n k v = Some r \<longleftrightarrow>
      Rec r = \<lparr>Name = n, Kind = k, Value = v\<rparr> \<and> winner (ris @ [y]) r"
    using assms(2,4) holds_winnersD(2) [OF assms(1), of n k v r]
    by (auto simp: assms(5) winner_snoc)
qed (fact assms(3))

lemma holds_winners_vacant:
  assumes "holds_winners ris m" and "known (Rec y)" and "holder ris (Rec y) = None"
  shows "holds_winners (ris @ [y])
    (nestedSet m (Name (Rec y)) (Kind (Rec y)) (Value (Rec y)) y)"
proof (rule holds_winners_snoc [OF assms(1,2)])
  have ok: "nested_ok m" by (rule holds_winnersD [OF assms(1)])
  then show "nested_ok (nestedSet m (Name (Rec y)) (Kind (Rec y)) (Value (Rec y)) y)"
    by (rule ix.ok_put)
  show "champ_step shouldReplaceExisting (holder ris (Rec y)) y = Some y"
    by (simp add: assms(3) champ_step_def)
  fix n k v x
  show "PeekNameKindRecord (nestedSet m (Name (Rec y)) (Kind (Rec y)) (Value (Rec y)) y) n k v =
      Some x \<longleftrightarrow>
      (if same_slot (Rec y) \<lparr>Name = n, Kind = k, Value = v\<rparr>
       then x = y \<and> Rec y = \<lparr>Name = n, Kind = k, Value = v\<rparr>
       else PeekNameKindRecord m n k v = Some x)"
    using look_slot [OF assms(1,2), of n k v x] assms(3)
    by (cases "Rec y") (auto simp: ix.look_put [OF ok])
qed

lemma holds_winners_replace:
  assumes "holds_winners ris m" and "known (Rec y)" and "holder ris (Rec y) = Some e"
    and "shouldReplaceExisting y e"
  shows "holds_winners (ris @ [y])
    (nestedReplace m (Name (Rec y)) (Kind (Rec y)) (Value (Rec e)) (Value (Rec y)) y)"
proof (rule holds_winners_snoc [OF assms(1,2)])
  let ?m' = "nestedReplace m (Name (Rec y)) (Kind (Rec y)) (Value (Rec e)) (Value (Rec y)) y"
  have ok: "nested_ok m" by (rule holds_winnersD [OF assms(1)])
  then show "nested_ok ?m'" by (rule ix.ok_swap)
  show "champ_step shouldReplaceExisting (holder ris (Rec y)) y = Some y"
    by (simp add: assms(3,4) champ_step_def)
  have e: "Name (Rec e) = Name (Rec y)" "Kind (Rec e) = Kind (Rec y)"
    using holder_Some(2) [OF assms(3)] by (simp_all add: same_slot_def)
  fix n k v x
  show "PeekNameKindRecord ?m' n k v = Some x \<longleftrightarrow>
      (if same_slot (Rec y) \<lparr>Name = n, Kind = k, Value = v\<rparr>
       then x = y \<and> Rec y = \<lparr>Name = n, Kind = k, Value = v\<rparr>
       else PeekNameKindRecord m n k v = Some x)"
  proof (cases "same_slot (Rec y) \<lparr>Name = n, Kind = k, Value = v\<rparr>")
    case True
    then show ?thesis
      using look_slot [OF assms(1,2) True, of x] assms(3) e
      by (cases "Rec y"; cases "Rec e") (auto simp: ix.look_swap [OF ok] same_slot_def)
  next
    case False
    have "same_slot (Rec y) (Rec e)" using holder_Some(2) [OF assms(3)] by (simp add: same_slot_sym)
    with False e show ?thesis
      by (cases "Rec y"; cases "Rec e") (auto simp: ix.look_swap [OF ok])
  qed
qed

lemma holds_winners_keep:
  assumes "holds_winners ris m" and "known (Rec y)" and "holder ris (Rec y) = Some e"
    and "\<not> shouldReplaceExisting y e"
  shows "holds_winners (ris @ [y]) m"
proof (rule holds_winners_snoc [OF assms(1,2)])
  show "champ_step shouldReplaceExisting (holder ris (Rec y)) y = Some e"
    by (simp add: assms(3,4) champ_step_def)
  fix n k v x
  show "PeekNameKindRecord m n k v = Some x \<longleftrightarrow>
      (if same_slot (Rec y) \<lparr>Name = n, Kind = k, Value = v\<rparr>
       then x = e \<and> Rec e = \<lparr>Name = n, Kind = k, Value = v\<rparr>
       else PeekNameKindRecord m n k v = Some x)"
    using look_slot [OF assms(1,2), of n k v x] assms(3) by auto
qed (rule holds_winnersD [OF assms(1)])

lemma nestedReplace_same:
  "nested_ok m \<Longrightarrow> PeekNameKindRecord (nestedReplace m n k v v r) = PeekNameKindRecord (nestedSet m n k v r)"
  by (simp add: fun_eq_iff ix.look_swap ix.look_put)

lemma holds_winners_overwrite:
  assumes "holds_winners ris m" and "IsAddress (Rec y)" and "holder ris (Rec y) = Some e"
    and "shouldReplaceExisting y e"
  shows "holds_winners (ris @ [y])
    (nestedSet m (Name (Rec y)) (Kind (Rec y)) (Value (Rec y)) y)"
proof -
  have ok: "nested_ok m" by (rule holds_winnersD [OF assms(1)])
  have "Rec e = Rec y" using holder_Some(2) [OF assms(3)] assms(2) by (simp add: same_slot_address)
  then show ?thesis
    using holds_winners_replace [OF assms(1) _ assms(3,4)] assms(2)
    by (simp add: known_def holds_winners_def nestedReplace_same [OF ok] ix.ok_put [OF ok])
qed

lemma dedupStep_address:
  "IsAddress (Rec y) \<Longrightarrow>
   dedupStep ords i m y =
     (if (case PeekNameKindRecord m (Name (Rec y)) (Kind (Rec y)) (Value (Rec y)) of
            None \<Rightarrow> True | Some existing \<Rightarrow> shouldReplaceExisting y existing)
      then Some (nestedSet m (Name (Rec y)) (Kind (Rec y)) (Value (Rec y)) y) else Some m)"
  by (auto simp: dedupStep_def kind_simps Let_def)

lemma dedupStep_cname:
  "IsCNAME (Rec y) \<Longrightarrow>
   dedupStep ords i m y =
     (case PeekNameKindRecords (ords Dedup i) m (Name (Rec y)) RecordCNAME of
        Some cnames \<Rightarrow>
          (case index0 cnames of
             None \<Rightarrow> None
           | Some existing \<Rightarrow>
               if shouldReplaceExisting y existing
               then Some (nestedReplace m (Name (Rec y)) (Kind (Rec y)) (Value (Rec existing))
                 (Value (Rec y)) y)
               else Some m)
      | None \<Rightarrow> Some (nestedSet m (Name (Rec y)) (Kind (Rec y)) (Value (Rec y)) y))"
  by (simp add: dedupStep_def kind_simps Let_def split: option.split)

lemma dedupStep_winners:
  assumes "holds_winners ris m" and "orders_ok ords"
  shows "\<exists>m'. dedupStep ords i m y = Some m' \<and> holds_winners (ris @ [y]) m'"
proof -
  consider (address) "IsAddress (Rec y)" | (cname) "IsCNAME (Rec y)" | (other) "\<not> known (Rec y)"
    by (auto simp: known_def)
  then show ?thesis
  proof cases
    case address
    then have k: "known (Rec y)" by (simp add: known_def)
    show ?thesis
      unfolding dedupStep_address [OF address] look_address [OF assms(1) address]
      using holds_winners_vacant [OF assms(1) k] holds_winners_overwrite [OF assms(1) address]
        holds_winners_keep [OF assms(1) k]
      by (cases "holder ris (Rec y)") auto
  next
    case cname
    then have k: "known (Rec y)" and c: "Kind (Rec y) = RecordCNAME"
      by (simp_all add: known_def kind_simps)
    show ?thesis
      unfolding dedupStep_cname [OF cname]
      using recs_cname [OF assms(1) orders_okD [OF assms(2), of Dedup i] c]
        holds_winners_vacant [OF assms(1) k] holds_winners_replace [OF assms(1) k]
        holds_winners_keep [OF assms(1) k]
      by (auto split: option.splits)
  next
    case other
    have "winner (ris @ [y]) r \<longleftrightarrow> winner ris r" for r
      using other by (auto simp: winner_def holder_snoc known_def same_slot_def kind_simps)
    moreover have "dedupStep ords i m y = Some m"
      using other by (simp add: dedupStep_def known_def kind_simps)
    ultimately show ?thesis using assms(1) by (simp add: holds_winners_def)
  qed
qed


subsection \<open>Step 2 keeps, for each name, the alias or the addresses\<close>

definition holds_kept ::
  "RecordIntent list \<Rightarrow> string list \<Rightarrow> nestedRecordMap \<Rightarrow> bool"
where
  "holds_kept ris ns out \<longleftrightarrow> nested_ok out \<and>
     (\<forall>n k v r. PeekNameKindRecord out n k v = Some r \<longleftrightarrow>
        n \<in> set ns \<and> Rec r = \<lparr>Name = n, Kind = k, Value = v\<rparr> \<and> kept ris r)"

lemma nested_ok_setAll [wf_intros]: "nested_ok m \<Longrightarrow> nested_ok (setAll n k rs m)"
  unfolding setAll_def by (induction rs arbitrary: m) (simp_all add: ix.ok_put)

lemma look_setAll:
  "nested_ok m \<Longrightarrow> \<forall>q \<in> set rs. g (Value (Rec q)) = q \<Longrightarrow>
   PeekNameKindRecord (setAll n k rs m) n' k' v =
     (if n' = n \<and> k' = k \<and> (\<exists>q \<in> set rs. Value (Rec q) = v) then Some (g v)
      else PeekNameKindRecord m n' k' v)"
proof (induction rs arbitrary: m)
  case (Cons q rs)
  have "setAll n k (q # rs) m = setAll n k rs (nestedSet m n k (Value (Rec q)) q)"
    by (simp add: setAll_def)
  with Cons show ?case by (auto simp: ix.ok_put ix.look_put)
qed (simp add: setAll_def)

lemma slice_of_recs:
  "is_order ord \<Longrightarrow> nested_ok m \<Longrightarrow>
   set (slice_of (PeekNameKindRecords ord m n k)) = {r. \<exists>v. PeekNameKindRecord m n k v = Some r}"
  using ix.recs_None [of m ord n k] ix.recs_Some [of ord m n k]
  by (cases "PeekNameKindRecords ord m n k") (auto simp: slice_of_def)

text \<open>Copying the records of a kind copies its lookups.\<close>

lemma look_copy:
  assumes "holds_winners ris m" and "is_order ord" and "nested_ok out"
  shows "PeekNameKindRecord (setAll n k (slice_of (PeekNameKindRecords ord m n k)) out) n' k' v =
    (if n' = n \<and> k' = k \<and> PeekNameKindRecord m n k v \<noteq> None then PeekNameKindRecord m n k v
     else PeekNameKindRecord out n' k' v)"
proof -
  let ?rs = "slice_of (PeekNameKindRecords ord m n k)"
  have rs: "q \<in> set ?rs \<longleftrightarrow> PeekNameKindRecord m n k (Value (Rec q)) = Some q" for q
    using slice_of_recs [OF assms(2) holds_winnersD(1) [OF assms(1)], of n k]
    by (auto simp: holds_winnersD(2) [OF assms(1)])
  then have "\<forall>q \<in> set ?rs. the (PeekNameKindRecord m n k (Value (Rec q))) = q" by simp
  from look_setAll [OF assms(3) this]
  have "PeekNameKindRecord (setAll n k ?rs out) n' k' v =
    (if n' = n \<and> k' = k \<and> (\<exists>q \<in> set ?rs. Value (Rec q) = v)
     then Some (the (PeekNameKindRecord m n k v)) else PeekNameKindRecord out n' k' v)" .
  moreover have "(\<exists>q \<in> set ?rs. Value (Rec q) = v) \<longleftrightarrow> PeekNameKindRecord m n k v \<noteq> None"
  proof
    assume "PeekNameKindRecord m n k v \<noteq> None"
    then obtain q where q: "PeekNameKindRecord m n k v = Some q" by blast
    then have "Value (Rec q) = v" by (simp add: holds_winnersD(2) [OF assms(1)])
    with q rs show "\<exists>q \<in> set ?rs. Value (Rec q) = v" by auto
  qed (use rs in auto)
  ultimately show ?thesis by auto
qed

text \<open>The address records under a name are the rivals of its alias.\<close>

lemma addrRecords_None:
  "addrRecords o1 o2 m n = None \<longleftrightarrow>
     PeekNameKindRecords o1 m n RecordA = None \<and> PeekNameKindRecords o2 m n RecordAAAA = None"
  by (simp add: addrRecords_def Let_def)

lemma set_addrRecords:
  assumes "is_order o1" and "is_order o2" and "nested_ok m"
  shows "set (slice_of (addrRecords o1 o2 m n)) =
    {r. \<exists>k v. (k = RecordA \<or> k = RecordAAAA) \<and> PeekNameKindRecord m n k v = Some r}"
proof -
  have "set (slice_of (addrRecords o1 o2 m n)) =
      set (slice_of (PeekNameKindRecords o1 m n RecordA)) \<union>
      set (slice_of (PeekNameKindRecords o2 m n RecordAAAA))"
    by (auto simp: addrRecords_def slice_of_def Let_def split: option.splits)
  then show ?thesis using assms by (auto simp: slice_of_recs)
qed

lemma set_addrRecords_rivals:
  assumes "holds_winners ris m" and "is_order o1" and "is_order o2"
  shows "set (slice_of (addrRecords o1 o2 m (Name (Rec c)))) = set (rivals ris c)"
proof (rule set_eqI)
  fix a
  have "a \<in> set (slice_of (addrRecords o1 o2 m (Name (Rec c)))) \<longleftrightarrow>
      (\<exists>k v. (k = RecordA \<or> k = RecordAAAA) \<and>
         Rec a = \<lparr>Name = Name (Rec c), Kind = k, Value = v\<rparr> \<and> winner ris a)"
    by (simp add: set_addrRecords [OF assms(2,3) holds_winnersD(1) [OF assms(1)]]
        holds_winnersD(2) [OF assms(1)])
  also have "\<dots> \<longleftrightarrow> winner ris a \<and> IsAddress (Rec a) \<and> Name (Rec a) = Name (Rec c)"
    by (cases "Rec a") (auto simp: kind_simps)
  also have "\<dots> \<longleftrightarrow> a \<in> set (rivals ris c)" by (auto simp: rivals_def dest: winner_mem)
  finally show "a \<in> set (slice_of (addrRecords o1 o2 m (Name (Rec c)))) \<longleftrightarrow>
      a \<in> set (rivals ris c)" .
qed

definition alias_of :: "RecordIntent list \<Rightarrow> string \<Rightarrow> RecordIntent option" where
  "alias_of ris n = holder ris \<lparr>Name = n, Kind = RecordCNAME, Value = []\<rparr>"

lemma alias_of_Some:
  "alias_of ris n = Some c \<longleftrightarrow> winner ris c \<and> IsCNAME (Rec c) \<and> Name (Rec c) = n"
proof
  assume c: "alias_of ris n = Some c"
  then have "same_slot (Rec c) \<lparr>Name = n, Kind = RecordCNAME, Value = []\<rparr>"
    unfolding alias_of_def by (rule holder_Some)
  moreover have "winner ris c"
    using c unfolding alias_of_def by (rule holder_winner) (simp add: known_def kind_simps)
  ultimately show "winner ris c \<and> IsCNAME (Rec c) \<and> Name (Rec c) = n"
    by (simp add: same_slot_def kind_simps)
next
  assume c: "winner ris c \<and> IsCNAME (Rec c) \<and> Name (Rec c) = n"
  then have "same_slot (Rec c) \<lparr>Name = n, Kind = RecordCNAME, Value = []\<rparr>"
    by (simp add: same_slot_def kind_simps)
  from holder_slot [OF this, of ris] c show "alias_of ris n = Some c"
    by (simp add: alias_of_def winner_def)
qed

lemma rivals_name: "Name (Rec c) = Name (Rec c') \<Longrightarrow> rivals ris c = rivals ris c'"
  by (simp add: rivals_def)

text \<open>What survives under a name, by the fate of its alias.\<close>

lemma kept_alias:
  assumes "alias_of ris n = Some c" and "outranks_all c (rivals ris c)"
  shows "kept ris r \<and> Name (Rec r) = n \<longleftrightarrow> r = c"
proof
  have c: "winner ris c" "IsCNAME (Rec c)" "Name (Rec c) = n"
    using assms(1) by (simp_all add: alias_of_Some)
  assume r: "kept ris r \<and> Name (Rec r) = n"
  then have w: "winner ris r" by (simp add: kept_def)
  have "\<not> IsAddress (Rec r)" using r c assms(2) winner_mem [OF c(1)] by (auto simp: kept_def)
  then have "IsCNAME (Rec r)" using w by (simp add: winner_def known_def)
  with w r have "alias_of ris n = Some r" by (simp add: alias_of_Some)
  with assms(1) show "r = c" by simp
next
  assume "r = c"
  with assms show "kept ris r \<and> Name (Rec r) = n"
    by (auto simp: alias_of_Some kept_def kind_simps)
qed

lemma kept_addresses:
  assumes "\<And>c. alias_of ris n = Some c \<Longrightarrow> \<not> outranks_all c (rivals ris c)"
  shows "kept ris r \<and> Name (Rec r) = n \<longleftrightarrow>
    winner ris r \<and> IsAddress (Rec r) \<and> Name (Rec r) = n"
  using assms
  by (auto simp: kept_def alias_of_Some winner_def known_def dest: address_not_cname)

lemma resolveStep_eq:
  assumes "holds_winners ris m" and "orders_ok ords"
  shows "resolveStep ords m i out n = Some
    (case alias_of ris n of
       Some c \<Rightarrow>
         if outranks_all c (rivals ris c) then nestedSet out n RecordCNAME (Value (Rec c)) c
         else setAll n RecordAAAA (slice_of (PeekNameKindRecords (ords AtAAAA i) m n RecordAAAA))
           (setAll n RecordA (slice_of (PeekNameKindRecords (ords AtA i) m n RecordA)) out)
     | None \<Rightarrow>
         setAll n RecordAAAA (slice_of (PeekNameKindRecords (ords AtAAAA i) m n RecordAAAA))
           (setAll n RecordA (slice_of (PeekNameKindRecords (ords AtA i) m n RecordA)) out))"
proof -
  let ?addr = "addrRecords (ords AddrA i) (ords AddrAAAA i) m n"
  have ok: "nested_ok m" by (rule holds_winnersD [OF assms(1)])
  have hasAddr: "PeekNameKindRecords (ords AtA i) m n RecordA = None \<and>
      PeekNameKindRecords (ords AtAAAA i) m n RecordAAAA = None \<longleftrightarrow> slice_of ?addr = []"
  proof -
    have "slice_of ?addr = [] \<longleftrightarrow>
        {r. \<exists>k v. (k = RecordA \<or> k = RecordAAAA) \<and> PeekNameKindRecord m n k v = Some r} = {}"
      unfolding set_empty [symmetric] using assms(2) by (simp add: set_addrRecords ok)
    also have "\<dots> \<longleftrightarrow> (\<forall>k v. k = RecordA \<or> k = RecordAAAA \<longrightarrow> PeekNameKindRecord m n k v = None)"
      by (simp add: set_eq_iff) (metis not_Some_eq)
    finally show ?thesis by (auto simp: ix.recs_None [OF ok])
  qed
  have cname: "case PeekNameKindRecords (ords AtCNAME i) m n RecordCNAME of
      None \<Rightarrow> alias_of ris n = None
    | Some rs \<Rightarrow> index0 rs = alias_of ris n \<and> alias_of ris n \<noteq> None"
    unfolding alias_of_def
    using recs_cname [OF assms(1), of "ords AtCNAME i"
        "\<lparr>Name = n, Kind = RecordCNAME, Value = []\<rparr>"] assms(2)
    by simp
  have rivals: "shouldReplaceAllExisting c (slice_of ?addr) \<longleftrightarrow> outranks_all c (rivals ris c)"
    if "alias_of ris n = Some c" for c
    using that set_addrRecords_rivals [OF assms(1), of "ords AddrA i" "ords AddrAAAA i" c] assms(2)
    by (simp add: alias_of_Some shouldReplaceAllExisting_rank outranks_all_def)
  show ?thesis
  proof (cases "alias_of ris n")
    case None
    with cname have "PeekNameKindRecords (ords AtCNAME i) m n RecordCNAME = None"
      by (auto split: option.splits)
    with None show ?thesis by (auto simp: resolveStep_def Let_def slice_of_def setAll_def)
  next
    case (Some c)
    with cname obtain rs where rs: "PeekNameKindRecords (ords AtCNAME i) m n RecordCNAME = Some rs"
      "index0 rs = Some c" by (auto split: option.splits)
    show ?thesis
    proof (cases "slice_of ?addr = []")
      case True
      then have "outranks_all c (rivals ris c)"
        using rivals [OF Some] by (simp add: shouldReplaceAllExisting_def)
      with True hasAddr rs Some show ?thesis
        by (simp add: resolveStep_def Let_def slice_of_def [of "Some rs"])
    next
      case False
      with hasAddr rs Some rivals [OF Some] show ?thesis
        by (auto simp: resolveStep_def Let_def slice_of_def [of "Some rs"])
    qed
  qed
qed

lemma holds_kept_snoc:
  assumes "holds_kept ris ns out" and "nested_ok out'" and "n \<notin> set ns"
    and "\<And>n' k v r. PeekNameKindRecord out' n' k v = Some r \<longleftrightarrow>
      (if n' = n then Rec r = \<lparr>Name = n, Kind = k, Value = v\<rparr> \<and> kept ris r
       else PeekNameKindRecord out n' k v = Some r)"
  shows "holds_kept ris (ns @ [n]) out'"
  using assms by (auto simp: holds_kept_def)

lemma resolveStep_kept:
  assumes "holds_winners ris m" and "orders_ok ords" and "holds_kept ris ns out" and "n \<notin> set ns"
  shows "\<exists>out'. resolveStep ords m i out n = Some out' \<and> holds_kept ris (ns @ [n]) out'"
proof -
  let ?addrs = "setAll n RecordAAAA (slice_of (PeekNameKindRecords (ords AtAAAA i) m n RecordAAAA))
      (setAll n RecordA (slice_of (PeekNameKindRecords (ords AtA i) m n RecordA)) out)"
  have ok: "nested_ok out" and vacant: "PeekNameKindRecord out n k v = None" for k v
    using assms(3,4) unfolding holds_kept_def by (auto intro: ccontr)
  have addrs: "holds_kept ris (ns @ [n]) ?addrs"
    if a: "\<And>c. alias_of ris n = Some c \<Longrightarrow> \<not> outranks_all c (rivals ris c)"
  proof (rule holds_kept_snoc [OF assms(3) _ assms(4)])
    show "nested_ok ?addrs" by (intro nested_ok_setAll ok)
    fix n' k v r
    have "PeekNameKindRecord ?addrs n' k v =
        (if n' = n \<and> (k = RecordA \<or> k = RecordAAAA) \<and> PeekNameKindRecord m n k v \<noteq> None
         then PeekNameKindRecord m n k v else PeekNameKindRecord out n' k v)"
      using look_copy [OF assms(1) orders_okD [OF assms(2)]] ok
      by (auto simp: nested_ok_setAll)
    moreover have "PeekNameKindRecord m n k v = Some r \<and> (k = RecordA \<or> k = RecordAAAA) \<longleftrightarrow>
        Rec r = \<lparr>Name = n, Kind = k, Value = v\<rparr> \<and> kept ris r"
      using kept_addresses [of ris n r, OF a] holds_winnersD(2) [OF assms(1), of n k v r]
      by (cases "Rec r") (auto simp: kind_simps)
    ultimately show "PeekNameKindRecord ?addrs n' k v = Some r \<longleftrightarrow>
        (if n' = n then Rec r = \<lparr>Name = n, Kind = k, Value = v\<rparr> \<and> kept ris r
         else PeekNameKindRecord out n' k v = Some r)"
      using vacant by auto
  qed
  have alias': "holds_kept ris (ns @ [n]) (nestedSet out n RecordCNAME (Value (Rec c)) c)"
    if c: "alias_of ris n = Some c" "outranks_all c (rivals ris c)" for c
  proof (rule holds_kept_snoc [OF assms(3) _ assms(4)])
    show "nested_ok (nestedSet out n RecordCNAME (Value (Rec c)) c)" by (rule ix.ok_put [OF ok])
    fix n' k v r
    show "PeekNameKindRecord (nestedSet out n RecordCNAME (Value (Rec c)) c) n' k v = Some r \<longleftrightarrow>
        (if n' = n then Rec r = \<lparr>Name = n, Kind = k, Value = v\<rparr> \<and> kept ris r
         else PeekNameKindRecord out n' k v = Some r)"
      using kept_alias [OF c, of r] c(1) vacant
      by (auto simp: ix.look_put [OF ok] alias_of_Some kind_simps Record_conv)
  qed
  show ?thesis
    using addrs alias'
    by (cases "alias_of ris n") (auto simp: resolveStep_eq [OF assms(1,2)])
qed


subsection \<open>The result of the filter\<close>

theorem FilterRecordIntents_kept:
  assumes "orders_ok ords"
  shows "\<exists>out. FilterRecordIntents ords ris = Some out \<and> set out = {r. kept ris r}"
proof -
  have "\<exists>m. foldM (dedupStep ords) 0 newNestedRecordMap ris = Some m \<and> holds_winners ris m"
  proof (rule foldM_inv)
    show "holds_winners [] newNestedRecordMap"
      by (simp add: holds_winners_def ix.ok_empty ix.look_empty winner_def)
  qed (rule dedupStep_winners [OF _ assms])
  then obtain m where m: "foldM (dedupStep ords) 0 newNestedRecordMap ris = Some m"
    and w: "holds_winners ris m" by blast
  have ok: "nested_ok m" by (rule holds_winnersD [OF w])
  define ns where "ns = GetAllNames (ords Names 0) m"
  have "distinct ns" unfolding ns_def using ix.distinct_names [OF _ ok] assms by auto
  have "\<exists>out. foldM (resolveStep ords m) 0 newNestedRecordMap ns = Some out \<and> holds_kept ris ns out"
  proof (rule foldM_inv)
    show "holds_kept ris [] newNestedRecordMap"
      by (simp add: holds_kept_def ix.ok_empty ix.look_empty)
    fix i ys y zs out
    assume "ns = ys @ y # zs" and "holds_kept ris ys out"
    then show "\<exists>s'. resolveStep ords m i out y = Some s' \<and> holds_kept ris (ys @ [y]) s'"
      using resolveStep_kept [OF w assms] \<open>distinct ns\<close> by simp
  qed
  then obtain out where out: "foldM (resolveStep ords m) 0 newNestedRecordMap ns = Some out"
    and k: "holds_kept ris ns out" by blast
  have names: "Name (Rec r) \<in> set ns" if "kept ris r" for r
    using that holds_winnersD(2) [OF w, of "Name (Rec r)" "Kind (Rec r)" "Value (Rec r)" r]
      ix.set_names [OF orders_okD [OF assms] ok] by (auto simp: ns_def kept_def)
  have "set (GetAllValues (ords AllValues 0) out) =
      {r. \<exists>n k v. PeekNameKindRecord out n k v = Some r}"
    using k assms by (intro ix.set_all) (auto simp: holds_kept_def)
  also have "\<dots> = {r. kept ris r}"
  proof (intro Collect_cong iffI)
    fix r assume "kept ris r"
    then have "PeekNameKindRecord out (Name (Rec r)) (Kind (Rec r)) (Value (Rec r)) = Some r"
      using k names by (simp add: holds_kept_def)
    then show "\<exists>n k v. PeekNameKindRecord out n k v = Some r" by blast
  qed (use k in \<open>auto simp: holds_kept_def\<close>)
  finally show ?thesis using m out by (simp add: FilterRecordIntents_def ns_def)
qed

lemma kept_mem: "kept ris r \<Longrightarrow> r \<in> set ris"
  by (simp add: kept_def winner_mem)

lemma kept_known: "kept ris r \<Longrightarrow> known (Rec r)"
  by (simp add: kept_def winner_def)

lemma incompatible_cases:
  assumes "\<not> compatible r q"
  obtains (slot) "known r" "same_slot r q"
    | (left) "IsCNAME r" "IsAddress q" "Name r = Name q"
    | (right) "IsAddress r" "IsCNAME q" "Name r = Name q"
  using assms by (auto simp: compatible_def same_slot_def known_def kind_simps)

lemma same_slot_incompatible: "known r \<Longrightarrow> same_slot r q \<Longrightarrow> \<not> compatible r q"
  by (auto simp: compatible_def same_slot_def known_def kind_simps)

text \<open>An alias and an address of one name are never both kept.\<close>

lemma kept_alias_address:
  assumes "kept ris c" and "IsCNAME (Rec c)" and "kept ris a" and "IsAddress (Rec a)"
  shows "Name (Rec c) \<noteq> Name (Rec a)"
proof
  assume n: "Name (Rec c) = Name (Rec a)"
  have "winner ris c" "outranks_all c (rivals ris c)" using assms(1,2) by (simp_all add: kept_def)
  with assms(2-4) n winner_mem [of ris c] show False by (auto simp: kept_def)
qed

lemma kept_compatible:
  assumes "kept ris r" and "kept ris q" and "r \<noteq> q"
  shows "compatible (Rec r) (Rec q)"
proof (rule ccontr)
  assume "\<not> compatible (Rec r) (Rec q)"
  then show False
  proof (cases rule: incompatible_cases)
    case slot
    then show ?thesis using assms winner_unique [of ris r q] by (simp add: kept_def)
  next
    case left
    then show ?thesis using kept_alias_address [of ris r q] assms by simp
  next
    case right
    then show ?thesis using kept_alias_address [of ris q r] assms by simp
  qed
qed

lemma zone_ok_kept: "zone_ok {r. kept ris r}"
  by (simp add: zone_ok_def kept_compatible)

text \<open>A record is dropped only for a kept one, in conflict with it and of no lower priority.\<close>

lemma winner_fate:
  assumes "winner ris w" and "\<not> kept ris w"
  shows "\<exists>q. kept ris q \<and> \<not> compatible (Rec q) (Rec w) \<and> rank q \<le> rank w \<and>
    Name (Rec q) = Name (Rec w) \<and> (IsAddress (Rec q) \<longleftrightarrow> IsCNAME (Rec w))"
proof (cases "IsCNAME (Rec w)")
  case True
  then obtain a where a: "a \<in> set (rivals ris w)" "\<not> rank w < rank a"
    using assms address_not_cname by (auto simp: kept_def outranks_all_def)
  then have w: "winner ris a" "IsAddress (Rec a)" "Name (Rec a) = Name (Rec w)"
    by (simp_all add: rivals_def)
  have "alias_of ris (Name (Rec w)) = Some w" using True assms(1) by (simp add: alias_of_Some)
  then have "kept ris a"
    using kept_addresses [of ris "Name (Rec w)" a] w a by (auto simp: outranks_all_def)
  then show ?thesis
    using True w a(2) by (intro exI [of _ a]) (auto simp: compatible_def)
next
  case False
  then have "IsAddress (Rec w)" using assms(1) by (simp add: winner_def known_def)
  then obtain c where c: "winner ris c" "IsCNAME (Rec c)" "Name (Rec c) = Name (Rec w)"
    "outranks_all c (rivals ris c)"
    using assms address_not_cname by (auto simp: kept_def)
  then have "kept ris c"
    using kept_alias [of ris "Name (Rec c)" c c] by (simp add: alias_of_Some)
  moreover have "w \<in> set (rivals ris c)"
    using assms(1) \<open>IsAddress (Rec w)\<close> c(3) winner_mem by (simp add: rivals_def)
  ultimately show ?thesis
    using c \<open>IsAddress (Rec w)\<close> False address_not_cname [of "Rec c"]
    by (intro exI [of _ c]) (auto simp: outranks_all_def compatible_def less_imp_le)
qed

lemma dropped_beaten:
  assumes "r \<in> set ris" and "known (Rec r)" and "\<not> kept ris r"
  shows "\<exists>q. kept ris q \<and> q \<noteq> r \<and> \<not> compatible (Rec q) (Rec r) \<and> rank q \<le> rank r"
proof -
  obtain w where h: "holder ris (Rec r) = Some w"
    using assms(1) holder_None [of ris "Rec r"] same_slot_refl by (cases "holder ris (Rec r)") blast+
  then have w: "winner ris w" using assms(2) by (rule holder_winner)
  have slot: "same_slot (Rec w) (Rec r)" and le: "rank w \<le> rank r"
    using holder_Some(2,3) [OF h] assms(1) by simp_all
  show ?thesis
  proof (cases "kept ris w")
    case True
    have "known (Rec w)" using w by (simp add: winner_def)
    with slot have "\<not> compatible (Rec w) (Rec r)" by (rule_tac same_slot_incompatible)
    with True le assms(3) show ?thesis by blast
  next
    case False
    from winner_fate [OF w this] obtain q where q: "kept ris q" "rank q \<le> rank w"
      "Name (Rec q) = Name (Rec w)" "IsAddress (Rec q) \<longleftrightarrow> IsCNAME (Rec w)" by blast
    have "\<not> compatible (Rec q) (Rec r)"
      using slot q(3,4) kept_known [OF q(1)] assms(2)
      by (auto simp: compatible_def same_slot_def known_def kind_simps)
    with q le assms(3) show ?thesis by fastforce
  qed
qed

text \<open>A conflict-free list passes unchanged.\<close>

lemma kept_zone:
  assumes "zone_ok (set ris)"
  shows "kept ris r \<longleftrightarrow> r \<in> set ris \<and> known (Rec r)"
proof
  assume r: "r \<in> set ris \<and> known (Rec r)"
  show "kept ris r"
  proof (rule ccontr)
    assume "\<not> kept ris r"
    with dropped_beaten [of r ris] r obtain q where
      "kept ris q" "q \<noteq> r" "\<not> compatible (Rec q) (Rec r)" by blast
    with zone_okD [OF assms, of q r] r show False by (simp add: kept_mem)
  qed
qed (simp add: kept_mem kept_known)

text \<open>Without ties the order of the desired records does not matter.\<close>

definition untied :: "RecordIntent list \<Rightarrow> bool" where
  "untied ris \<longleftrightarrow>
     (\<forall>r \<in> set ris. \<forall>q \<in> set ris. same_slot (Rec r) (Rec q) \<and> rank r = rank q \<longrightarrow> r = q)"

lemma kept_set:
  assumes "untied ris" and "set ris' = set ris"
  shows "kept ris' = kept ris"
proof -
  have "inj_on rank (set (filter (\<lambda>q. same_slot (Rec q) rc) ris))" for rc
    using assms(1) same_slot_eq [of "Rec _" rc] by (intro inj_onI) (auto simp: untied_def)
  then have "holder ris = holder ris'"
    unfolding holder_def using assms(2) by (intro ext prio.champion_set) auto
  then have "winner ris' = winner ris" by (simp add: fun_eq_iff winner_def)
  moreover from this have "set (rivals ris' r) = set (rivals ris r)" for r
    using assms(2) by (auto simp: rivals_def)
  ultimately show ?thesis
    using assms(2) by (simp add: fun_eq_iff kept_def outranks_all_def)
qed

end
