(* ===== verification/Reconciliation.thy ===== *)
theory Reconciliation
  imports Intent_Filter Config
begin

text \<open>
  \<^verbatim>\<open>internal/core/reconciliation.go\<close>, \<open>ReconcileAndValidate\<close>: the comparison of the desired
  with the actual records.
\<close>

subsection \<open>Comparing with the actual records\<close>

type_synonym intent_map = "(string \<times> RecordIntent) list"

text \<open>Step 1: the stale records of this host and the orphans of dead hosts.\<close>

definition staleStep ::
  "string list \<Rightarrow> AppConfig \<Rightarrow> string list option \<Rightarrow> RecordIntent \<Rightarrow>
   intent_map \<times> nestedRecordMap \<Rightarrow> intent_map \<times> nestedRecordMap"
where
  "staleStep desiredSet cfg liveHostnames ri st =
     (let (toRemoveMap, actualByNameKind) = st;
          remove = (AList.update (Intent_Key ri) ri toRemoveMap, actualByNameKind);
          keep = (toRemoveMap,
            nestedSet actualByNameKind (Name (Rec ri)) (Kind (Rec ri)) (Value (Rec ri)) ri)
      in
      if Intent_Key ri \<notin> set desiredSet then
        if Hostname ri = AppHostname cfg then remove
        else case liveHostnames of
          Some live \<Rightarrow> if Hostname ri \<notin> set live then remove else keep
        | None \<Rightarrow> keep
      else keep)"

text \<open>\<^verbatim>\<open>for _, r := range rs { evictions[r.Key()] = r }\<close>\<close>

definition evictAll :: "RecordIntent list \<Rightarrow> intent_map" where
  "evictAll rs = fold (\<lambda>r ev. AList.update (Intent_Key r) r ev) rs []"

text \<open>
  Step 2: what a desired record evicts, or \<open>Skip\<close> for the code's \<^verbatim>\<open>continue\<close>.  The cases of A
  and AAAA are the same code but for the kind.
\<close>

datatype verdict = Skip | Evict intent_map

definition addressVerdict ::
  "RecordKind \<Rightarrow> range_orders \<Rightarrow> nat \<Rightarrow> nestedRecordMap \<Rightarrow> RecordIntent \<Rightarrow> verdict option"
where
  "addressVerdict kind ords i m d =
     (case PeekNameKindRecords (ords EvictCNAME i) m (Name (Rec d)) RecordCNAME of
        Some cnames \<Rightarrow>
          (case index0 cnames of
             None \<Rightarrow> None
           | Some existing \<Rightarrow>
               if Force d \<or> Before (Created d) (Created existing)
               then Some (Evict (evictAll cnames)) else Some Skip)
      | None \<Rightarrow>
          (case PeekNameKindRecord m (Name (Rec d)) kind (Value (Rec d)) of
             Some r \<Rightarrow>
               if Intent_Equal r d then Some Skip
               else if Force d \<or> Before (Created d) (Created r)
               then Some (Evict (evictAll [r])) else Some Skip
           | None \<Rightarrow> Some (Evict [])))"

definition cnameVerdict ::
  "range_orders \<Rightarrow> nat \<Rightarrow> nestedRecordMap \<Rightarrow> RecordIntent \<Rightarrow> verdict option"
where
  "cnameVerdict ords i m d =
     (case addrRecords (ords EvictA i) (ords EvictAAAA i) m (Name (Rec d)) of
        Some allAddr \<Rightarrow>
          let olderThanAll = list_all (\<lambda>r. Before (Created d) (Created r)) allAddr
          in if Force d \<or> olderThanAll then Some (Evict (evictAll allAddr)) else Some Skip
      | None \<Rightarrow>
          (case PeekNameKindRecords (ords EvictCNAME i) m (Name (Rec d)) RecordCNAME of
             Some cnames \<Rightarrow>
               (case index0 cnames of
                  None \<Rightarrow> None
                | Some existing \<Rightarrow>
                    if Intent_Equal existing d then Some Skip
                    else if Force d \<or> Before (Created d) (Created existing)
                    then Some (Evict (evictAll cnames)) else Some Skip)
           | None \<Rightarrow> Some (Evict [])))"

definition evictionsFor ::
  "range_orders \<Rightarrow> nat \<Rightarrow> nestedRecordMap \<Rightarrow> RecordIntent \<Rightarrow> verdict option"
where
  "evictionsFor ords i m d =
     (if IsA (Rec d) then addressVerdict RecordA ords i m d
      else if IsAAAA (Rec d) then addressVerdict RecordAAAA ords i m d
      else if IsCNAME (Rec d) then cnameVerdict ords i m d
      else Some (Evict []))"

text \<open>Steps 2 and 3 for one desired record; the state holds the two result maps.\<close>

definition simulate :: "intent_map \<Rightarrow> intent_map \<Rightarrow> RecordIntent list \<Rightarrow> RecordIntent list" where
  "simulate toRemoveMap evictions actual =
     filter (\<lambda>r. \<not> (Intent_Key r \<in> set (map fst toRemoveMap) \<or>
                     Intent_Key r \<in> set (map fst evictions))) actual"

definition desiredStep ::
  "range_orders \<Rightarrow> RecordIntent list \<Rightarrow> nestedRecordMap \<Rightarrow> nat \<Rightarrow> intent_map \<times> intent_map \<Rightarrow>
   RecordIntent \<Rightarrow> (intent_map \<times> intent_map) option"
where
  "desiredStep ords actual actualByNameKind i st d =
     (let (toAddMap, toRemoveMap) = st in
      case evictionsFor ords i actualByNameKind d of
        None \<Rightarrow> None
      | Some Skip \<Rightarrow> Some st
      | Some (Evict evictions) \<Rightarrow>
          (case ValidateRecord d (simulate toRemoveMap evictions actual) of
             None \<Rightarrow>
               Some (AList.update (Record_Key (Rec d)) d toAddMap,
                     fold (\<lambda>(k, v) rm. AList.update k v rm) evictions toRemoveMap)
           | Some err \<Rightarrow> Some st))"

definition ReconcileAndValidate ::
  "range_orders \<Rightarrow> RecordIntent list \<Rightarrow> RecordIntent list \<Rightarrow> AppConfig \<Rightarrow> string list option \<Rightarrow>
   (RecordIntent list \<times> RecordIntent list) option"
where
  "ReconcileAndValidate ords desired actual cfg liveHostnames =
     (let desiredSet = map Intent_Key desired;
          (toRemoveMap, actualByNameKind) =
            fold (staleStep desiredSet cfg liveHostnames) actual ([], newNestedRecordMap)
      in
      map_option (\<lambda>(toAddMap, toRemoveMap).
          (range_vals (ords Adds 0) toAddMap, range_vals (ords Removes 0) toRemoveMap))
        (foldM (desiredStep ords actual actualByNameKind) 0 ([], toRemoveMap) desired))"

lemmas [go_eval] =
  staleStep_def evictAll_def addressVerdict_def cnameVerdict_def evictionsFor_def simulate_def
  desiredStep_def ReconcileAndValidate_def


subsection \<open>Maps of intents\<close>

lemma evictAll_Nil [simp]: "evictAll [] = []"
  by (simp add: evictAll_def)

lemma evictAll_snoc: "evictAll (rs @ [r]) = AList.update (Intent_Key r) r (evictAll rs)"
  by (simp add: evictAll_def)

lemma map_of_evictAll:
  "map_of (evictAll rs) k = Some r \<Longrightarrow> r \<in> set rs \<and> Intent_Key r = k"
proof (induction rs rule: rev_induct)
  case (snoc q rs)
  show ?case
  proof (cases "k = Intent_Key q")
    case True
    then show ?thesis using snoc.prems by (simp add: evictAll_snoc map_of_update)
  next
    case False
    then show ?thesis using snoc by (simp add: evictAll_snoc map_of_update)
  qed
qed simp

lemma keys_evictAll: "fst ` set (evictAll rs) = Intent_Key ` set rs"
  by (induction rs rule: rev_induct) (simp_all add: evictAll_snoc keys_update)

lemma distinct_evictAll: "distinct (map fst (evictAll rs))"
  by (induction rs rule: rev_induct) (simp_all add: evictAll_snoc wf_intros)

lemma map_of_merge:
  "distinct (map fst ev) \<Longrightarrow>
   map_of (fold (\<lambda>(k, v) rm. AList.update k v rm) ev rm) k =
     (case map_of ev k of Some v \<Rightarrow> Some v | None \<Rightarrow> map_of rm k)"
proof (induction ev arbitrary: rm)
  case (Cons e ev)
  obtain k' v' where e: "e = (k', v')" by (cases e)
  with Cons.prems have "map_of ev k' = None" by (auto simp: map_of_eq_None_iff)
  with Cons e show ?case by (auto simp: gomap_simps split: option.splits)
qed simp

lemma keys_merge:
  "fst ` set (fold (\<lambda>(k, v) rm. AList.update k v rm) ev rm) = fst ` set rm \<union> fst ` set ev"
  by (induction ev arbitrary: rm) (simp_all add: keys_update split_beta)

lemma distinct_merge:
  "distinct (map fst rm) \<Longrightarrow> distinct (map fst (fold (\<lambda>(k, v) rm. AList.update k v rm) ev rm))"
  by (induction ev arbitrary: rm) (auto simp: wf_intros)

lemma map_of_keys: "k \<in> fst ` set m \<longleftrightarrow> map_of m k \<noteq> None"
  by (simp add: map_of_eq_None_iff)

lemma set_range_vals_map_of:
  "is_order ord \<Longrightarrow> distinct (map fst m) \<Longrightarrow> v \<in> set (range_vals ord m) \<longleftrightarrow> (\<exists>k. map_of m k = Some v)"
  by (force simp: set_range_vals map_of_set_conv [symmetric])


subsection \<open>Step 1: stale records and the index of the others\<close>

text \<open>
  \<open>removable\<close>: a record nobody asks for here that this host owns, or whose owner is known to
  be dead.
\<close>

definition removable ::
  "RecordIntent list \<Rightarrow> AppConfig \<Rightarrow> string list option \<Rightarrow> RecordIntent \<Rightarrow> bool"
where
  "removable desired cfg live r \<longleftrightarrow>
     Intent_Key r \<notin> Intent_Key ` set desired \<and>
     (Hostname r = AppHostname cfg \<or> (\<exists>hs. live = Some hs \<and> Hostname r \<notin> set hs))"

definition stays ::
  "RecordIntent list \<Rightarrow> AppConfig \<Rightarrow> string list option \<Rightarrow> RecordIntent list \<Rightarrow> RecordIntent set"
where
  "stays desired cfg live actual = {r \<in> set actual. \<not> removable desired cfg live r}"

definition rm_of :: "(RecordIntent \<Rightarrow> bool) \<Rightarrow> RecordIntent list \<Rightarrow> intent_map \<Rightarrow> bool" where
  "rm_of P rs rm \<longleftrightarrow> distinct (map fst rm) \<and>
     (\<forall>k r. map_of rm k = Some r \<longrightarrow> r \<in> set rs \<and> P r \<and> Intent_Key r = k) \<and>
     (\<forall>r \<in> set rs. P r \<longrightarrow> map_of rm (Intent_Key r) \<noteq> None)"

lemma rm_of_keys:
  assumes "rm_of P rs rm"
  shows "fst ` set rm = Intent_Key ` {r \<in> set rs. P r}"
proof (rule set_eqI)
  fix k
  show "k \<in> fst ` set rm \<longleftrightarrow> k \<in> Intent_Key ` {r \<in> set rs. P r}"
    unfolding map_of_keys using assms by (auto simp: rm_of_def)
qed

text \<open>
  The index holds records of \<open>S\<close> at their places, and a record at the place of each of them: the
  record itself when no other record of \<open>S\<close> claims the place.
\<close>

definition indexes :: "RecordIntent set \<Rightarrow> nestedRecordMap \<Rightarrow> bool" where
  "indexes S m \<longleftrightarrow> nested_ok m \<and>
     (\<forall>n k v r. PeekNameKindRecord m n k v = Some r \<longrightarrow>
        r \<in> S \<and> Rec r = \<lparr>Name = n, Kind = k, Value = v\<rparr>) \<and>
     (\<forall>r \<in> S. PeekNameKindRecord m (Name (Rec r)) (Kind (Rec r)) (Value (Rec r)) \<noteq> None)"

lemma indexes_put:
  assumes "indexes S m"
  shows "indexes (insert r S) (nestedSet m (Name (Rec r)) (Kind (Rec r)) (Value (Rec r)) r)"
proof -
  have ok: "nested_ok m" using assms by (simp add: indexes_def)
  with assms show ?thesis by (auto simp: indexes_def ix.ok_put ix.look_put Record_conv)
qed

lemma staleStep_cases:
  "staleStep (map Intent_Key desired) cfg live r (rm, m) =
     (if removable desired cfg live r then (AList.update (Intent_Key r) r rm, m)
      else (rm, nestedSet m (Name (Rec r)) (Kind (Rec r)) (Value (Rec r)) r))"
  by (auto simp: staleStep_def removable_def Let_def split: option.splits)

lemma stale_fold:
  "\<exists>rm m. fold (staleStep (map Intent_Key desired) cfg live) actual ([], newNestedRecordMap) = (rm, m) \<and>
     rm_of (removable desired cfg live) actual rm \<and> indexes (stays desired cfg live actual) m"
proof (induction actual rule: rev_induct)
  case Nil
  show ?case
    by (simp add: rm_of_def indexes_def stays_def ix.ok_empty ix.look_empty)
next
  case (snoc r actual)
  then obtain rm m where
    "fold (staleStep (map Intent_Key desired) cfg live) actual ([], newNestedRecordMap) = (rm, m)"
    and rm: "rm_of (removable desired cfg live) actual rm"
    and m: "indexes (stays desired cfg live actual) m" by blast
  then have step: "fold (staleStep (map Intent_Key desired) cfg live) (actual @ [r])
      ([], newNestedRecordMap) = staleStep (map Intent_Key desired) cfg live r (rm, m)"
    by simp
  show ?case
  proof (cases "removable desired cfg live r")
    case True
    then have "stays desired cfg live (actual @ [r]) = stays desired cfg live actual"
      by (auto simp: stays_def)
    moreover have "rm_of (removable desired cfg live) (actual @ [r])
        (AList.update (Intent_Key r) r rm)"
      using rm True by (auto simp: rm_of_def gomap_simps wf_intros)
    ultimately show ?thesis using True m step by (simp add: staleStep_cases)
  next
    case False
    then have "stays desired cfg live (actual @ [r]) = insert r (stays desired cfg live actual)"
      by (auto simp: stays_def)
    moreover have "rm_of (removable desired cfg live) (actual @ [r]) rm"
      using rm False by (auto simp: rm_of_def)
    ultimately show ?thesis using False indexes_put [OF m, of r] step by (simp add: staleStep_cases)
  qed
qed


subsection \<open>Step 2: verdicts\<close>

text \<open>
  The records of the index that a desired record evicts are in conflict with it, and the desired
  record is forced or older than a record of the evicted one's slot.
\<close>

definition may_evict :: "RecordIntent set \<Rightarrow> RecordIntent \<Rightarrow> RecordIntent \<Rightarrow> bool" where
  "may_evict S d r \<longleftrightarrow> r \<in> S \<and> \<not> compatible (Rec d) (Rec r) \<and>
     (Force d \<or> (\<exists>r' \<in> S. same_slot (Rec r') (Rec r) \<and> Created d < Created r'))"

definition sound_verdict :: "RecordIntent set \<Rightarrow> RecordIntent \<Rightarrow> verdict \<Rightarrow> bool" where
  "sound_verdict S d vd \<longleftrightarrow>
     (\<forall>ev. vd = Evict ev \<longrightarrow> distinct (map fst ev) \<and>
        (\<forall>k r. map_of ev k = Some r \<longrightarrow> Intent_Key r = k \<and> may_evict S d r))"

lemma sound_Skip [simp]: "sound_verdict S d Skip"
  by (simp add: sound_verdict_def)

lemma sound_none [simp]: "sound_verdict S d (Evict [])"
  by (simp add: sound_verdict_def)

lemma sound_evictAll:
  "(\<And>r. r \<in> set rs \<Longrightarrow> may_evict S d r) \<Longrightarrow> sound_verdict S d (Evict (evictAll rs))"
  by (auto simp: sound_verdict_def distinct_evictAll dest: map_of_evictAll)

lemma indexesD:
  assumes "indexes S m"
  shows "nested_ok m"
    and "PeekNameKindRecord m n k v = Some r \<Longrightarrow> r \<in> S \<and> Rec r = \<lparr>Name = n, Kind = k, Value = v\<rparr>"
  using assms by (simp_all add: indexes_def)

lemma indexes_recs:
  assumes "indexes S m" and "is_order ord" and "PeekNameKindRecords ord m n k = Some rs"
  shows "\<exists>r. index0 rs = Some r \<and> r \<in> set rs"
    and "r \<in> set rs \<Longrightarrow> r \<in> S \<and> Name (Rec r) = n \<and> Kind (Rec r) = k"
  using ix.recs_first [OF assms(2) indexesD(1) [OF assms(1)] assms(3)]
    ix.recs_Some [OF assms(2) indexesD(1) [OF assms(1)] assms(3)] indexesD(2) [OF assms(1)]
  by (auto simp: Record_conv)

lemma indexes_addrs:
  assumes "indexes S m" and "is_order o1" and "is_order o2"
    and "addrRecords o1 o2 m n = Some rs" and "r \<in> set rs"
  shows "r \<in> S \<and> Name (Rec r) = n \<and> IsAddress (Rec r)"
  using set_addrRecords [OF assms(2,3) indexesD(1) [OF assms(1)], of n] assms(4,5)
    indexesD(2) [OF assms(1)]
  by (auto simp: slice_of_def Record_conv kind_simps)

lemma sound_cnames:
  assumes "indexes S m" and "is_order ord"
    and "PeekNameKindRecords ord m (Name (Rec d)) RecordCNAME = Some cnames"
    and "known (Rec d)"
  shows "\<exists>existing. index0 cnames = Some existing \<and>
    (Force d \<or> Created d < Created existing \<longrightarrow> sound_verdict S d (Evict (evictAll cnames)))"
proof -
  obtain e where e: "index0 cnames = Some e" "e \<in> set cnames"
    using indexes_recs(1) [OF assms(1-3)] by blast
  have "may_evict S d r" if "r \<in> set cnames" and "Force d \<or> Created d < Created e" for r
    using indexes_recs(2) [OF assms(1-3) that(1)] indexes_recs(2) [OF assms(1-3) e(2)] that(2) assms(4)
    by (auto simp: may_evict_def compatible_def same_slot_def known_def kind_simps)
  then have "Force d \<or> Created d < Created e \<longrightarrow> sound_verdict S d (Evict (evictAll cnames))"
    by (blast intro: sound_evictAll)
  with e show ?thesis by blast
qed

lemma sound_address:
  assumes "indexes S m" and "orders_ok ords" and "kind = RecordA \<or> kind = RecordAAAA"
    and "Kind (Rec d) = kind"
  shows "\<exists>vd. addressVerdict kind ords i m d = Some vd \<and> sound_verdict S d vd"
proof -
  have addr: "IsAddress (Rec d)" and k: "known (Rec d)"
    using assms(3,4) by (auto simp: known_def kind_simps)
  show ?thesis
  proof (cases "PeekNameKindRecords (ords EvictCNAME i) m (Name (Rec d)) RecordCNAME")
    case (Some cnames)
    with sound_cnames [OF assms(1) orders_okD [OF assms(2)] Some k] show ?thesis
      by (auto simp: addressVerdict_def Before_def)
  next
    case None
    show ?thesis
    proof (cases "PeekNameKindRecord m (Name (Rec d)) kind (Value (Rec d))")
      case (Some r)
      then have "r \<in> S" "Rec r = Rec d"
        using indexesD(2) [OF assms(1) Some] assms(4) by (auto simp: Record_conv)
      then have "may_evict S d r" if "Force d \<or> Created d < Created r"
        using that addr by (auto simp: may_evict_def compatible_def)
      then have "sound_verdict S d (Evict (evictAll [r]))" if "Force d \<or> Created d < Created r"
        using that by (intro sound_evictAll) simp
      with None Some show ?thesis by (auto simp: addressVerdict_def Before_def)
    qed (use None in \<open>simp add: addressVerdict_def\<close>)
  qed
qed

lemma sound_cname:
  assumes "indexes S m" and "orders_ok ords" and "Kind (Rec d) = RecordCNAME"
  shows "\<exists>vd. cnameVerdict ords i m d = Some vd \<and> sound_verdict S d vd"
proof -
  have c: "IsCNAME (Rec d)" "known (Rec d)" using assms(3) by (auto simp: known_def kind_simps)
  show ?thesis
  proof (cases "addrRecords (ords EvictA i) (ords EvictAAAA i) m (Name (Rec d))")
    case (Some allAddr)
    have "may_evict S d r"
      if "r \<in> set allAddr" and "Force d \<or> (\<forall>r \<in> set allAddr. Created d < Created r)" for r
      using indexes_addrs [OF assms(1) _ _ Some that(1)] that assms(2) c(1)
      by (auto simp: may_evict_def compatible_def intro: bexI [of _ r])
    then have "Force d \<or> (\<forall>r \<in> set allAddr. Created d < Created r) \<longrightarrow>
        sound_verdict S d (Evict (evictAll allAddr))"
      by (blast intro: sound_evictAll)
    with Some show ?thesis by (auto simp: cnameVerdict_def Before_def list_all_iff Let_def)
  next
    case None
    show ?thesis
    proof (cases "PeekNameKindRecords (ords EvictCNAME i) m (Name (Rec d)) RecordCNAME")
      case (Some cnames)
      with None sound_cnames [OF assms(1) orders_okD [OF assms(2)] Some c(2)] show ?thesis
        by (auto simp: cnameVerdict_def Before_def)
    qed (use None in \<open>simp add: cnameVerdict_def\<close>)
  qed
qed

lemma evictionsFor_sound:
  assumes "indexes S m" and "orders_ok ords"
  shows "\<exists>vd. evictionsFor ords i m d = Some vd \<and> sound_verdict S d vd"
  using sound_address [OF assms, of RecordA d i] sound_address [OF assms, of RecordAAAA d i]
    sound_cname [OF assms, of d i]
  by (auto simp: evictionsFor_def kind_simps)


subsection \<open>Step 3: the result maps\<close>

definition rm_sound ::
  "(RecordIntent \<Rightarrow> bool) \<Rightarrow> RecordIntent list \<Rightarrow> RecordIntent set \<Rightarrow> RecordIntent list \<Rightarrow> intent_map \<Rightarrow> bool"
where
  "rm_sound P actual S ds rm \<longleftrightarrow> distinct (map fst rm) \<and>
     (\<forall>k r. map_of rm k = Some r \<longrightarrow> Intent_Key r = k \<and> r \<in> set actual \<and>
        (P r \<or> (\<exists>d \<in> set ds. may_evict S d r))) \<and>
     (\<forall>r \<in> set actual. P r \<longrightarrow> map_of rm (Intent_Key r) \<noteq> None)"

definition add_sound ::
  "RecordIntent list \<Rightarrow> RecordIntent list \<Rightarrow> intent_map \<Rightarrow> intent_map \<Rightarrow> bool"
where
  "add_sound actual ds add rm \<longleftrightarrow> distinct (map fst add) \<and>
     (\<forall>k d. map_of add k = Some d \<longrightarrow> d \<in> set ds \<and> Record_Key (Rec d) = k \<and>
        (\<forall>e \<in> set actual. map_of rm (Intent_Key e) = None \<longrightarrow> compatible (Rec d) (Rec e)))"

lemma add_sound_mono:
  assumes "add_sound actual ds add rm" and "\<And>k. map_of rm' k = None \<Longrightarrow> map_of rm k = None"
    and "set ds \<subseteq> set ds'"
  shows "add_sound actual ds' add rm'"
  using assms unfolding add_sound_def by blast

lemma rm_sound_mono:
  "rm_sound P actual S ds rm \<Longrightarrow> set ds \<subseteq> set ds' \<Longrightarrow> rm_sound P actual S ds' rm"
  unfolding rm_sound_def by blast

lemma set_simulate:
  "set (simulate rm ev actual) =
     {r \<in> set actual. map_of rm (Intent_Key r) = None \<and> map_of ev (Intent_Key r) = None}"
  by (auto simp: simulate_def map_of_keys)

lemma desiredStep_sound:
  assumes "indexes S m" and "orders_ok ords" and "S \<subseteq> set actual"
    and "rm_sound P actual S ds rm" and "add_sound actual ds add rm"
  shows "\<exists>add' rm'. desiredStep ords actual m i (add, rm) d = Some (add', rm') \<and>
    rm_sound P actual S (ds @ [d]) rm' \<and> add_sound actual (ds @ [d]) add' rm'"
proof -
  have "rm_sound P actual S (ds @ [d]) rm" by (rule rm_sound_mono [OF assms(4)]) auto
  moreover have "add_sound actual (ds @ [d]) add rm" by (rule add_sound_mono [OF assms(5)]) auto
  ultimately have same: "rm_sound P actual S (ds @ [d]) rm" "add_sound actual (ds @ [d]) add rm" .
  obtain vd where vd: "evictionsFor ords i m d = Some vd" "sound_verdict S d vd"
    using evictionsFor_sound [OF assms(1,2)] by blast
  show ?thesis
  proof (cases vd)
    case Skip
    with vd same show ?thesis by (simp add: desiredStep_def)
  next
    case (Evict ev)
    show ?thesis
    proof (cases "ValidateRecord d (simulate rm ev actual)")
      case (Some err)
      with Evict vd same show ?thesis by (simp add: desiredStep_def)
    next
      case None
      let ?add = "AList.update (Record_Key (Rec d)) d add"
      let ?rm = "fold (\<lambda>(k, v) rm. AList.update k v rm) ev rm"
      have ev: "distinct (map fst ev)"
        "\<And>k r. map_of ev k = Some r \<Longrightarrow> Intent_Key r = k \<and> may_evict S d r"
        using vd(2) Evict by (auto simp: sound_verdict_def)
      note rm = map_of_merge [OF ev(1), of rm]
      have "rm_sound P actual S (ds @ [d]) ?rm"
        using assms(3) same(1) ev(2)
        by (auto simp: rm_sound_def rm distinct_merge may_evict_def split: option.splits)
      moreover have "add_sound actual (ds @ [d]) ?add ?rm"
      proof -
        have "add_sound actual (ds @ [d]) add ?rm"
          by (rule add_sound_mono [OF same(2)]) (auto simp: rm split: option.splits)
        moreover have "compatible (Rec d) (Rec e)"
          if "e \<in> set actual" and "map_of ?rm (Intent_Key e) = None" for e
          using ValidateRecord_compatible [OF None, of e] that
          by (auto simp: set_simulate rm split: option.splits)
        ultimately show ?thesis by (auto simp: add_sound_def gomap_simps wf_intros)
      qed
      ultimately show ?thesis
        using Evict vd None by (auto simp: desiredStep_def)
    qed
  qed
qed

lemma desired_fold:
  assumes "indexes S m" and "orders_ok ords" and "S \<subseteq> set actual" and "rm_of P actual rm"
  shows "\<exists>add' rm'. foldM (desiredStep ords actual m) 0 ([], rm) desired = Some (add', rm') \<and>
    rm_sound P actual S desired rm' \<and> add_sound actual desired add' rm'"
proof -
  have "\<exists>st. foldM (desiredStep ords actual m) 0 ([], rm) desired = Some st \<and>
      (case st of (add', rm') \<Rightarrow> rm_sound P actual S desired rm' \<and> add_sound actual desired add' rm')"
  proof (rule foldM_inv)
    show "case ([], rm) of (add', rm') \<Rightarrow> rm_sound P actual S [] rm' \<and> add_sound actual [] add' rm'"
      using assms(4) by (auto simp: rm_of_def rm_sound_def add_sound_def)
  next
    fix i ys d zs st
    assume "case st of (add', rm') \<Rightarrow> rm_sound P actual S ys rm' \<and> add_sound actual ys add' rm'"
    then show "\<exists>st'. desiredStep ords actual m i st d = Some st' \<and>
        (case st' of (add', rm') \<Rightarrow>
           rm_sound P actual S (ys @ [d]) rm' \<and> add_sound actual (ys @ [d]) add' rm')"
      using desiredStep_sound [OF assms(1-3)] by (cases st) fastforce
  qed
  then show ?thesis by auto
qed


subsection \<open>What the reconciler returns\<close>

text \<open>The result maps behind the two slices, with what each run guarantees of them.\<close>

lemma ReconcileAndValidate_maps:
  assumes "orders_ok ords"
  obtains add rm where
    "ReconcileAndValidate ords desired actual cfg live =
       Some (range_vals (ords Adds 0) add, range_vals (ords Removes 0) rm)"
    and "rm_sound (removable desired cfg live) actual (stays desired cfg live actual) desired rm"
    and "add_sound actual desired add rm"
proof -
  obtain rm m where f: "fold (staleStep (map Intent_Key desired) cfg live) actual
      ([], newNestedRecordMap) = (rm, m)"
    and rm: "rm_of (removable desired cfg live) actual rm"
    and m: "indexes (stays desired cfg live actual) m"
    using stale_fold by blast
  have "stays desired cfg live actual \<subseteq> set actual" by (auto simp: stays_def)
  from desired_fold [OF m assms this rm] obtain add' rm' where
    "foldM (desiredStep ords actual m) 0 ([], rm) desired = Some (add', rm')"
    "rm_sound (removable desired cfg live) actual (stays desired cfg live actual) desired rm'"
    "add_sound actual desired add' rm'"
    by blast
  with f that show ?thesis by (simp add: ReconcileAndValidate_def)
qed


subsection \<open>The decision on a conflict-free zone\<close>

text \<open>
  The three cases of step 2 implement one rule when the records that stay are free of conflicts:
  a desired record competes with all records it is in conflict with.
\<close>

definition competitors :: "RecordIntent set \<Rightarrow> RecordIntent \<Rightarrow> RecordIntent set" where
  "competitors S d = {r \<in> S. \<not> compatible (Rec d) (Rec r)}"

definition settled :: "RecordIntent set \<Rightarrow> RecordIntent \<Rightarrow> bool" where
  "settled S d \<longleftrightarrow> (\<exists>r \<in> competitors S d. Intent_Equal r d)"

definition wins :: "RecordIntent set \<Rightarrow> RecordIntent \<Rightarrow> bool" where
  "wins S d \<longleftrightarrow> Force d \<or> (\<forall>r \<in> competitors S d. Created d < Created r)"

definition exact_verdict :: "RecordIntent set \<Rightarrow> RecordIntent \<Rightarrow> verdict \<Rightarrow> bool" where
  "exact_verdict S d vd \<longleftrightarrow>
     (if settled S d \<or> \<not> wins S d then vd = Skip
      else \<exists>ev. vd = Evict ev \<and> fst ` set ev = Intent_Key ` competitors S d)"

lemma Intent_Equal_Rec: "Intent_Equal r d \<Longrightarrow> Rec r = Rec d"
  by (simp add: Intent_Equal_def Record_Equal_eq)

lemma zone_alias_alone:
  assumes "zone_ok S" and "c \<in> S" and "IsCNAME (Rec c)" and "r \<in> S" and "known (Rec r)"
    and "Name (Rec r) = Name (Rec c)"
  shows "r = c"
proof (rule ccontr)
  assume "r \<noteq> c"
  with assms have "compatible (Rec r) (Rec c)" by (blast intro: zone_okD)
  with assms(3,5,6) show False by (auto simp: compatible_def known_def)
qed

lemma incompatibleD:
  "\<not> compatible q r \<Longrightarrow> known q \<and> known r \<and> Name q = Name r"
  by (auto simp: compatible_def known_def kind_simps)

lemma competitorsD: "r \<in> competitors S d \<Longrightarrow> r \<in> S \<and> known (Rec r) \<and> Name (Rec r) = Name (Rec d)"
  by (auto simp: competitors_def dest: incompatibleD)

lemma indexes_exact:
  assumes "indexes S m" and "zone_ok S" and "k \<in> {RecordA, RecordAAAA, RecordCNAME}"
  shows "PeekNameKindRecord m n k v = Some r \<longleftrightarrow>
    r \<in> S \<and> Rec r = \<lparr>Name = n, Kind = k, Value = v\<rparr>"
proof
  assume r: "r \<in> S \<and> Rec r = \<lparr>Name = n, Kind = k, Value = v\<rparr>"
  then obtain r' where r': "PeekNameKindRecord m n k v = Some r'"
    using assms(1) unfolding indexes_def by fastforce
  then have "r' \<in> S" "Rec r' = Rec r" using indexesD(2) [OF assms(1) r'] r by auto
  moreover have "known (Rec r)" using r assms(3) by (auto simp: known_def kind_simps)
  ultimately have "r' = r"
    using zone_okD [OF assms(2), of r' r] r same_slot_incompatible [of "Rec r" "Rec r"] by auto
  with r' show "PeekNameKindRecord m n k v = Some r" by simp
qed (rule indexesD(2) [OF assms(1)])

lemma cnames_exact:
  assumes "indexes S m" and "zone_ok S" and "is_order ord"
  shows "case PeekNameKindRecords ord m n RecordCNAME of
      None \<Rightarrow> \<forall>r \<in> S. IsCNAME (Rec r) \<longrightarrow> Name (Rec r) \<noteq> n
    | Some rs \<Rightarrow> \<exists>c. index0 rs = Some c \<and> set rs = {c} \<and> c \<in> S \<and> IsCNAME (Rec c) \<and> Name (Rec c) = n"
proof (cases "PeekNameKindRecords ord m n RecordCNAME")
  case None
  then have "PeekNameKindRecord m n RecordCNAME v = None" for v
    by (simp add: ix.recs_None indexesD(1) [OF assms(1)])
  then have "\<not> (r \<in> S \<and> Rec r = \<lparr>Name = n, Kind = RecordCNAME, Value = v\<rparr>)" for r v
    using indexes_exact [OF assms(1,2), of RecordCNAME n v r] by simp
  with None show ?thesis by (auto simp: Record_conv kind_simps)
next
  case (Some rs)
  obtain c where c: "index0 rs = Some c" "c \<in> set rs"
    using indexes_recs(1) [OF assms(1,3) Some] by blast
  have rs: "r \<in> S \<and> Name (Rec r) = n \<and> Kind (Rec r) = RecordCNAME" if "r \<in> set rs" for r
    using indexes_recs(2) [OF assms(1,3) Some that] .
  have "r = c" if "r \<in> set rs" for r
    by (rule zone_alias_alone [OF assms(2)])
      (use rs [OF that] rs [OF c(2)] in \<open>simp_all add: known_def kind_simps\<close>)
  then have "set rs = {c}" using c(2) by blast
  with Some c(1) rs [OF c(2)] show ?thesis by (simp add: kind_simps)
qed

lemma addrs_exact:
  assumes "indexes S m" and "zone_ok S" and "is_order o1" and "is_order o2"
  shows "set (slice_of (addrRecords o1 o2 m n)) = {r \<in> S. IsAddress (Rec r) \<and> Name (Rec r) = n}"
    and "addrRecords o1 o2 m n = None \<longleftrightarrow> (\<forall>r \<in> S. IsAddress (Rec r) \<longrightarrow> Name (Rec r) \<noteq> n)"
proof -
  have look: "PeekNameKindRecord m n k v = Some r \<longleftrightarrow> r \<in> S \<and> Rec r = \<lparr>Name = n, Kind = k, Value = v\<rparr>"
    if "k = RecordA \<or> k = RecordAAAA" for k v r
    using indexes_exact [OF assms(1,2)] that by blast
  show "set (slice_of (addrRecords o1 o2 m n)) = {r \<in> S. IsAddress (Rec r) \<and> Name (Rec r) = n}"
    unfolding set_addrRecords [OF assms(3,4) indexesD(1) [OF assms(1)]]
    using look by (auto simp: Record_conv kind_simps)
  have "(\<forall>v. PeekNameKindRecord m n k v = None) \<longleftrightarrow>
      (\<forall>r \<in> S. Kind (Rec r) = k \<longrightarrow> Name (Rec r) \<noteq> n)" if "k = RecordA \<or> k = RecordAAAA" for k
    using look [OF that] by (auto simp: Record_conv simp flip: not_Some_eq)
  then show "addrRecords o1 o2 m n = None \<longleftrightarrow> (\<forall>r \<in> S. IsAddress (Rec r) \<longrightarrow> Name (Rec r) \<noteq> n)"
    by (auto simp: addrRecords_None ix.recs_None indexesD(1) [OF assms(1)] kind_simps)
qed

lemma exact_evictAll:
  "set rs = competitors S d \<Longrightarrow> \<not> settled S d \<Longrightarrow> wins S d \<Longrightarrow> exact_verdict S d (Evict (evictAll rs))"
  by (simp add: exact_verdict_def keys_evictAll)

lemma address_exact:
  assumes "indexes S m" and "zone_ok S" and "orders_ok ords" and "IsAddress (Rec d)"
    and "addressVerdict (Kind (Rec d)) ords i m d = Some vd"
  shows "exact_verdict S d vd"
proof (cases "PeekNameKindRecords (ords EvictCNAME i) m (Name (Rec d)) RecordCNAME")
  case (Some cnames)
  then obtain c where c: "index0 cnames = Some c" "set cnames = {c}" "c \<in> S" "IsCNAME (Rec c)"
    "Name (Rec c) = Name (Rec d)"
    using cnames_exact [OF assms(1,2) orders_okD [OF assms(3)], of "Name (Rec d)" EvictCNAME i]
    by auto
  have "competitors S d = {c}"
  proof -
    have "r = c" if "r \<in> competitors S d" for r
      using competitorsD [OF that] c(5) by (intro zone_alias_alone [OF assms(2) c(3,4)]) simp_all
    moreover have "c \<in> competitors S d" using c assms(4) by (simp add: competitors_def compatible_def)
    ultimately show ?thesis by blast
  qed
  moreover from this have "\<not> settled S d"
    using c(4) assms(4) address_not_cname by (auto simp: settled_def dest: Intent_Equal_Rec)
  ultimately show ?thesis
    using assms(5) Some c(1,2) exact_evictAll [of cnames S d]
    by (auto simp: addressVerdict_def Before_def wins_def exact_verdict_def split: if_splits)
next
  case None
  then have none: "\<forall>r \<in> S. IsCNAME (Rec r) \<longrightarrow> Name (Rec r) \<noteq> Name (Rec d)"
    using cnames_exact [OF assms(1,2) orders_okD [OF assms(3)], of "Name (Rec d)" EvictCNAME i]
    by simp
  have look: "PeekNameKindRecord m (Name (Rec d)) (Kind (Rec d)) (Value (Rec d)) = Some r \<longleftrightarrow>
      r \<in> competitors S d" for r
    using indexes_exact [OF assms(1,2), of "Kind (Rec d)"] none assms(4)
    by (auto simp: competitors_def compatible_def kind_simps Record_conv)
  show ?thesis
  proof (cases "PeekNameKindRecord m (Name (Rec d)) (Kind (Rec d)) (Value (Rec d))")
    case None
    then have "competitors S d = {}" using look by auto
    with None \<open>PeekNameKindRecords _ _ _ _ = None\<close> assms(5) show ?thesis
      by (auto simp: addressVerdict_def exact_verdict_def settled_def wins_def)
  next
    case (Some r)
    then have "x \<in> competitors S d \<longleftrightarrow> x = r" for x using look [of x] by auto
    then have "competitors S d = {r}" by blast
    with Some None assms(5) exact_evictAll [of "[r]" S d] show ?thesis
      by (auto simp: addressVerdict_def Before_def exact_verdict_def settled_def wins_def
          split: if_splits)
  qed
qed

lemma cname_exact:
  assumes "indexes S m" and "zone_ok S" and "orders_ok ords" and "IsCNAME (Rec d)"
    and "cnameVerdict ords i m d = Some vd"
  shows "exact_verdict S d vd"
proof (cases "addrRecords (ords EvictA i) (ords EvictAAAA i) m (Name (Rec d))")
  case (Some allAddr)
  have addrs: "set allAddr = {r \<in> S. IsAddress (Rec r) \<and> Name (Rec r) = Name (Rec d)}"
    using addrs_exact(1) [OF assms(1,2), of "ords EvictA i" "ords EvictAAAA i" "Name (Rec d)"]
      Some assms(3) by (simp add: slice_of_def)
  have "\<exists>a \<in> S. IsAddress (Rec a) \<and> Name (Rec a) = Name (Rec d)"
    using addrs_exact(2) [OF assms(1,2), of "ords EvictA i" "ords EvictAAAA i" "Name (Rec d)"]
      Some assms(3) by auto
  then obtain a where a: "a \<in> S" "IsAddress (Rec a)" "Name (Rec a) = Name (Rec d)" by blast
  have none: False if "r \<in> S" "IsCNAME (Rec r)" "Name (Rec d) = Name (Rec r)" for r
    using zone_alias_alone [OF assms(2) that(1,2) a(1)] a(2,3) that(2,3) address_not_cname [of "Rec a"]
    by (simp add: known_def)
  then have c: "competitors S d = set allAddr"
    using assms(4) by (auto simp: addrs competitors_def compatible_def dest: address_not_cname)
  have "\<not> settled S d"
    unfolding settled_def c addrs using assms(4) address_not_cname by (auto dest!: Intent_Equal_Rec)
  then show ?thesis
    using assms(5) Some c exact_evictAll [of allAddr S d]
    by (auto simp: cnameVerdict_def Before_def list_all_iff wins_def exact_verdict_def Let_def
        split: if_splits)
next
  case None
  then have none: "\<forall>r \<in> S. IsAddress (Rec r) \<longrightarrow> Name (Rec r) \<noteq> Name (Rec d)"
    using addrs_exact(2) [OF assms(1,2), of "ords EvictA i" "ords EvictAAAA i" "Name (Rec d)"]
      assms(3) by simp
  note cn = cnames_exact [OF assms(1,2) orders_okD [OF assms(3)], of "Name (Rec d)" EvictCNAME i]
  have comp: "competitors S d = {r \<in> S. IsCNAME (Rec r) \<and> Name (Rec r) = Name (Rec d)}"
    using none assms(4) address_not_cname by (auto simp: competitors_def compatible_def)
  show ?thesis
  proof (cases "PeekNameKindRecords (ords EvictCNAME i) m (Name (Rec d)) RecordCNAME")
    case None
    with cn have "competitors S d = {}" by (auto simp: comp)
    with None \<open>addrRecords _ _ _ _ = None\<close> assms(5) show ?thesis
      by (auto simp: cnameVerdict_def exact_verdict_def settled_def wins_def)
  next
    case (Some cnames)
    with cn obtain c where c: "index0 cnames = Some c" "set cnames = {c}" "c \<in> S" "IsCNAME (Rec c)"
      "Name (Rec c) = Name (Rec d)" by auto
    have "r = c" if "r \<in> competitors S d" for r
      using competitorsD [OF that] c(5) by (intro zone_alias_alone [OF assms(2) c(3,4)]) simp_all
    moreover have "c \<in> competitors S d" using c by (simp add: comp)
    ultimately have "competitors S d = {c}" by blast
    then show ?thesis
      using Some None c(1,2) assms(5) exact_evictAll [of cnames S d]
      by (auto simp: cnameVerdict_def Before_def exact_verdict_def settled_def wins_def
          split: if_splits)
  qed
qed

theorem evictionsFor_exact:
  assumes "indexes S m" and "zone_ok S" and "orders_ok ords" and "evictionsFor ords i m d = Some vd"
  shows "exact_verdict S d vd"
proof (cases "known (Rec d)")
  case True
  then show ?thesis
    using address_exact [OF assms(1-3), of d i vd] cname_exact [OF assms(1-3), of d i vd] assms(4)
    by (auto simp: known_def evictionsFor_def kind_simps split: if_splits)
next
  case False
  then have "competitors S d = {}"
    by (auto simp: competitors_def compatible_def known_def kind_simps)
  with False assms(4) show ?thesis
    by (auto simp: evictionsFor_def known_def kind_simps exact_verdict_def settled_def wins_def)
qed


subsection \<open>The abstract reconciler\<close>

text \<open>
  Over sets: the records to add and the keys to remove.  A desired record that is neither settled
  nor beaten is added, with its competitors removed, unless its alias would close a loop.
\<close>

definition closes_loop :: "RecordIntent \<Rightarrow> RecordIntent list \<Rightarrow> bool" where
  "closes_loop d es \<longleftrightarrow> IsCNAME (Rec d) \<and> \<not> ends (alias_map d es) (Name (Rec d))"

definition left_by :: "string set \<Rightarrow> RecordIntent set \<Rightarrow> RecordIntent \<Rightarrow> RecordIntent list \<Rightarrow> RecordIntent list" where
  "left_by K S d actual =
     filter (\<lambda>r. Intent_Key r \<notin> K \<and> Intent_Key r \<notin> Intent_Key ` competitors S d) actual"

definition decide ::
  "RecordIntent set \<Rightarrow> RecordIntent list \<Rightarrow> RecordIntent set \<times> string set \<Rightarrow> RecordIntent \<Rightarrow>
   RecordIntent set \<times> string set"
where
  "decide S actual st d =
     (let (A, K) = st in
      if settled S d \<or> \<not> wins S d \<or> closes_loop d (left_by K S d actual) then (A, K)
      else (insert d A, K \<union> Intent_Key ` competitors S d))"

definition reconciled ::
  "RecordIntent list \<Rightarrow> RecordIntent list \<Rightarrow> AppConfig \<Rightarrow> string list option \<Rightarrow>
   RecordIntent set \<times> string set"
where
  "reconciled desired actual cfg live =
     foldl (decide (stays desired cfg live actual) actual)
       ({}, Intent_Key ` {r \<in> set actual. removable desired cfg live r}) desired"

definition refines :: "RecordIntent set \<times> string set \<Rightarrow> intent_map \<times> intent_map \<Rightarrow> bool" where
  "refines spec st \<longleftrightarrow>
     distinct (map fst (fst st)) \<and> distinct (map fst (snd st)) \<and>
     (\<forall>k d. map_of (fst st) k = Some d \<longleftrightarrow> d \<in> fst spec \<and> Record_Key (Rec d) = k) \<and>
     fst ` set (snd st) = snd spec"

lemma ValidateRecord_loop:
  assumes "\<And>e. e \<in> set es \<Longrightarrow> compatible (Rec d) (Rec e)"
  shows "ValidateRecord d es = None \<longleftrightarrow> \<not> closes_loop d es"
  using assms by (auto simp: ValidateRecord_None closes_loop_def)

lemma desiredStep_refines:
  assumes "indexes S m" and "zone_ok S" and "orders_ok ords" and "refines (A, K) (add, rm)"
    and "S = {r \<in> set actual. \<not> P r}" and "Intent_Key ` {r \<in> set actual. P r} \<subseteq> K"
    and "inj_on (\<lambda>d. Record_Key (Rec d)) (insert d A)"
  shows "\<exists>st. desiredStep ords actual m i (add, rm) d = Some st \<and> refines (decide S actual (A, K) d) st"
proof -
  obtain vd where vd: "evictionsFor ords i m d = Some vd" "sound_verdict S d vd"
    using evictionsFor_sound [OF assms(1,3)] by blast
  have exact: "exact_verdict S d vd" by (rule evictionsFor_exact [OF assms(1-3) vd(1)])
  show ?thesis
  proof (cases "settled S d \<or> \<not> wins S d")
    case True
    with exact have "vd = Skip" by (simp add: exact_verdict_def)
    with True vd assms(4) show ?thesis by (auto simp: desiredStep_def decide_def)
  next
    case False
    with exact obtain ev where ev: "vd = Evict ev" "fst ` set ev = Intent_Key ` competitors S d"
      by (auto simp: exact_verdict_def)
    have sim: "simulate rm ev actual = left_by K S d actual"
      using assms(4) ev(2) by (simp add: simulate_def left_by_def refines_def)
    have "compatible (Rec d) (Rec e)" if "e \<in> set (left_by K S d actual)" for e
      using that assms(5,6) by (auto simp: left_by_def competitors_def)
    then have val: "ValidateRecord d (simulate rm ev actual) = None \<longleftrightarrow>
        \<not> closes_loop d (left_by K S d actual)"
      unfolding sim by (rule ValidateRecord_loop)
    show ?thesis
    proof (cases "closes_loop d (left_by K S d actual)")
      case True
      with val ev vd(1) assms(4) show ?thesis by (auto simp: desiredStep_def decide_def)
    next
      case no_loop: False
      let ?rm = "fold (\<lambda>(k, v) rm. AList.update k v rm) ev rm"
      have "fst ` set ?rm = K \<union> Intent_Key ` competitors S d"
        using assms(4) ev(2) by (simp add: keys_merge refines_def)
      then have "refines (insert d A, K \<union> Intent_Key ` competitors S d)
          (AList.update (Record_Key (Rec d)) d add, ?rm)"
        using assms(4) inj_onD [OF assms(7)]
        by (auto simp: refines_def distinct_merge wf_intros map_of_update split: if_splits)
      with no_loop False val ev vd(1) show ?thesis by (auto simp: desiredStep_def decide_def)
    qed
  qed
qed

lemma decide_pair:
  "decide S actual (A, K) d =
     (if settled S d \<or> \<not> wins S d \<or> closes_loop d (left_by K S d actual) then (A, K)
      else (insert d A, K \<union> Intent_Key ` competitors S d))"
  by (simp add: decide_def)

lemma decide_bounds:
  "fst (decide S actual st d) \<subseteq> insert d (fst st)" "snd st \<subseteq> snd (decide S actual st d)"
  by (cases st; auto simp: decide_def)+

lemma foldl_decide_bounds:
  "fst (foldl (decide S actual) st ds) \<subseteq> fst st \<union> set ds"
  "snd st \<subseteq> snd (foldl (decide S actual) st ds)"
proof (induction ds rule: rev_induct)
  case (snoc d ds)
  case 1
  show ?case using decide_bounds(1) [of S actual "foldl (decide S actual) st ds" d] snoc(1) by auto
next
  case (snoc d ds)
  case 2
  show ?case using decide_bounds(2) [of "foldl (decide S actual) st ds" S actual d] snoc(2) by auto
qed simp_all

theorem reconciled_refines:
  assumes "orders_ok ords" and "zone_ok (set actual)"
    and "inj_on (\<lambda>d. Record_Key (Rec d)) (set desired)"
  shows "\<exists>add rem. ReconcileAndValidate ords desired actual cfg live = Some (add, rem) \<and>
    (set add, Intent_Key ` set rem) = reconciled desired actual cfg live"
proof -
  let ?P = "removable desired cfg live" and ?S = "stays desired cfg live actual"
  have S: "?S = {r \<in> set actual. \<not> ?P r}" by (simp add: stays_def)
  have zone: "zone_ok ?S" by (rule zone_ok_subset [OF assms(2)]) (auto simp: stays_def)
  obtain rm m where f: "fold (staleStep (map Intent_Key desired) cfg live) actual
      ([], newNestedRecordMap) = (rm, m)"
    and rm: "rm_of ?P actual rm" and m: "indexes ?S m"
    using stale_fold by blast
  let ?K = "Intent_Key ` {r \<in> set actual. ?P r}"
  let ?I = "\<lambda>ds st. refines (foldl (decide ?S actual) ({}, ?K) ds) st"
  have "\<exists>st. foldM (desiredStep ords actual m) 0 ([], rm) desired = Some st \<and> ?I desired st"
  proof (rule foldM_inv [where I = ?I])
    show "?I [] ([], rm)" using rm rm_of_keys [OF rm] by (simp add: refines_def rm_of_def)
  next
    fix i ys d zs st
    assume ys: "desired = ys @ d # zs" and st: "?I ys st"
    obtain A K where AK: "foldl (decide ?S actual) ({}, ?K) ys = (A, K)" by fastforce
    have "A \<subseteq> set ys" "?K \<subseteq> K"
      using foldl_decide_bounds [where S = ?S and actual = actual and st = "({}, ?K)" and ds = ys] AK
      by auto
    moreover have "inj_on (\<lambda>d. Record_Key (Rec d)) (insert d A)"
      by (rule inj_on_subset [OF assms(3)]) (use ys \<open>A \<subseteq> set ys\<close> in auto)
    ultimately show "\<exists>st'. desiredStep ords actual m i st d = Some st' \<and> ?I (ys @ [d]) st'"
      using desiredStep_refines [OF m zone assms(1), of A K "fst st" "snd st"] S st AK by simp
  qed
  then obtain add' rm' where st: "foldM (desiredStep ords actual m) 0 ([], rm) desired = Some (add', rm')"
    and ref: "refines (reconciled desired actual cfg live) (add', rm')"
    by (auto simp: reconciled_def)
  have "set (range_vals (ords Adds 0) add') = fst (reconciled desired actual cfg live)"
    using ref assms(1) by (auto simp: refines_def set_range_vals_map_of)
  moreover have "Intent_Key ` set (range_vals (ords Removes 0) rm') =
      snd (reconciled desired actual cfg live)"
  proof -
    have "?S \<subseteq> set actual" by (auto simp: stays_def)
    from desired_fold [OF m assms(1) this rm, of desired] st
    have s: "rm_sound ?P actual ?S desired rm'" by auto
    have "k \<in> Intent_Key ` set (range_vals (ords Removes 0) rm') \<longleftrightarrow> k \<in> fst ` set rm'" for k
      unfolding map_of_keys using s assms(1) by (fastforce simp: rm_sound_def set_range_vals_map_of)
    then show ?thesis using ref by (auto simp: refines_def)
  qed
  ultimately show ?thesis using f st by (simp add: ReconcileAndValidate_def)
qed


subsection \<open>Consequences for the zone\<close>

lemma decide_mono: "fst st \<subseteq> fst (decide S actual st d)"
  by (cases st) (auto simp: decide_def)

lemma foldl_decide_mono: "fst st \<subseteq> fst (foldl (decide S actual) st ds)"
proof (induction ds rule: rev_induct)
  case (snoc d ds)
  then show ?case using decide_mono [of "foldl (decide S actual) st ds" S actual d] by auto
qed simp

text \<open>Which desired records are added.\<close>

lemma added_wins:
  "d \<in> fst (foldl (decide S actual) ({}, K) ds) \<Longrightarrow> d \<in> set ds \<and> \<not> settled S d \<and> wins S d"
proof (induction ds rule: rev_induct)
  case (snoc x ds)
  then show ?case
    by (cases "foldl (decide S actual) ({}, K) ds") (auto simp: decide_pair split: if_splits)
qed simp

lemma added_if:
  assumes "d \<in> set ds" and "\<not> settled S d" and "wins S d"
    and "\<And>K'. K \<subseteq> K' \<Longrightarrow> \<not> closes_loop d (left_by K' S d actual)"
  shows "d \<in> fst (foldl (decide S actual) ({}, K) ds)"
proof -
  obtain ys zs where ds: "ds = ys @ d # zs" using assms(1) by (auto simp: in_set_conv_decomp)
  obtain A K' where st: "foldl (decide S actual) ({}, K) ys = (A, K')" by fastforce
  then have "K \<subseteq> K'"
    using foldl_decide_bounds(2) [where S = S and actual = actual and st = "({}, K)" and ds = ys] by simp
  then have "d \<in> fst (decide S actual (A, K') d)"
    using assms(2,3) assms(4) [of K'] by (simp add: decide_pair)
  moreover have "foldl (decide S actual) ({}, K) ds =
      foldl (decide S actual) (decide S actual (A, K') d) zs"
    by (simp add: ds st)
  ultimately show ?thesis
    using foldl_decide_mono [of "decide S actual (A, K') d" S actual zs] by auto
qed

text \<open>What is removed: the removable records and the competitors of what is added.\<close>

lemma foldl_decide_keys:
  "snd (foldl (decide S actual) ({}, K) ds) =
     K \<union> (\<Union>d \<in> fst (foldl (decide S actual) ({}, K) ds). Intent_Key ` competitors S d)"
proof (induction ds rule: rev_induct)
  case (snoc x ds)
  obtain A L where st: "foldl (decide S actual) ({}, K) ds = (A, L)" by fastforce
  with snoc have L: "L = K \<union> (\<Union>d \<in> A. Intent_Key ` competitors S d)" by simp
  have "snd (decide S actual (A, L) x) =
      K \<union> (\<Union>d \<in> fst (decide S actual (A, L) x). Intent_Key ` competitors S d)"
    by (simp add: decide_pair L Un_ac)
  then show ?case using st by simp
qed simp

lemma reconciled_keys:
  "snd (reconciled desired actual cfg live) =
     Intent_Key ` {r \<in> set actual. removable desired cfg live r} \<union>
     (\<Union>d \<in> fst (reconciled desired actual cfg live).
        Intent_Key ` competitors (stays desired cfg live actual) d)"
  unfolding reconciled_def by (rule foldl_decide_keys)

text \<open>A walk over fewer aliases of a conflict-free zone closes no new loop.\<close>

lemma closes_loop_subset:
  assumes "zone_ok (set es)" and "set es' \<subseteq> set es" and "closes_loop d es'"
  shows "closes_loop d es"
proof (rule ccontr)
  assume "\<not> closes_loop d es"
  then have "ends (alias_map d es) (Name (Rec d))"
    using assms(3) by (simp add: closes_loop_def)
  moreover have "alias_map d es x = Some y" if "alias_map d es' x = Some y" for x y
  proof (cases "x = Name (Rec d)")
    case False
    with that have "map_of (forward_of es') x = Some y" by (simp add: alias_map_def)
    from forward_of_SomeD [OF this] obtain e where
      "e \<in> set es" "IsCNAME (Rec e)" "Name (Rec e) = x" "Value (Rec e) = y"
      using assms(2) by blast
    with False forward_of_zone [OF assms(1)] show ?thesis by (auto simp: alias_map_def)
  qed (use that in \<open>simp add: alias_map_def\<close>)
  ultimately have "ends (alias_map d es') (Name (Rec d))" by (rule ends_map_le)
  with assms(3) show False by (simp add: closes_loop_def)
qed

lemma added_no_loop:
  assumes "zone_ok (set actual)" and "d \<in> fst (foldl (decide S actual) ({}, K) ds)"
  shows "\<not> closes_loop d
    (filter (\<lambda>r. Intent_Key r \<notin> snd (foldl (decide S actual) ({}, K) ds)) actual)"
  using assms(2)
proof (induction ds rule: rev_induct)
  case (snoc x ds)
  let ?st = "foldl (decide S actual) ({}, K) ds" and ?st' = "foldl (decide S actual) ({}, K) (ds @ [x])"
  let ?left = "\<lambda>st. filter (\<lambda>r. Intent_Key r \<notin> snd st) actual"
  show ?case
  proof (cases "d \<in> fst ?st")
    case True
    have "zone_ok (set (?left ?st))" by (rule zone_ok_subset [OF assms(1)]) auto
    moreover have "set (?left ?st') \<subseteq> set (?left ?st)"
      using decide_bounds(2) [of ?st S actual x] by auto
    ultimately show ?thesis using snoc.IH [OF True] closes_loop_subset by blast
  next
    case False
    obtain A L where st: "?st = (A, L)" by fastforce
    have st': "?st' = decide S actual (A, L) x" by (simp add: st)
    have "d \<in> fst (decide S actual (A, L) x)" using snoc.prems unfolding st' .
    moreover have "d \<notin> A" using False st by simp
    ultimately have d: "d = x" "\<not> closes_loop d (left_by L S d actual)"
      "snd ?st' = L \<union> Intent_Key ` competitors S d"
      unfolding st' by (auto simp: decide_def split: if_splits)
    then have "?left ?st' = left_by L S d actual" by (auto simp: left_by_def intro: filter_cong)
    with d show ?thesis by simp
  qed
qed simp

text \<open>The zone after the changes: what is removed is gone, what is added is there.\<close>

definition applied ::
  "RecordIntent list \<Rightarrow> RecordIntent list \<Rightarrow> RecordIntent list \<Rightarrow> RecordIntent list"
where
  "applied actual add rem =
     filter (\<lambda>r. Intent_Key r \<notin> Intent_Key ` set rem) actual @ add"

lemma reconcile_adds_desired:
  assumes "orders_ok ords"
    and "ReconcileAndValidate ords desired actual cfg live = Some (add, rem)"
  shows "set add \<subseteq> set desired" and "set rem \<subseteq> set actual"
proof -
  obtain add' rm where eq: "ReconcileAndValidate ords desired actual cfg live =
      Some (range_vals (ords Adds 0) add', range_vals (ords Removes 0) rm)"
    and rm: "rm_sound (removable desired cfg live) actual (stays desired cfg live actual) desired rm"
    and a: "add_sound actual desired add' rm"
    by (rule ReconcileAndValidate_maps [OF assms(1)])
  have d: "distinct (map fst add')" "distinct (map fst rm)"
    using rm a by (simp_all add: rm_sound_def add_sound_def)
  with eq assms show "set add \<subseteq> set desired" and "set rem \<subseteq> set actual"
    using rm a by (auto simp: set_range_vals_map_of rm_sound_def add_sound_def)
qed

lemma zone_ok_applied:
  assumes "orders_ok ords" and "zone_ok (set actual)" and "zone_ok (set desired)"
    and "ReconcileAndValidate ords desired actual cfg live = Some (add, rem)"
  shows "zone_ok (set (applied actual add rem))"
proof -
  obtain add' rm where eq: "ReconcileAndValidate ords desired actual cfg live =
      Some (range_vals (ords Adds 0) add', range_vals (ords Removes 0) rm)"
    and rm: "rm_sound (removable desired cfg live) actual (stays desired cfg live actual) desired rm"
    and a: "add_sound actual desired add' rm"
    by (rule ReconcileAndValidate_maps [OF assms(1)])
  have d: "distinct (map fst add')" "distinct (map fst rm)"
    using rm a by (simp_all add: rm_sound_def add_sound_def)
  have add: "q \<in> set add \<longleftrightarrow> (\<exists>k. map_of add' k = Some q)" for q
    using eq assms(1,4) d by (auto simp: set_range_vals_map_of)
  have rem: "q \<in> set rem \<longleftrightarrow> (\<exists>k. map_of rm k = Some q)" for q
    using eq assms(1,4) d by (auto simp: set_range_vals_map_of)
  have gone: "map_of rm (Intent_Key r) = None" if "Intent_Key r \<notin> Intent_Key ` set rem" for r
  proof (rule ccontr)
    assume "map_of rm (Intent_Key r) \<noteq> None"
    then obtain q where q: "map_of rm (Intent_Key r) = Some q" by blast
    then have "Intent_Key q = Intent_Key r" using rm by (simp add: rm_sound_def)
    moreover have "q \<in> set rem" using q rem by blast
    ultimately show False using that by (metis imageI)
  qed
  have "zone_ok (set add)"
    by (rule zone_ok_subset [OF assms(3)]) (use a in \<open>auto simp: add add_sound_def\<close>)
  moreover have "compatible (Rec q) (Rec r)"
    if "q \<in> set add" and "r \<in> set actual" and "Intent_Key r \<notin> Intent_Key ` set rem" for q r
    using that a gone unfolding add add_sound_def by blast
  moreover have "zone_ok {r \<in> set actual. Intent_Key r \<notin> Intent_Key ` set rem}"
    by (rule zone_ok_subset [OF assms(2)]) auto
  ultimately have "zone_ok (set add \<union> {r \<in> set actual. Intent_Key r \<notin> Intent_Key ` set rem})"
    by (intro zone_ok_Un) auto
  then show ?thesis by (simp add: applied_def Un_commute)
qed


subsection \<open>Consequences for one run\<close>

text \<open>Valid records of a conflict-free list have different keys.\<close>

lemma zone_keys_inj:
  assumes "zone_ok (set ds)" and "\<And>d. d \<in> set ds \<Longrightarrow> record_ok (Rec d)"
  shows "inj_on (\<lambda>d. Record_Key (Rec d)) (set ds)"
proof (rule inj_onI, rule ccontr)
  fix d e assume d: "d \<in> set ds" "e \<in> set ds" "Record_Key (Rec d) = Record_Key (Rec e)" "d \<noteq> e"
  then have "Rec d = Rec e" using assms(2) Record_Key_inj by blast
  moreover have "known (Rec d)" using assms(2) [OF d(1)] by (auto simp: record_ok_def known_def kind_simps)
  ultimately show False
    using zone_okD [OF assms(1) d(1,2,4)] same_slot_incompatible [of "Rec d" "Rec e"] by simp
qed

lemma reconciled_run:
  assumes "orders_ok ords" and "zone_ok (set actual)" and "zone_ok (set desired)"
    and "\<And>d. d \<in> set desired \<Longrightarrow> record_ok (Rec d)"
  shows "\<exists>add rem. ReconcileAndValidate ords desired actual cfg live = Some (add, rem) \<and>
    set add = fst (reconciled desired actual cfg live) \<and>
    Intent_Key ` set rem = snd (reconciled desired actual cfg live)"
  using reconciled_refines [OF assms(1,2) zone_keys_inj [OF assms(3,4)], of cfg live]
  by (metis fst_conv snd_conv)

lemma not_alias_no_loop: "\<not> IsCNAME (Rec d) \<Longrightarrow> \<not> closes_loop d es"
  by (simp add: closes_loop_def)

lemma reconciled_address:
  assumes "\<not> IsCNAME (Rec d)"
  shows "d \<in> fst (reconciled desired actual cfg live) \<longleftrightarrow>
    d \<in> set desired \<and> \<not> settled (stays desired cfg live actual) d \<and>
    wins (stays desired cfg live actual) d"
  unfolding reconciled_def
  using added_wins added_if not_alias_no_loop [OF assms] by blast

text \<open>The aliases a validated alias is checked against are at most those that stay.\<close>

lemma reconciled_alias:
  assumes "zone_ok (set actual)" and "d \<in> set desired"
    and "\<not> settled (stays desired cfg live actual) d" and "wins (stays desired cfg live actual) d"
    and "\<not> closes_loop d (filter (\<lambda>r. \<not> removable desired cfg live r \<and>
      r \<notin> competitors (stays desired cfg live actual) d) actual)"
  shows "d \<in> fst (reconciled desired actual cfg live)"
  unfolding reconciled_def
proof (rule added_if [OF assms(2-4)])
  let ?S = "stays desired cfg live actual"
  let ?es = "filter (\<lambda>r. \<not> removable desired cfg live r \<and> r \<notin> competitors ?S d) actual"
  fix K' assume "Intent_Key ` {r \<in> set actual. removable desired cfg live r} \<subseteq> K'"
  then have "set (left_by K' ?S d actual) \<subseteq> set ?es" by (auto simp: left_by_def)
  moreover have "zone_ok (set ?es)" by (rule zone_ok_subset [OF assms(1)]) auto
  ultimately show "\<not> closes_loop d (left_by K' ?S d actual)"
    using assms(5) closes_loop_subset by blast
qed

text \<open>Nothing is done when all desired records are there and nothing is stale.\<close>

lemma reconciled_steady:
  assumes "\<And>d. d \<in> set desired \<Longrightarrow> settled (stays desired cfg live actual) d"
    and "\<And>r. r \<in> set actual \<Longrightarrow> \<not> removable desired cfg live r"
  shows "reconciled desired actual cfg live = ({}, {})"
proof -
  have "fst (reconciled desired actual cfg live) = {}"
    unfolding reconciled_def using added_wins assms(1) by blast
  then show ?thesis
    using reconciled_keys [of desired actual cfg live] assms(2) by (intro prod_eqI) auto
qed

lemma settledI:
  assumes "r \<in> set actual" and "Intent_Equal r d" and "known (Rec d)" and "d \<in> set desired"
  shows "settled (stays desired cfg live actual) d"
proof -
  have "Intent_Key r = Intent_Key d"
    using assms(2) by (auto simp: Intent_Equal_def Intent_Key_def Record_Equal_eq)
  then have "r \<in> stays desired cfg live actual"
    using assms(1,4) by (auto simp: stays_def removable_def)
  moreover have "\<not> compatible (Rec d) (Rec r)"
    using assms(2,3) same_slot_incompatible [of "Rec d" "Rec d"] by (simp add: Intent_Equal_Rec)
  ultimately show ?thesis using assms(2) by (auto simp: settled_def competitors_def)
qed

lemma reconciled_no_loop:
  "zone_ok (set actual) \<Longrightarrow> d \<in> fst (reconciled desired actual cfg live) \<Longrightarrow>
   \<not> closes_loop d
     (filter (\<lambda>r. Intent_Key r \<notin> snd (reconciled desired actual cfg live)) actual)"
  unfolding reconciled_def by (rule added_no_loop)

text \<open>One added alias keeps a loop-free zone loop-free.\<close>

lemma single_addition_loop_free:
  assumes "orders_ok ords" and "zone_ok (set actual)" and "zone_ok (set desired)"
    and "\<And>d. d \<in> set desired \<Longrightarrow> record_ok (Rec d)" and "loop_free actual"
    and "ReconcileAndValidate ords desired actual cfg live = Some ([d], rem)"
  shows "loop_free (applied actual [d] rem)"
proof -
  let ?S = "stays desired cfg live actual"
  let ?left = "filter (\<lambda>r. Intent_Key r \<notin> Intent_Key ` set rem) actual"
  have run: "fst (reconciled desired actual cfg live) = {d}"
    "snd (reconciled desired actual cfg live) = Intent_Key ` set rem"
    using reconciled_run [OF assms(1-4), of cfg live] assms(6) by auto
  have "d \<in> set desired \<and> \<not> settled ?S d"
    using run(1) added_wins unfolding reconciled_def by blast
  then have d: "d \<in> set desired" "known (Rec d)" "d \<notin> set actual"
    using assms(4) [of d] settledI [of d actual d desired cfg live]
    by (auto simp: Intent_Equal_def Record_Equal_eq record_ok_def known_def kind_simps)
  have zone: "zone_ok (set (applied actual [d] rem))"
    by (rule zone_ok_applied [OF assms(1-3,6)])
  then have comp: "compatible (Rec d) (Rec e)" if "e \<in> set ?left" for e
    using that d(3) by (intro zone_okD [OF zone]) (auto simp: applied_def)
  have "\<not> closes_loop d ?left"
    using reconciled_no_loop [OF assms(2), of d desired cfg live] run by simp
  with comp have "ValidateRecord d ?left = None" using ValidateRecord_loop by blast
  moreover have "loop_free ?left" by (rule loop_free_subset [OF assms(2,5)]) auto
  ultimately show ?thesis unfolding applied_def by (rule ValidateRecord_loop_free)
qed

text \<open>A forced address takes its place from any other host's record.\<close>

lemma forced_takes_over:
  assumes "orders_ok ords" and "Force d" and "IsAddress (Rec d)" and "record_ok (Rec d)"
    and "Rec r = Rec d" and "Hostname r \<noteq> Hostname d" and "AppHostname cfg = Hostname d"
    and "\<forall>hs. live = Some hs \<longrightarrow> Hostname r \<in> set hs"
  shows "\<exists>add rem. ReconcileAndValidate ords [d] [r] cfg live = Some (add, rem) \<and>
    set (applied [r] add rem) = {d}"
proof -
  have S: "stays [d] cfg live [r] = {r}" and R: "{q \<in> set [r]. removable [d] cfg live q} = {}"
    using assms(6-8) by (auto simp: stays_def removable_def)
  have "\<not> compatible (Rec d) (Rec r)" using assms(3,5) by (simp add: compatible_def)
  then have C: "competitors {r} d = {r}" by (auto simp: competitors_def)
  have "\<not> settled {r} d" and "wins {r} d"
    using assms(2,6) by (auto simp: settled_def C Intent_Equal_def wins_def)
  moreover have "\<not> closes_loop d es" for es
    using assms(3) by (intro not_alias_no_loop address_not_cname)
  ultimately have "reconciled [d] [r] cfg live = ({d}, {Intent_Key r})"
    unfolding reconciled_def S R by (simp add: decide_pair C)
  moreover have "zone_ok (set [r])" "zone_ok (set [d])" by (simp_all add: zone_ok_def)
  then obtain add rem where "ReconcileAndValidate ords [d] [r] cfg live = Some (add, rem)"
    "set add = fst (reconciled [d] [r] cfg live)"
    "Intent_Key ` set rem = snd (reconciled [d] [r] cfg live)"
    using reconciled_run [OF assms(1), of "[r]" "[d]" cfg live] assms(4) by auto
  ultimately show ?thesis by (auto simp: applied_def)
qed

end
