(* ===== verification/Status.thy ===== *)
theory Status
  imports Domain
begin

text \<open>
  \<^verbatim>\<open>internal/httpserver/status.go\<close>: the health view behind \<^verbatim>\<open>/readyz\<close>, fed by the
  engine and the event generator.  A Go error is its message; the operations run under a mutex
  and are atomic steps.  \<open>now\<close> is the instant the status' clock returns.
\<close>

record Status =
  dockerConnected :: bool
  lastReconcileSuccess :: Time
  lastReconcileErr :: "string option"
  readyThreshold :: int
  dryRun :: bool

definition NewStatus :: "int \<Rightarrow> Status" where
  "NewStatus threshold =
     \<lparr>dockerConnected = False, lastReconcileSuccess = zeroTime, lastReconcileErr = None,
      readyThreshold = threshold, dryRun = False\<rparr>"

definition SetDockerConnected :: "Status \<Rightarrow> bool \<Rightarrow> Status" where
  "SetDockerConnected s conn = s\<lparr>dockerConnected := conn\<rparr>"

definition SetDryRun :: "Status \<Rightarrow> bool \<Rightarrow> Status" where
  "SetDryRun s dry = s\<lparr>dryRun := dry\<rparr>"

definition RecordReconcile :: "Time \<Rightarrow> Status \<Rightarrow> string option \<Rightarrow> Status" where
  "RecordReconcile now s err =
     (let s' = s\<lparr>lastReconcileErr := err\<rparr>
      in if err = None then s'\<lparr>lastReconcileSuccess := now\<rparr> else s')"

definition Ready :: "Time \<Rightarrow> Status \<Rightarrow> bool \<times> string" where
  "Ready now s =
     (if dryRun s then (False, ''dry-run mode: records are not applied'')
      else if \<not> dockerConnected s then (False, ''docker event stream not connected'')
      else case lastReconcileErr s of
        Some err \<Rightarrow> (False, ''last reconciliation failed: '' @ err)
      | None \<Rightarrow>
          if IsZero (lastReconcileSuccess s) then (False, ''no successful reconciliation yet'')
          else if TimeSub now (lastReconcileSuccess s) > readyThreshold s
          then (False, ''last successful reconciliation is older than the readiness threshold'')
          else (True, ''ok''))"

lemmas [go_eval] =
  NewStatus_def SetDockerConnected_def SetDryRun_def
  RecordReconcile_def Ready_def


subsection \<open>A run of the status\<close>

text \<open>What the daemon tells the status, in order; a pass carries the time of its report.\<close>

datatype status_event = Connection bool | Pass Time "string option"

definition status_step :: "status_event \<Rightarrow> Status \<Rightarrow> Status" where
  "status_step ev s =
     (case ev of Connection c \<Rightarrow> SetDockerConnected s c | Pass t err \<Rightarrow> RecordReconcile t s err)"

text \<open>The facts of a history that readiness depends on.\<close>

fun last_connection :: "status_event list \<Rightarrow> bool" where
  "last_connection [] = False"
| "last_connection (Connection c # evs) = c"
| "last_connection (Pass t e # evs) = last_connection evs"

fun last_error :: "status_event list \<Rightarrow> string option" where
  "last_error [] = None"
| "last_error (Connection c # evs) = last_error evs"
| "last_error (Pass t e # evs) = e"

fun last_success :: "status_event list \<Rightarrow> Time option" where
  "last_success [] = None"
| "last_success (Connection c # evs) = last_success evs"
| "last_success (Pass t e # evs) = (if e = None then Some t else last_success evs)"

lemma status_history:
  assumes "s = fold status_step evs (SetDryRun (NewStatus th) dry)"
  shows "dockerConnected s = last_connection (rev evs)" and "lastReconcileErr s = last_error (rev evs)"
    and "lastReconcileSuccess s = (case last_success (rev evs) of Some t \<Rightarrow> t | None \<Rightarrow> zeroTime)"
    and "readyThreshold s = th" and "dryRun s = dry"
proof -
  let ?s = "\<lambda>evs. fold status_step evs (SetDryRun (NewStatus th) dry)"
  have "dockerConnected (?s evs) = last_connection (rev evs) \<and>
      lastReconcileErr (?s evs) = last_error (rev evs) \<and>
      lastReconcileSuccess (?s evs) =
        (case last_success (rev evs) of Some t \<Rightarrow> t | None \<Rightarrow> zeroTime) \<and>
      readyThreshold (?s evs) = th \<and> dryRun (?s evs) = dry"
  proof (induction evs rule: rev_induct)
    case Nil
    show ?case by (simp add: SetDryRun_def NewStatus_def)
  next
    case (snoc ev evs)
    then show ?case
      by (cases ev) (auto simp: status_step_def SetDockerConnected_def RecordReconcile_def Let_def)
  qed
  with assms show "dockerConnected s = last_connection (rev evs)"
    and "lastReconcileErr s = last_error (rev evs)"
    and "lastReconcileSuccess s = (case last_success (rev evs) of Some t \<Rightarrow> t | None \<Rightarrow> zeroTime)"
    and "readyThreshold s = th" and "dryRun s = dry"
    by simp_all
qed

end
