(* ===== verification/Metrics.thy ===== *)
theory Metrics
  imports Domain
begin

text \<open>
  \<^verbatim>\<open>internal/metrics/metrics.go\<close>.  The collectors are a library's; the model is the sequence
  of calls on them.
\<close>

text \<open>The calls: on a histogram, on counters, on gauges and on the labelled result counter.\<close>

datatype metric_op =
    ReconcileDuration int
  | RecordsAdded int
  | RecordsRemoved int
  | RecordsSkipped int
  | ReconcileTotal string
  | LastReconcileSuccess int
  | EtcdErrors
  | EtcdLockFailures
  | DockerDisconnects

text \<open>\<open>dry\<close> is the flag of \<open>SetDryRun\<close>; \<open>unixNow\<close> is \<^verbatim>\<open>time.Now().Unix()\<close>.\<close>

definition ObserveReconcile ::
  "bool \<Rightarrow> int \<Rightarrow> int \<Rightarrow> int \<Rightarrow> int \<Rightarrow> int \<Rightarrow> string option \<Rightarrow> metric_op list"
where
  "ObserveReconcile dry unixNow duration added removed skipped err =
     [ReconcileDuration duration, RecordsAdded added, RecordsRemoved removed,
      RecordsSkipped skipped] @
     (if err \<noteq> None then [ReconcileTotal ''error'']
      else if dry then [ReconcileTotal ''dry_run'']
      else [ReconcileTotal ''success'', LastReconcileSuccess unixNow])"

definition IncEtcdError :: "metric_op list" where "IncEtcdError = [EtcdErrors]"
definition IncLockFailure :: "metric_op list" where "IncLockFailure = [EtcdLockFailures]"
definition IncDockerDisconnect :: "metric_op list" where
  "IncDockerDisconnect = [DockerDisconnects]"

text \<open>The sink itself: the flag, and the calls made so far.\<close>

type_synonym metrics_sink = "bool \<times> metric_op list"

definition MetricsSetDryRun :: "metrics_sink \<Rightarrow> bool \<Rightarrow> metrics_sink" where
  "MetricsSetDryRun m dry = (dry, snd m)"

lemmas [go_eval] =
  MetricsSetDryRun_def ObserveReconcile_def IncEtcdError_def IncLockFailure_def IncDockerDisconnect_def

text \<open>Each pass is counted once, and the success gauge moves with the success counter.\<close>

definition results :: "metric_op list \<Rightarrow> string list" where
  "results ops = List.map_filter (\<lambda>op. case op of ReconcileTotal l \<Rightarrow> Some l | _ \<Rightarrow> None) ops"

lemma results_ObserveReconcile:
  "results (ObserveReconcile dry u d a r s err) =
     [if err \<noteq> None then ''error'' else if dry then ''dry_run'' else ''success'']"
  by (simp add: results_def ObserveReconcile_def map_filter_def)


subsection \<open>Construction\<close>

text \<open>
  The collectors of \<open>New\<close> with the metrics' names.  \<^verbatim>\<open>MustRegister\<close> panics (\<open>None\<close>) when a name is
  registered already.
\<close>

datatype collector = Histogram string | CounterVec string "string list" | Gauge string | Counter string

fun metricName :: "collector \<Rightarrow> string" where
  "metricName (Histogram n) = n"
| "metricName (CounterVec n labels) = n"
| "metricName (Gauge n) = n"
| "metricName (Counter n) = n"

definition collectors :: "collector list" where
  "collectors =
     [Histogram ''dcs_reconcile_duration_seconds'',
      CounterVec ''dcs_reconcile_total'' [''result''],
      Gauge ''dcs_reconcile_last_success_timestamp_seconds'',
      Counter ''dcs_records_added_total'',
      Counter ''dcs_records_removed_total'',
      Gauge ''dcs_records_skipped'',
      Counter ''dcs_etcd_errors_total'',
      Counter ''dcs_etcd_lock_failures_total'',
      Counter ''dcs_docker_disconnects_total'']"

fun MustRegister :: "collector list \<Rightarrow> collector list \<Rightarrow> collector list option" where
  "MustRegister registered [] = Some registered"
| "MustRegister registered (c # cs) =
     (if metricName c \<in> metricName ` set registered then None else MustRegister (registered @ [c]) cs)"

definition NewMetrics :: "collector list option" where
  "NewMetrics = MustRegister [] collectors"

lemma MustRegister_distinct:
  "distinct (map metricName (registered @ cs)) \<Longrightarrow> MustRegister registered cs = Some (registered @ cs)"
proof (induction cs arbitrary: registered)
  case (Cons c cs)
  then have "metricName c \<notin> metricName ` set registered" by auto
  with Cons.IH [of "registered @ [c]"] Cons.prems show ?case by simp
qed simp

theorem NewMetrics_registers_all: "NewMetrics = Some collectors"
  unfolding NewMetrics_def using MustRegister_distinct [of "[]" collectors]
  by (simp add: collectors_def)

end
