(* ===== verification/Engine.thy ===== *)
theory Engine
  imports State Record_Builder Reconciliation Status Metrics
begin

text \<open>
  \<^verbatim>\<open>internal/core/engine.go\<close>: the event handler, the reconciliation pass and the two loops of
  \<open>Run\<close>.  The interfaces of \<^verbatim>\<open>interface.go\<close> appear as follows: the container state is
  \<open>MemoryState\<close>; the upstream registry is a record of operations on a state \<open>'r\<close>, which
  \<open>Etcd_Registry\<close> provides; reporter and metrics are optional.  A Go error is its message.

  The event goroutine and the ticker loop share only the container state, whose operations are
  atomic, so a run is an interleaving of whole events and whole passes.
\<close>

subsection \<open>Events\<close>

definition handleEvent ::
  "map_order \<Rightarrow> AppConfig \<Rightarrow> Time \<Rightarrow> MemoryState \<Rightarrow> ContainerEvent \<Rightarrow> MemoryState"
where
  "handleEvent ord cfg now s evt =
     (if EventType evt = EventTypeResync then
        fst (RetainRunning ord s (set (RunningContainerIds evt)))
      else if Id (Container evt) = [] then s
      else if \<not> EventType_IsValid (EventType evt) then s
      else if EventType evt = EventTypeInitialContainerDetection \<or>
              EventType evt = EventTypeContainerStarted then
        let intents = GetContainerRecordIntents ord evt cfg in
        if length intents > 0 then
          Upsert s now (Id (Container evt)) (ContName (Container evt))
            (ContCreated (Container evt)) intents StatusRunning
        else s
      else if EventType evt = EventTypeContainerStopped \<or>
              EventType evt = EventTypeContainerDied then
        fst (MarkRemoved s (Id (Container evt)))
      else s)"


subsection \<open>The upstream registry\<close>

text \<open>The variables of a tick that the locked function writes.\<close>

record passVars =
  nAdded :: int
  nRemoved :: int
  nSkipped :: int

text \<open>How the locked function ends: with an error or nil, or by a panic.\<close>

datatype outcome = Returned "string option" | Panicked

text \<open>
  A fallible operation gives its error or nil, or its result, and the next state.  A lock
  transaction may never return (\<open>None\<close>).
\<close>

record 'r upstreamRegistry =
  regStartHeartbeat :: "'r \<Rightarrow> string option \<times> 'r"
  regGetLiveHostnames :: "'r \<Rightarrow> (string + string list option) \<times> 'r"
  regLockTransaction ::
    "string list \<Rightarrow> (passVars \<times> 'r \<Rightarrow> outcome \<times> passVars \<times> 'r) \<Rightarrow> passVars \<times> 'r \<Rightarrow>
     (outcome \<times> passVars \<times> 'r) option"
  regList :: "'r \<Rightarrow> (string + RecordIntent list) \<times> 'r"
  regRegister :: "RecordIntent \<Rightarrow> 'r \<Rightarrow> string option \<times> 'r"
  regRemove :: "RecordIntent \<Rightarrow> 'r \<Rightarrow> string option \<times> 'r"
  regStopHeartbeat :: "'r \<Rightarrow> 'r"


subsection \<open>The reconciliation pass\<close>

text \<open>The bodies of the two write loops; the counters are \<open>writeErrs\<close> and the one of the loop.\<close>

definition writeStep ::
  "(RecordIntent \<Rightarrow> 'r \<Rightarrow> string option \<times> 'r) \<Rightarrow> RecordIntent \<Rightarrow> int \<times> int \<times> 'r \<Rightarrow> int \<times> int \<times> 'r"
where
  "writeStep write rec st =
     (let (writeErrs, written, r) = st;
          (err, r') = write rec r
      in if err \<noteq> None then (writeErrs + 1, written, r') else (writeErrs, written + 1, r'))"

definition applyWrites ::
  "'r upstreamRegistry \<Rightarrow> RecordIntent list \<Rightarrow> RecordIntent list \<Rightarrow> passVars \<times> 'r \<Rightarrow>
   outcome \<times> passVars \<times> 'r"
where
  "applyWrites reg toAdd toRemove st =
     (let (vars, r) = st;
          (errs1, rem, r1) = fold (writeStep (regRemove reg)) toRemove (0, nRemoved vars, r);
          (errs2, add, r2) = fold (writeStep (regRegister reg)) toAdd (errs1, nAdded vars, r1);
          vars' = vars\<lparr>nAdded := add, nRemoved := rem\<rparr>
      in if errs2 > 0
         then (Returned (Some (Itoa (nat errs2) @ '' record write(s) failed during reconciliation'')),
               vars', r2)
         else (Returned None, vars', r2))"

text \<open>
  The function \<open>Run\<close> hands to the lock.  \<open>s\<close> is the container state when the pass reads it.
\<close>

definition reconcilePass ::
  "range_orders \<Rightarrow> map_order \<Rightarrow> AppConfig \<Rightarrow> 'r upstreamRegistry \<Rightarrow> MemoryState \<Rightarrow>
   passVars \<times> 'r \<Rightarrow> outcome \<times> passVars \<times> 'r"
where
  "reconcilePass ords ord cfg reg s st =
     (let (vars, r) = st;
          (listed, r1) = regList reg r
      in case listed of
        Inl err \<Rightarrow> (Returned (Some (''error listing registry records: '' @ err)), vars, r1)
      | Inr actual \<Rightarrow>
          let (live, r2) = regGetLiveHostnames reg r1;
              liveHosts = (case live of Inl err \<Rightarrow> None | Inr hosts \<Rightarrow> hosts);
              desired = GetAllDesiredRecordIntents ord s
          in case FilterRecordIntents ords desired of
               None \<Rightarrow> (Panicked, vars, r2)
             | Some desiredReconciled \<Rightarrow>
                 let vars1 = vars\<lparr>nSkipped := int (length desired) - int (length desiredReconciled)\<rparr>
                 in case ReconcileAndValidate ords desiredReconciled actual cfg liveHosts of
                      None \<Rightarrow> (Panicked, vars1, r2)
                    | Some (toAdd, toRemove) \<Rightarrow>
                        if DryRun cfg then (Returned None, vars1, r2)
                        else applyWrites reg toAdd toRemove (vars1, r2))"


subsection \<open>The run\<close>

text \<open>
  What the loops work on.  \<open>health\<close> is the reporter, \<open>metrics\<close> the dry-run flag of the metrics and
  the calls made on them; both are optional.
\<close>

record 'r engine =
  memory :: MemoryState
  registry :: 'r
  health :: "Status option"
  metrics :: "(bool \<times> metric_op list) option"

definition noVars :: passVars where
  "noVars = \<lparr>nAdded = 0, nRemoved = 0, nSkipped = 0\<rparr>"

text \<open>
  One tick: the locked pass, then the report.  \<open>start\<close> and \<open>end\<close> are the instants of
  \<^verbatim>\<open>time.Now()\<close> before the pass and of the report.  \<open>None\<close>: the tick never returns, or panics.
\<close>

definition tick ::
  "range_orders \<Rightarrow> map_order \<Rightarrow> AppConfig \<Rightarrow> 'r upstreamRegistry \<Rightarrow> Time \<Rightarrow> Time \<Rightarrow> 'r engine \<Rightarrow>
   'r engine option"
where
  "tick ords ord cfg reg start finish e =
     (case regLockTransaction reg [''__global__''] (reconcilePass ords ord cfg reg (memory e))
         (noVars, registry e) of
        None \<Rightarrow> None
      | Some (Panicked, vars, r) \<Rightarrow> None
      | Some (Returned err, vars, r) \<Rightarrow>
          Some (e\<lparr>registry := r,
                  health := map_option (\<lambda>s. RecordReconcile finish s err) (health e),
                  metrics := map_option (\<lambda>(dry, ops).
                      (dry, ops @ ObserveReconcile dry (finish div 1000000000) (TimeSub finish start)
                         (nAdded vars) (nRemoved vars) (nSkipped vars) err)) (metrics e)\<rparr>))"

text \<open>What wakes the loops: an event from the generator, or the ticker.\<close>

datatype wakeup = Event map_order Time ContainerEvent | Ticker range_orders map_order Time Time

definition wake ::
  "AppConfig \<Rightarrow> 'r upstreamRegistry \<Rightarrow> wakeup \<Rightarrow> 'r engine \<Rightarrow> 'r engine option"
where
  "wake cfg reg w e =
     (case w of
        Event ord now evt \<Rightarrow> Some (e\<lparr>memory := handleEvent ord cfg now (memory e) evt\<rparr>)
      | Ticker ords ord start finish \<Rightarrow> tick ords ord cfg reg start finish e)"

text \<open>
  \<open>Run\<close> until its context is cancelled after the wake-ups \<open>ws\<close>; the error of the context is
  \<open>ctxErr\<close>, that of \<open>Subscribe\<close> is \<open>subscribed\<close>.  An error of \<open>StartHeartbeat\<close> is only logged.
\<close>

definition startHeartbeat :: "AppConfig \<Rightarrow> 'r upstreamRegistry \<Rightarrow> 'r engine \<Rightarrow> 'r engine" where
  "startHeartbeat cfg reg e =
     (if DryRun cfg then e else e\<lparr>registry := snd (regStartHeartbeat reg (registry e))\<rparr>)"

definition Run ::
  "AppConfig \<Rightarrow> 'r upstreamRegistry \<Rightarrow> string option \<Rightarrow> string \<Rightarrow> wakeup list \<Rightarrow> 'r engine \<Rightarrow>
   (string \<times> 'r engine) option"
where
  "Run cfg reg subscribed ctxErr ws e =
     (let e1 = startHeartbeat cfg reg e in
      case subscribed of
        Some err \<Rightarrow> Some (''failed to subscribe to docker events: '' @ err, e1)
      | None \<Rightarrow>
          map_option (\<lambda>e2. (ctxErr, e2\<lparr>registry := regStopHeartbeat reg (registry e2)\<rparr>))
            (foldM (\<lambda>i e w. wake cfg reg w e) 0 e1 ws))"

lemmas [go_eval] =
  handleEvent_def writeStep_def applyWrites_def reconcilePass_def noVars_def tick_def wake_def
  startHeartbeat_def Run_def


text \<open>A wake-up whose map orders are orders.\<close>

definition wakeup_ok :: "wakeup \<Rightarrow> bool" where
  "wakeup_ok w = (case w of Event ord now evt \<Rightarrow> is_order ord
     | Ticker ords ord start finish \<Rightarrow> orders_ok ords \<and> is_order ord)"

subsection \<open>What the events leave in the container state\<close>

text \<open>The abstract effect of an event on the tracker.\<close>

datatype effect = Ignored | Resynced "string set" | Started string "RecordIntent list" | Gone string

definition effect_of :: "map_order \<Rightarrow> AppConfig \<Rightarrow> ContainerEvent \<Rightarrow> effect" where
  "effect_of ord cfg evt =
     (let cid = Id (Container evt); et = EventType evt;
          intents = GetContainerRecordIntents ord evt cfg in
      if et = EventTypeResync then Resynced (set (RunningContainerIds evt))
      else if cid = [] then Ignored
      else if et \<in> {EventTypeInitialContainerDetection, EventTypeContainerStarted} then
        (if intents = [] then Ignored else Started cid intents)
      else if et \<in> {EventTypeContainerStopped, EventTypeContainerDied} then Gone cid
      else Ignored)"

fun perform :: "effect \<Rightarrow> tracker \<Rightarrow> tracker" where
  "perform Ignored t = t"
| "perform (Resynced R) t = resync R t"
| "perform (Started cid intents) t = track cid intents StatusRunning t"
| "perform (Gone cid) t = untrack cid t"

theorem handleEvent_effect:
  assumes "is_order ord" and "mem_wf s"
  shows "mem_wf (handleEvent ord cfg now s evt)"
    and "mem_abs (handleEvent ord cfg now s evt) = perform (effect_of ord cfg evt) (mem_abs s)"
  using assms
  by (auto simp: handleEvent_def effect_of_def Let_def EventType_IsValid_def wf_intros
      mem.abs_upsert mem.abs_mark mem.abs_retain)

text \<open>The states of the tracker that some sequence of events leads to.\<close>

inductive reachable :: "AppConfig \<Rightarrow> MemoryState \<Rightarrow> bool" for cfg where
  start: "reachable cfg NewMemoryState"
| event: "reachable cfg s \<Longrightarrow> is_order ord \<Longrightarrow> reachable cfg (handleEvent ord cfg now s evt)"

inductive_cases reachableE: "reachable cfg s"

definition own_intents :: "AppConfig \<Rightarrow> string \<Rightarrow> RecordIntent list \<Rightarrow> bool" where
  "own_intents cfg cid ris \<longleftrightarrow> cid \<noteq> [] \<and> ris \<noteq> [] \<and>
     (\<forall>ri \<in> set ris. ContainerId ri = cid \<and> Hostname ri = AppHostname cfg \<and> record_ok (Rec ri))"

definition tracks_own :: "AppConfig \<Rightarrow> tracker \<Rightarrow> bool" where
  "tracks_own cfg t \<longleftrightarrow> (\<forall>cid ris n. t cid = Some (ris, n) \<longrightarrow>
     own_intents cfg cid ris \<and> n < resyncPruneThreshold)"

lemma own_intents_effect:
  "effect_of ord cfg evt = Started cid ris \<Longrightarrow> own_intents cfg cid ris"
  by (auto simp: effect_of_def Let_def own_intents_def intents_mem buildIntent_Some
      split: if_splits)

lemma perform_tracks_own:
  assumes "tracks_own cfg t"
  shows "tracks_own cfg (perform (effect_of ord cfg evt) t)"
proof (cases "effect_of ord cfg evt")
  case (Started cid ris)
  then show ?thesis
    using assms own_intents_effect [OF Started]
    by (simp add: tracks_own_def track_def resyncPruneThreshold_def)
next
  case (Resynced R)
  with assms show ?thesis
    by (auto simp: tracks_own_def resync_def resyncPruneThreshold_def split: option.splits if_splits)
qed (use assms in \<open>auto simp: tracks_own_def untrack_def\<close>)

theorem reachable_tracks_own:
  "reachable cfg s \<Longrightarrow> mem_wf s \<and> tracks_own cfg (mem_abs s)"
proof (induction rule: reachable.induct)
  case start
  have "tracks_own cfg (mem_abs NewMemoryState)"
    by (simp add: tracks_own_def mem_abs_def NewMemoryState_def)
  with mem_wf_New show ?case by simp
next
  case (event s ord now evt)
  then show ?case using handleEvent_effect perform_tracks_own by simp
qed

text \<open>
  What is tracked for a container depends on the resyncs and on the events of that container only.
\<close>

definition concerns :: "string \<Rightarrow> effect \<Rightarrow> bool" where
  "concerns cid eff = (case eff of Ignored \<Rightarrow> False | Resynced R \<Rightarrow> True
     | Started c ris \<Rightarrow> c = cid | Gone c \<Rightarrow> c = cid)"

lemma perform_local: "t cid = u cid \<Longrightarrow> perform eff t cid = perform eff u cid"
  by (cases eff) (auto simp: resync_def track_def untrack_def)

lemma perform_other: "\<not> concerns cid eff \<Longrightarrow> perform eff t cid = t cid"
  by (cases eff) (auto simp: concerns_def track_def untrack_def)

lemma performs_local: "t cid = u cid \<Longrightarrow>
  fold perform effs t cid = fold perform (filter (concerns cid) effs) u cid"
proof (induction effs arbitrary: t u)
  case (Cons eff effs)
  show ?case
  proof (cases "concerns cid eff")
    case True
    have "perform eff t cid = perform eff u cid" by (rule perform_local) (rule Cons.prems)
    from Cons.IH [of "perform eff t" "perform eff u", OF this] True show ?thesis by simp
  next
    case False
    then have "perform eff t cid = u cid" using perform_other [of cid eff t] Cons.prems by simp
    with Cons.IH [of "perform eff t" u] False show ?thesis by simp
  qed
qed simp

text \<open>A started container stays tracked while it is not stopped and the resyncs list it.\<close>

lemma performs_keep:
  assumes "\<forall>eff \<in> set effs. \<not> concerns cid eff \<or> (\<exists>R. eff = Resynced R \<and> cid \<in> R)"
    and "t cid = Some (ris, n)"
  shows "\<exists>m. fold perform effs t cid = Some (ris, m)"
  using assms
proof (induction effs arbitrary: t n)
  case (Cons eff effs)
  have "\<exists>m. perform eff t cid = Some (ris, m)"
    using Cons.prems perform_other [of cid eff t] by (auto simp: resync_def)
  then show ?case using Cons.IH [of "perform eff t"] Cons.prems(1) by auto
qed simp

definition runEvents ::
  "AppConfig \<Rightarrow> (map_order \<times> Time \<times> ContainerEvent) list \<Rightarrow> MemoryState \<Rightarrow> MemoryState"
where
  "runEvents cfg evs s = fold (\<lambda>(ord, now, evt) s. handleEvent ord cfg now s evt) evs s"

lemma runEvents_effects:
  assumes "mem_wf s" and "\<forall>(ord, now, evt) \<in> set evs. is_order ord"
  shows "mem_wf (runEvents cfg evs s) \<and>
    mem_abs (runEvents cfg evs s) =
      fold perform (map (\<lambda>(ord, now, evt). effect_of ord cfg evt) evs) (mem_abs s)"
  using assms
  by (induction evs arbitrary: s) (auto simp: runEvents_def handleEvent_effect)

lemma runEvents_reachable:
  assumes "reachable cfg s" and "\<forall>(ord, now, evt) \<in> set evs. is_order ord"
  shows "reachable cfg (runEvents cfg evs s)"
  using assms by (induction evs arbitrary: s) (auto simp: runEvents_def intro: reachable.event)


subsection \<open>The write loops\<close>

text \<open>The results of the writes, in order.\<close>

fun results_of ::
  "(RecordIntent \<Rightarrow> 'r \<Rightarrow> string option \<times> 'r) \<Rightarrow> RecordIntent list \<Rightarrow> 'r \<Rightarrow> string option list \<times> 'r"
where
  "results_of write [] r = ([], r)"
| "results_of write (x # xs) r =
     (let (err, r1) = write x r; (errs, r2) = results_of write xs r1 in (err # errs, r2))"

definition failures :: "string option list \<Rightarrow> nat" where
  "failures errs = length (filter (\<lambda>e. e \<noteq> None) errs)"

lemma failures_simps [simp]:
  "failures [] = 0" "failures (e # errs) = (if e = None then 0 else 1) + failures errs"
  by (simp_all add: failures_def)

lemma failures_le: "failures errs \<le> length errs"
  by (simp add: failures_def)

lemma failures_0: "failures errs = 0 \<longleftrightarrow> (\<forall>e \<in> set errs. e = None)"
  by (auto simp: failures_def filter_empty_conv)

lemma length_results_of: "results_of write xs r = (errs, r') \<Longrightarrow> length errs = length xs"
  by (induction xs arbitrary: r errs) (auto simp: Let_def split: prod.splits)

lemma fold_writeStep:
  "results_of write xs r = (errs, r') \<Longrightarrow>
   fold (writeStep write) xs (e, n, r) =
     (e + int (failures errs), n + int (length xs) - int (failures errs), r')"
proof (induction xs arbitrary: e n r errs)
  case (Cons x xs)
  obtain e1 r1 where 1: "write x r = (e1, r1)" by force
  obtain es r2 where 2: "results_of write xs r1 = (es, r2)" by force
  have "errs = e1 # es" "r' = r2" using Cons.prems 1 2 by simp_all
  with 1 2 Cons.IH [of r1 es "if e1 \<noteq> None then e + 1 else e" "if e1 \<noteq> None then n else n + 1"]
  show ?case by (auto simp: writeStep_def)
qed simp

lemma results_of_inv:
  assumes "I r" and "\<And>x r. x \<in> set xs \<Longrightarrow> I r \<Longrightarrow> I (snd (write x r))"
  shows "I (snd (results_of write xs r))"
  using assms
proof (induction xs arbitrary: r)
  case (Cons x xs)
  have "I (snd (write x r))" using Cons.prems by simp
  then have "I (snd (results_of write xs (snd (write x r))))"
    by (rule Cons.IH) (simp add: Cons.prems)
  then show ?case by (simp add: split_beta Let_def)
qed simp

lemma applyWrites_eq:
  assumes "results_of (regRemove reg) toRemove r = (errs1, r1)"
    and "results_of (regRegister reg) toAdd r1 = (errs2, r2)"
  shows "applyWrites reg toAdd toRemove (vars, r) =
    (Returned (if failures errs1 + failures errs2 = 0 then None
       else Some (Itoa (failures errs1 + failures errs2) @
         '' record write(s) failed during reconciliation'')),
     vars\<lparr>nAdded := nAdded vars + int (length toAdd) - int (failures errs2),
          nRemoved := nRemoved vars + int (length toRemove) - int (failures errs1)\<rparr>, r2)"
proof -
  have [simp]: "nat (int m + int n) = m + n" for m n by simp
  show ?thesis
    using fold_writeStep [OF assms(1), of 0 "nRemoved vars"]
      fold_writeStep [OF assms(2), of "int (failures errs1)" "nAdded vars"]
    by (auto simp: applyWrites_def)
qed


subsection \<open>The pass\<close>

text \<open>The plan of a pass: the filter and the reconciler, which never panic.\<close>

definition planned ::
  "range_orders \<Rightarrow> map_order \<Rightarrow> AppConfig \<Rightarrow> MemoryState \<Rightarrow> RecordIntent list \<Rightarrow> string list option \<Rightarrow>
   RecordIntent list \<Rightarrow> RecordIntent list \<Rightarrow> RecordIntent list \<Rightarrow> bool"
where
  "planned ords ord cfg s actual live filtered toAdd toRemove \<longleftrightarrow>
     FilterRecordIntents ords (GetAllDesiredRecordIntents ord s) = Some filtered \<and>
     ReconcileAndValidate ords filtered actual cfg live = Some (toAdd, toRemove)"

lemma planned_ex:
  assumes "orders_ok ords"
  obtains filtered toAdd toRemove
  where "planned ords ord cfg s actual live filtered toAdd toRemove"
proof -
  obtain filtered where f:
    "FilterRecordIntents ords (GetAllDesiredRecordIntents ord s) = Some filtered"
    using FilterRecordIntents_kept [OF assms] by blast
  obtain toAdd toRemove where
    "ReconcileAndValidate ords filtered actual cfg live = Some (toAdd, toRemove)"
    using ReconcileAndValidate_maps [OF assms] by blast
  with f that show ?thesis by (auto simp: planned_def)
qed

definition live_of :: "string + string list option \<Rightarrow> string list option" where
  "live_of live = (case live of Inl err \<Rightarrow> None | Inr hosts \<Rightarrow> hosts)"

lemma live_of_simps [simp]: "live_of (Inl err) = None" "live_of (Inr hosts) = hosts"
  by (simp_all add: live_of_def)

definition skippedVars :: "passVars \<Rightarrow> RecordIntent list \<Rightarrow> RecordIntent list \<Rightarrow> passVars" where
  "skippedVars vars desired filtered =
     vars\<lparr>nSkipped := int (length desired) - int (length filtered)\<rparr>"

lemma reconcilePass_list_error:
  "regList reg r = (Inl err, r1) \<Longrightarrow>
   reconcilePass ords ord cfg reg s (vars, r) =
     (Returned (Some (''error listing registry records: '' @ err)), vars, r1)"
  by (simp add: reconcilePass_def)

lemma reconcilePass_eq:
  assumes "regList reg r = (Inr actual, r1)" and "regGetLiveHostnames reg r1 = (live, r2)"
    and "planned ords ord cfg s actual (live_of live) filtered toAdd toRemove"
  shows "reconcilePass ords ord cfg reg s (vars, r) =
    (let vars1 = skippedVars vars (GetAllDesiredRecordIntents ord s) filtered in
     if DryRun cfg then (Returned None, vars1, r2) else applyWrites reg toAdd toRemove (vars1, r2))"
  using assms by (simp add: reconcilePass_def planned_def skippedVars_def live_of_def)

text \<open>Every pass takes one of the two ways.\<close>

lemma reconcilePass_cases:
  assumes "orders_ok ords"
  obtains (error) err r1 where "regList reg r = (Inl err, r1)"
      and "reconcilePass ords ord cfg reg s (vars, r) =
        (Returned (Some (''error listing registry records: '' @ err)), vars, r1)"
    | (planned) actual r1 live r2 filtered toAdd toRemove
      where "regList reg r = (Inr actual, r1)" and "regGetLiveHostnames reg r1 = (live, r2)"
      and "planned ords ord cfg s actual (live_of live) filtered toAdd toRemove"
      and "reconcilePass ords ord cfg reg s (vars, r) =
        (let vars1 = skippedVars vars (GetAllDesiredRecordIntents ord s) filtered in
         if DryRun cfg then (Returned None, vars1, r2)
         else applyWrites reg toAdd toRemove (vars1, r2))"
proof (cases "regList reg r")
  case (Pair listed r1)
  show thesis
  proof (cases listed)
    case (Inl err)
    with Pair show thesis by (intro error) (simp_all add: reconcilePass_list_error)
  next
    case (Inr actual)
    obtain live r2 where live: "regGetLiveHostnames reg r1 = (live, r2)" by force
    obtain filtered toAdd toRemove
      where plan: "planned ords ord cfg s actual (live_of live) filtered toAdd toRemove"
      by (rule planned_ex [OF assms])
    from Pair Inr have list: "regList reg r = (Inr actual, r1)" by simp
    from list live plan reconcilePass_eq [OF list live plan] show thesis by (rule planned)
  qed
qed

lemma applyWrites_returns: "\<exists>err. fst (applyWrites reg toAdd toRemove st) = Returned err"
  by (auto simp: applyWrites_def Let_def split: prod.splits)

lemma reconcilePass_returns:
  assumes "orders_ok ords"
  shows "\<exists>err. fst (reconcilePass ords ord cfg reg s st) = Returned err"
proof -
  obtain vars r where st: "st = (vars, r)" by force
  show ?thesis
    unfolding st
    by (rule reconcilePass_cases [OF assms, of reg r ord cfg s vars])
      (simp_all add: Let_def applyWrites_returns)
qed


subsection \<open>What the registry promises, and what a pass does to it\<close>

text \<open>
  \<open>inv\<close> is the invariant of the registry, \<open>zone\<close> the records it holds, \<open>erases d q\<close> that removing
  \<open>d\<close> deletes \<open>q\<close>, \<open>storable d\<close> that \<open>d\<close> reads back as it was written.  A failed write may or may
  not have happened.  A lock transaction that returns has run the function once on the records it
  found, or has not run it and returns an error.
\<close>

text \<open>
  Whatever fails, a pass only adds records it planned to add and only erases what it planned; when
  nothing fails, it leaves exactly \<open>pass_result\<close>.
\<close>

definition pass_result ::
  "(RecordIntent \<Rightarrow> RecordIntent \<Rightarrow> bool) \<Rightarrow> RecordIntent set \<Rightarrow> RecordIntent list \<Rightarrow>
   RecordIntent list \<Rightarrow> RecordIntent set"
where
  "pass_result erases Z toAdd toRemove =
     {q \<in> Z. \<not> (\<exists>d \<in> set toRemove. erases d q)} \<union> set toAdd"

definition pass_bounds ::
  "(RecordIntent \<Rightarrow> RecordIntent \<Rightarrow> bool) \<Rightarrow> RecordIntent set \<Rightarrow> RecordIntent list \<Rightarrow>
   RecordIntent list \<Rightarrow> RecordIntent set \<Rightarrow> bool"
where
  "pass_bounds erases Z toAdd toRemove Z' \<longleftrightarrow> Z' \<subseteq> Z \<union> set toAdd \<and>
     {q \<in> Z. \<not> (\<exists>d \<in> set toRemove. erases d q)} \<subseteq> Z'"

text \<open>What a tick does to the records, and what it reports.\<close>

definition pass_done ::
  "(RecordIntent \<Rightarrow> RecordIntent \<Rightarrow> bool) \<Rightarrow> range_orders \<Rightarrow> map_order \<Rightarrow> AppConfig \<Rightarrow>
   MemoryState \<Rightarrow> string list option \<Rightarrow> RecordIntent set \<Rightarrow> RecordIntent set \<Rightarrow> string option \<Rightarrow> bool"
where
  "pass_done erases ords ord cfg s live Z Z' err \<longleftrightarrow>
     (\<exists>actual filtered toAdd toRemove. set actual = Z \<and>
        planned ords ord cfg s actual live filtered toAdd toRemove \<and>
        pass_bounds erases Z toAdd toRemove Z' \<and>
        (err = None \<longrightarrow> Z' = pass_result erases Z toAdd toRemove))"

definition tick_done ::
  "(RecordIntent \<Rightarrow> RecordIntent \<Rightarrow> bool) \<Rightarrow> range_orders \<Rightarrow> map_order \<Rightarrow> AppConfig \<Rightarrow>
   MemoryState \<Rightarrow> RecordIntent set \<Rightarrow> RecordIntent set \<Rightarrow> string option \<Rightarrow> bool"
where
  "tick_done erases ords ord cfg s Z Z' err \<longleftrightarrow>
     (\<exists>actual live filtered toAdd toRemove. set actual = Z \<and>
        planned ords ord cfg s actual live filtered toAdd toRemove \<and>
        pass_bounds erases Z toAdd toRemove Z' \<and>
        (err = None \<longrightarrow> Z' = pass_result erases Z toAdd toRemove))"

lemma pass_tick_done: "pass_done erases ords ord cfg s live Z Z' err \<Longrightarrow> tick_done erases ords ord cfg s Z Z' err"
  unfolding pass_done_def tick_done_def by blast

locale upstream_registry =
  fixes reg :: "'r upstreamRegistry"
    and inv :: "'r \<Rightarrow> bool"
    and zone :: "'r \<Rightarrow> RecordIntent set"
    and erases :: "RecordIntent \<Rightarrow> RecordIntent \<Rightarrow> bool"
    and storable :: "RecordIntent \<Rightarrow> bool"
  assumes list_keeps: "inv r \<Longrightarrow> inv (snd (regList reg r)) \<and> zone (snd (regList reg r)) = zone r"
    and list_zone: "inv r \<Longrightarrow> fst (regList reg r) = Inr actual \<Longrightarrow> set actual = zone r"
    and zone_records: "inv r \<Longrightarrow> q \<in> zone r \<Longrightarrow> record_ok (Rec q)"
    and live_keeps: "inv r \<Longrightarrow>
      inv (snd (regGetLiveHostnames reg r)) \<and> zone (snd (regGetLiveHostnames reg r)) = zone r"
    and start_keeps: "inv r \<Longrightarrow>
      inv (snd (regStartHeartbeat reg r)) \<and> zone (snd (regStartHeartbeat reg r)) = zone r"
    and stop_keeps: "inv r \<Longrightarrow>
      inv (regStopHeartbeat reg r) \<and> zone (regStopHeartbeat reg r) = zone r"
    and register_ok: "inv r \<Longrightarrow> storable d \<Longrightarrow> regRegister reg d r = (None, r') \<Longrightarrow>
      zone r' = insert d (zone r)"
    and register_any: "inv r \<Longrightarrow> storable d \<Longrightarrow> regRegister reg d r = (err, r') \<Longrightarrow>
      inv r' \<and> zone r \<subseteq> zone r' \<and> zone r' \<subseteq> insert d (zone r)"
    and remove_ok: "inv r \<Longrightarrow> record_ok (Rec d) \<Longrightarrow> regRemove reg d r = (None, r') \<Longrightarrow>
      zone r' = {q \<in> zone r. \<not> erases d q}"
    and remove_any: "inv r \<Longrightarrow> record_ok (Rec d) \<Longrightarrow> regRemove reg d r = (err, r') \<Longrightarrow>
      inv r' \<and> zone r' \<subseteq> zone r \<and> {q \<in> zone r. \<not> erases d q} \<subseteq> zone r'"
    and erases_equal: "Intent_Equal d q \<Longrightarrow> erases d q"
    and lock: "inv r \<Longrightarrow> regLockTransaction reg ks fn (vars, r) = Some (out, vars', r') \<Longrightarrow>
      (\<exists>r1 r2. inv r1 \<and> zone r1 = zone r \<and> fn (vars, r1) = (out, vars', r2) \<and>
         (inv r2 \<and> out \<noteq> Panicked \<longrightarrow> inv r' \<and> zone r' = zone r2)) \<or>
      (\<exists>e. out = Returned (Some e) \<and> vars' = vars \<and> inv r' \<and> zone r' = zone r)"
begin

lemma registers_ok:
  assumes "inv r" and "\<forall>d \<in> set ds. storable d"
    and "results_of (regRegister reg) ds r = (errs, r')" and "failures errs = 0"
  shows "inv r' \<and> zone r' = zone r \<union> set ds"
  using assms
proof (induction ds arbitrary: r errs)
  case (Cons d ds)
  obtain e r1 where 1: "regRegister reg d r = (e, r1)" by force
  obtain es where 2: "results_of (regRegister reg) ds r1 = (es, r')" and e: "e = None" "failures es = 0"
    using Cons.prems(3,4) 1 by (auto simp: Let_def split: prod.splits if_splits)
  have "inv r1" "zone r1 = insert d (zone r)"
    using register_any [OF Cons.prems(1) _ 1] register_ok [OF Cons.prems(1), of d r1] 1 e
      Cons.prems(2) by auto
  with Cons.IH [OF _ _ 2] Cons.prems(2) e show ?case by simp
qed simp

lemma registers_any:
  assumes "inv r" and "\<forall>d \<in> set ds. storable d"
    and "results_of (regRegister reg) ds r = (errs, r')"
  shows "inv r' \<and> zone r \<subseteq> zone r' \<and> zone r' \<subseteq> zone r \<union> set ds"
  using assms
proof (induction ds arbitrary: r errs)
  case (Cons d ds)
  obtain e r1 where 1: "regRegister reg d r = (e, r1)" by force
  obtain es where 2: "results_of (regRegister reg) ds r1 = (es, r')"
    using Cons.prems(3) 1 by (auto simp: Let_def split: prod.splits)
  have "inv r1 \<and> zone r \<subseteq> zone r1 \<and> zone r1 \<subseteq> insert d (zone r)"
    using register_any [OF Cons.prems(1) _ 1] Cons.prems(2) by simp
  with Cons.prems(2) show ?case using Cons.IH [OF _ _ 2] by auto
qed simp

lemma removes_ok:
  assumes "inv r" and "\<forall>d \<in> set ds. record_ok (Rec d)" and "results_of (regRemove reg) ds r = (errs, r')" and "failures errs = 0"
  shows "inv r' \<and> zone r' = {q \<in> zone r. \<not> (\<exists>d \<in> set ds. erases d q)}"
  using assms
proof (induction ds arbitrary: r errs)
  case (Cons d ds)
  obtain e r1 where 1: "regRemove reg d r = (e, r1)" by force
  obtain es where 2: "results_of (regRemove reg) ds r1 = (es, r')" and e: "e = None" "failures es = 0"
    using Cons.prems(3,4) 1 by (auto simp: Let_def split: prod.splits if_splits)
  have "inv r1" "zone r1 = {q \<in> zone r. \<not> erases d q}"
    using remove_any [OF Cons.prems(1) _ 1] remove_ok [OF Cons.prems(1), of d r1] 1 e
      Cons.prems(2) by auto
  with Cons.IH [OF _ _ 2] Cons.prems(2) e show ?case by auto
qed simp

lemma removes_any:
  assumes "inv r" and "\<forall>d \<in> set ds. record_ok (Rec d)" and "results_of (regRemove reg) ds r = (errs, r')"
  shows "inv r' \<and> zone r' \<subseteq> zone r \<and> {q \<in> zone r. \<not> (\<exists>d \<in> set ds. erases d q)} \<subseteq> zone r'"
  using assms
proof (induction ds arbitrary: r errs)
  case (Cons d ds)
  obtain e r1 where 1: "regRemove reg d r = (e, r1)" by force
  obtain es where 2: "results_of (regRemove reg) ds r1 = (es, r')"
    using Cons.prems(3) 1 by (auto simp: Let_def split: prod.splits)
  have "inv r1 \<and> zone r1 \<subseteq> zone r \<and> {q \<in> zone r. \<not> erases d q} \<subseteq> zone r1"
    by (rule remove_any [OF Cons.prems(1) _ 1]) (use Cons.prems(2) in simp)
  with Cons.IH [OF _ _ 2] Cons.prems(2) show ?case by auto
qed simp

lemma applyWrites_zone:
  assumes "inv r" and "\<forall>d \<in> set toAdd. storable d" and "\<forall>d \<in> set toRemove. record_ok (Rec d)"
    and "applyWrites reg toAdd toRemove (vars, r) = (Returned err, vars', r')"
  shows "inv r'" and "pass_bounds erases (zone r) toAdd toRemove (zone r')"
    and "err = None \<Longrightarrow> zone r' = pass_result erases (zone r) toAdd toRemove"
proof -
  obtain errs1 r1 where 1: "results_of (regRemove reg) toRemove r = (errs1, r1)" by force
  obtain errs2 r2 where 2: "results_of (regRegister reg) toAdd r1 = (errs2, r2)" by force
  note eq = applyWrites_eq [OF 1 2, of vars]
  have r2: "r' = r2" using assms(4) eq by simp
  note rm = removes_any [OF assms(1,3) 1]
  then have add: "inv r2 \<and> zone r1 \<subseteq> zone r2 \<and> zone r2 \<subseteq> zone r1 \<union> set toAdd"
    using registers_any [OF _ assms(2) 2] by simp
  with rm r2 show "inv r'" and "pass_bounds erases (zone r) toAdd toRemove (zone r')"
    by (auto simp: pass_bounds_def)
  assume "err = None"
  then have "failures errs1 = 0" "failures errs2 = 0"
    using assms(4) eq by (auto split: if_splits)
  with removes_ok [OF assms(1,3) 1] registers_ok [OF _ assms(2) 2] r2
  show "zone r' = pass_result erases (zone r) toAdd toRemove" by (auto simp: pass_result_def)
qed

lemma pass_effect:
  assumes "inv r" and "orders_ok ords"
    and "\<forall>d \<in> set (GetAllDesiredRecordIntents ord s). storable d" and "\<not> DryRun cfg"
    and "reconcilePass ords ord cfg reg s (vars, r) = (Returned err, vars', r')"
  shows "inv r' \<and> (err \<noteq> None \<and> zone r' = zone r \<or>
    pass_done erases ords ord cfg s (live_of (fst (regGetLiveHostnames reg (snd (regList reg r)))))
      (zone r) (zone r') err)"
proof (rule reconcilePass_cases [OF assms(2), of reg r ord cfg s vars])
  fix e r1
  assume "regList reg r = (Inl e, r1)" and "reconcilePass ords ord cfg reg s (vars, r) =
    (Returned (Some (''error listing registry records: '' @ e)), vars, r1)"
  with assms(5) list_keeps [OF assms(1)] show ?thesis by auto
next
  fix actual r1 live r2 filtered toAdd toRemove
  assume list: "regList reg r = (Inr actual, r1)" and live: "regGetLiveHostnames reg r1 = (live, r2)"
    and plan: "planned ords ord cfg s actual (live_of live) filtered toAdd toRemove"
    and eq: "reconcilePass ords ord cfg reg s (vars, r) =
      (let vars1 = skippedVars vars (GetAllDesiredRecordIntents ord s) filtered in
       if DryRun cfg then (Returned None, vars1, r2)
       else applyWrites reg toAdd toRemove (vars1, r2))"
  have r1: "inv r1" "zone r1 = zone r" and actual: "set actual = zone r"
    using list_keeps [OF assms(1)] list_zone [OF assms(1)] list by simp_all
  then have r2: "inv r2" "zone r2 = zone r" using live_keeps [of r1] live by simp_all
  have "storable d" if "d \<in> set toAdd" for d
  proof -
    obtain filtered' where "FilterRecordIntents ords (GetAllDesiredRecordIntents ord s) =
        Some filtered'" "set filtered' = {r. kept (GetAllDesiredRecordIntents ord s) r}"
      using FilterRecordIntents_kept [OF assms(2)] by blast
    then have "set filtered \<subseteq> set (GetAllDesiredRecordIntents ord s)"
      using plan kept_mem by (auto simp: planned_def)
    moreover have "set toAdd \<subseteq> set filtered"
      using plan reconcile_adds_desired(1) [OF assms(2), of filtered actual cfg "live_of live"
          toAdd toRemove] by (simp add: planned_def)
    ultimately show ?thesis using that assms(3) by blast
  qed
  then have ok: "\<forall>d \<in> set toAdd. storable d" by blast
  have "set toRemove \<subseteq> set actual"
    using plan reconcile_adds_desired(2) [OF assms(2), of filtered actual cfg "live_of live"
        toAdd toRemove] by (simp add: planned_def)
  then have rm: "\<forall>d \<in> set toRemove. record_ok (Rec d)"
    using actual zone_records [OF assms(1)] by blast
  have "applyWrites reg toAdd toRemove
      (skippedVars vars (GetAllDesiredRecordIntents ord s) filtered, r2) = (Returned err, vars', r')"
    using assms(4,5) eq by (simp add: Let_def)
  from applyWrites_zone [OF r2(1) ok rm this] actual plan show ?thesis
    unfolding pass_done_def r2(2) using list live by fastforce
qed

text \<open>A pass in dry-run mode writes nothing and counts nothing.\<close>

lemma pass_dry:
  assumes "inv r" and "orders_ok ords" and "DryRun cfg"
    and "reconcilePass ords ord cfg reg s (vars, r) = (out, vars', r')"
  shows "inv r' \<and> zone r' = zone r \<and> nAdded vars' = nAdded vars \<and> nRemoved vars' = nRemoved vars"
proof (rule reconcilePass_cases [OF assms(2), of reg r ord cfg s vars])
  fix e r1
  assume "regList reg r = (Inl e, r1)" and "reconcilePass ords ord cfg reg s (vars, r) =
    (Returned (Some (''error listing registry records: '' @ e)), vars, r1)"
  with assms(4) list_keeps [OF assms(1)] show ?thesis by auto
next
  fix actual r1 live r2 filtered toAdd toRemove
  assume list: "regList reg r = (Inr actual, r1)" and live: "regGetLiveHostnames reg r1 = (live, r2)"
    and eq: "reconcilePass ords ord cfg reg s (vars, r) =
      (let vars1 = skippedVars vars (GetAllDesiredRecordIntents ord s) filtered in
       if DryRun cfg then (Returned None, vars1, r2)
       else applyWrites reg toAdd toRemove (vars1, r2))"
  have "inv r1" "zone r1 = zone r" using list_keeps [OF assms(1)] list by simp_all
  moreover from this have "inv r2" "zone r2 = zone r1" using live_keeps [of r1] live by simp_all
  ultimately show ?thesis using assms(3,4) eq by (auto simp: Let_def skippedVars_def)
qed

text \<open>The error a tick reports.\<close>

lemma reported_err:
  "map_option (\<lambda>s. RecordReconcile t s err) h = Some s \<Longrightarrow> lastReconcileErr s = err"
  by (auto simp: RecordReconcile_def Let_def)

lemma tick_effect:
  assumes "inv (registry e)" and "orders_ok ords" and "\<not> DryRun cfg"
    and "\<forall>d \<in> set (GetAllDesiredRecordIntents ord (memory e)). storable d"
    and "tick ords ord cfg reg start finish e = Some e'"
  shows "inv (registry e') \<and> memory e' = memory e \<and>
    (\<exists>err. (\<forall>s. health e' = Some s \<longrightarrow> lastReconcileErr s = err) \<and>
       (err \<noteq> None \<and> zone (registry e') = zone (registry e) \<or>
        tick_done erases ords ord cfg (memory e) (zone (registry e)) (zone (registry e')) err))"
proof -
  obtain err vars r where locked: "regLockTransaction reg [''__global__'']
      (reconcilePass ords ord cfg reg (memory e)) (noVars, registry e) = Some (Returned err, vars, r)"
    and e': "registry e' = r" "memory e' = memory e"
      "health e' = map_option (\<lambda>s. RecordReconcile finish s err) (health e)"
    using assms(5) by (auto simp: tick_def split: option.splits outcome.splits)
  have rep: "\<forall>s. health e' = Some s \<longrightarrow> lastReconcileErr s = err"
    using e'(3) reported_err by metis
  from lock [OF assms(1) locked]
  have "inv r \<and> (err \<noteq> None \<and> zone r = zone (registry e) \<or>
      tick_done erases ords ord cfg (memory e) (zone (registry e)) (zone r) err)"
  proof (elim disjE exE conjE)
    fix r1 r2
    assume r1: "inv r1" "zone r1 = zone (registry e)"
      and pass: "reconcilePass ords ord cfg reg (memory e) (noVars, r1) = (Returned err, vars, r2)"
      and rel: "inv r2 \<and> Returned err \<noteq> Panicked \<longrightarrow> inv r \<and> zone r = zone r2"
    have "inv r2 \<and> (err \<noteq> None \<and> zone r2 = zone (registry e) \<or>
        tick_done erases ords ord cfg (memory e) (zone (registry e)) (zone r2) err)"
      using pass_effect [OF r1(1) assms(2,4,3) pass] r1(2) by (auto intro: pass_tick_done)
    with rel show ?thesis by simp
  qed simp
  with rep e' show ?thesis by blast
qed

text \<open>A whole run in dry-run mode leaves the records alone.\<close>

lemma tick_dry:
  assumes "inv (registry e)" and "orders_ok ords" and "DryRun cfg"
    and "tick ords ord cfg reg start finish e = Some e'"
  shows "inv (registry e') \<and> zone (registry e') = zone (registry e)"
proof -
  obtain err vars r where locked: "regLockTransaction reg [''__global__'']
      (reconcilePass ords ord cfg reg (memory e)) (noVars, registry e) = Some (Returned err, vars, r)"
    and e': "registry e' = r"
    using assms(4) by (auto simp: tick_def split: option.splits outcome.splits)
  from lock [OF assms(1) locked] show ?thesis
  proof (elim disjE exE conjE)
    fix r1 r2
    assume "inv r1" "zone r1 = zone (registry e)"
      and "reconcilePass ords ord cfg reg (memory e) (noVars, r1) = (Returned err, vars, r2)"
      and "inv r2 \<and> Returned err \<noteq> Panicked \<longrightarrow> inv r \<and> zone r = zone r2"
    with pass_dry [OF _ assms(2,3)] e' show ?thesis by blast
  qed (use e' in auto)
qed

lemma wakes_dry:
  assumes "inv (registry e)" and "DryRun cfg" and "\<forall>w \<in> set ws. wakeup_ok w"
    and "foldM (\<lambda>i e w. wake cfg reg w e) i e ws = Some e'"
  shows "inv (registry e') \<and> zone (registry e') = zone (registry e)"
  using assms
proof (induction ws arbitrary: e i)
  case (Cons w ws)
  obtain e1 where e1: "wake cfg reg w e = Some e1"
    and rest: "foldM (\<lambda>i e w. wake cfg reg w e) (Suc i) e1 ws = Some e'"
    using Cons.prems(4) by (auto split: option.splits)
  have "inv (registry e1) \<and> zone (registry e1) = zone (registry e)"
    using e1 Cons.prems(1-3) tick_dry
    by (cases w) (auto simp: wake_def wakeup_ok_def)
  with Cons.IH [OF _ _ _ rest] Cons.prems(2,3) show ?case by simp
qed simp

lemma run_dry:
  assumes "inv (registry e)" and "DryRun cfg" and "\<forall>w \<in> set ws. wakeup_ok w"
    and "Run cfg reg subscribed ctxErr ws e = Some (err, e')"
  shows "zone (registry e') = zone (registry e)"
  using assms wakes_dry [OF assms(1-3)] stop_keeps
  by (auto simp: Run_def startHeartbeat_def split: option.splits)

end

end
