(* ===== verification/Etcd_Registry.thy ===== *)
theory Etcd_Registry
  imports Etcd_Wire Engine "HOL-Library.List_Lexorder" "HOL-Library.Char_ord"
begin

text \<open>
  \<^verbatim>\<open>internal/registry/etcd_registry.go\<close>: records, heartbeats and locks in etcd.  The etcd client
  is third-party code, and the context and the clock belong to the run time: they are records of
  functions on a state \<open>'e\<close> of the outside world.  The registry's own fields are those of the
  source, with \<open>world\<close> for that state; \<open>zone\<close> is the local time zone.  Whether an operation runs
  under the caller's context or a background one is up to the client's answers.

  A lock whose context is never cancelled and whose clock stands still would be tried for ever: the
  acquire loop is a \<open>partial_function\<close>, and \<open>None\<close> means that it does not return.
\<close>

subsection \<open>The client, the context and the clock\<close>

type_synonym LeaseID = int

datatype get_option = WithPrefix | WithKeysOnly | WithSerializable

datatype etcd_cmp = CreateRevisionZero string

datatype etcd_op = OpPut string string LeaseID | OpDelete string

text \<open>
  The operations of the interface \<^verbatim>\<open>etcdClient\<close>; an error is its message.  \<open>store\<close> is not an
  operation but the view of the specification: the keys with their values and leases.
\<close>

record 'e etcdClient =
  etcdGet :: "string \<Rightarrow> get_option list \<Rightarrow> 'e \<Rightarrow> (string + (string \<times> string) list) \<times> 'e"
  etcdPut :: "string \<Rightarrow> string \<Rightarrow> LeaseID option \<Rightarrow> 'e \<Rightarrow> string option \<times> 'e"
  etcdDelete :: "string \<Rightarrow> 'e \<Rightarrow> string option \<times> 'e"
  etcdGrant :: "int \<Rightarrow> 'e \<Rightarrow> (string + LeaseID) \<times> 'e"
  etcdTxn :: "etcd_cmp list \<Rightarrow> etcd_op list \<Rightarrow> 'e \<Rightarrow> (string + bool) \<times> 'e"
  etcdRevoke :: "LeaseID \<Rightarrow> 'e \<Rightarrow> string option \<times> 'e"
  etcdKeepAlive :: "LeaseID \<Rightarrow> 'e \<Rightarrow> string option \<times> 'e"
  etcdClose :: "'e \<Rightarrow> string option \<times> 'e"
  store :: "'e \<Rightarrow> string \<rightharpoonup> string \<times> LeaseID option"

record 'e runtime =
  ctxErr :: "'e \<Rightarrow> string option \<times> 'e"
  timeNow :: "'e \<Rightarrow> Time \<times> 'e"
  timeSleep :: "int \<Rightarrow> 'e \<Rightarrow> 'e"

text \<open>The metrics sink is optional; \<open>hbCancel\<close> is whether a cancel function is set.\<close>

record 'e EtcdRegistry =
  client :: "'e etcdClient"
  env :: "'e runtime"
  etcdCfg :: EtcdConfig
  ownHostname :: string
  heartbeatTTL :: int
  regMetrics :: "metric_op list option"
  hbLease :: LeaseID
  hbCancel :: bool
  hbActive :: bool
  world :: 'e

definition NewEtcdRegistry ::
  "'e etcdClient \<Rightarrow> 'e runtime \<Rightarrow> EtcdConfig \<Rightarrow> string \<Rightarrow> int \<Rightarrow> 'e \<Rightarrow> 'e EtcdRegistry"
where
  "NewEtcdRegistry cl rt cfg host ttl w =
     \<lparr>client = cl, env = rt, etcdCfg = cfg, ownHostname = host, heartbeatTTL = ttl,
      regMetrics = None, hbLease = 0, hbCancel = False, hbActive = False, world = w\<rparr>"

definition SetMetrics :: "'e EtcdRegistry \<Rightarrow> 'e EtcdRegistry" where
  "SetMetrics er = er\<lparr>regMetrics := Some []\<rparr>"

definition call ::
  "('e etcdClient \<Rightarrow> 'e \<Rightarrow> 'a \<times> 'e) \<Rightarrow> 'e EtcdRegistry \<Rightarrow> 'a \<times> 'e EtcdRegistry"
where
  "call op er = (let (x, w) = op (client er) (world er) in (x, er\<lparr>world := w\<rparr>))"

definition incEtcdError :: "'e EtcdRegistry \<Rightarrow> 'e EtcdRegistry" where
  "incEtcdError er = er\<lparr>regMetrics := map_option (\<lambda>ops. ops @ IncEtcdError) (regMetrics er)\<rparr>"

definition incLockFailure :: "'e EtcdRegistry \<Rightarrow> 'e EtcdRegistry" where
  "incLockFailure er = er\<lparr>regMetrics := map_option (\<lambda>ops. ops @ IncLockFailure) (regMetrics er)\<rparr>"

text \<open>
  \<^verbatim>\<open>%q\<close> of a string, for the messages: ASCII is quoted as Go does; other bytes are kept, as Go
  keeps printable characters.
\<close>

definition quoteChar :: "char \<Rightarrow> string" where
  "quoteChar c =
     (if c = quote \<or> c = backslash then [backslash, c]
      else if code c = 7 then [backslash, CHR ''a''] else if code c = 8 then [backslash, CHR ''b'']
      else if code c = 9 then [backslash, CHR ''t''] else if code c = 10 then [backslash, CHR ''n'']
      else if code c = 11 then [backslash, CHR ''v''] else if code c = 12 then [backslash, CHR ''f'']
      else if code c = 13 then [backslash, CHR ''r'']
      else if code c < 32 \<or> code c = 127 then
        [backslash, CHR ''x'', hex_digit (code c div 16), hex_digit (code c mod 16)]
      else [c])"

definition Quote :: "string \<Rightarrow> string" where
  "Quote s = quote # concat (map quoteChar s) @ [quote]"


subsection \<open>Heartbeats\<close>

definition heartbeatKey :: "string \<Rightarrow> string" where
  "heartbeatKey hostname = HeartbeatKeyPrefix @ ''/'' @ hostname"

definition bestEffortCleanup :: "LeaseID \<Rightarrow> string \<Rightarrow> 'e EtcdRegistry \<Rightarrow> 'e EtcdRegistry" where
  "bestEffortCleanup lease key er =
     (let (_, er1) = call (\<lambda>c. etcdDelete c key) er; (_, er2) = call (\<lambda>c. etcdRevoke c lease) er1
      in er2)"

definition grantAndKeepAlive ::
  "string \<Rightarrow> 'e EtcdRegistry \<Rightarrow> (string + LeaseID) \<times> 'e EtcdRegistry"
where
  "grantAndKeepAlive key er =
     (case call (\<lambda>c. etcdGrant c (heartbeatTTL er)) er of
        (Inl err, er1) \<Rightarrow> (Inl (''grant heartbeat lease: '' @ err), er1)
      | (Inr lease, er1) \<Rightarrow>
          (case call (\<lambda>c. etcdPut c key (ownHostname er) (Some lease)) er1 of
             (Some err, er2) \<Rightarrow>
               (Inl (''put heartbeat key '' @ Quote key @ '': '' @ err), bestEffortCleanup lease key er2)
           | (None, er2) \<Rightarrow>
               (case call (\<lambda>c. etcdKeepAlive c lease) er2 of
                  (Some err, er3) \<Rightarrow>
                    (Inl (''keepalive heartbeat lease: '' @ err), bestEffortCleanup lease key er3)
                | (None, er3) \<Rightarrow> (Inr lease, er3))))"

definition StartHeartbeat :: "'e EtcdRegistry \<Rightarrow> string option \<times> 'e EtcdRegistry" where
  "StartHeartbeat er =
     (case grantAndKeepAlive (heartbeatKey (ownHostname er)) er of
        (Inl err, er1) \<Rightarrow> (Some err, incEtcdError er1)
      | (Inr lease, er1) \<Rightarrow> (None, er1\<lparr>hbLease := lease, hbCancel := True, hbActive := True\<rparr>))"

text \<open>
  The goroutine that maintains the lease.  What the context does in one round of the retry loop:
  it is done before the attempt, or during the wait, or the wait ends.
\<close>

datatype retry = DoneBefore | DoneWaiting | Waited

definition initialBackoff :: int where "initialBackoff = 1000000000"
definition maxBackoff :: int where "maxBackoff = 30000000000"

definition retryBackoff :: "int \<Rightarrow> int" where
  "retryBackoff backoff =
     (if backoff < maxBackoff then (if backoff * 2 > maxBackoff then maxBackoff else backoff * 2)
      else backoff)"

text \<open>The waits, whether a lease was obtained (\<open>None\<close>: still retrying), and the registry.\<close>

fun reestablishHeartbeat ::
  "string \<Rightarrow> int \<Rightarrow> retry list \<Rightarrow> 'e EtcdRegistry \<Rightarrow> int list \<times> bool option \<times> 'e EtcdRegistry"
where
  "reestablishHeartbeat key backoff [] er = ([], None, er)"
| "reestablishHeartbeat key backoff (r # rs) er =
     (if r = DoneBefore then ([], Some False, er)
      else (case grantAndKeepAlive key er of
          (Inr lease, er1) \<Rightarrow> ([], Some True, er1\<lparr>hbLease := lease, hbActive := True\<rparr>)
        | (Inl err, er1) \<Rightarrow>
            if r = DoneWaiting then ([backoff], Some False, incEtcdError er1)
            else
              let (waits, res) = reestablishHeartbeat key (retryBackoff backoff) rs (incEtcdError er1)
              in (backoff # waits, res)))"

text \<open>
  Each time the keepalive channel closes: whether the context is done, and the rounds of the retry.
\<close>

fun maintainHeartbeat :: "string \<Rightarrow> (bool \<times> retry list) list \<Rightarrow> 'e EtcdRegistry \<Rightarrow> 'e EtcdRegistry" where
  "maintainHeartbeat key [] er = er"
| "maintainHeartbeat key ((ctxDone, rs) # closes) er =
     (if ctxDone then er
      else (case reestablishHeartbeat key initialBackoff rs (er\<lparr>hbActive := False\<rparr>) of
          (waits, Some True, er1) \<Rightarrow> maintainHeartbeat key closes er1
        | (waits, res, er1) \<Rightarrow> er1))"

definition stopHeartbeat :: "'e EtcdRegistry \<Rightarrow> 'e EtcdRegistry" where
  "stopHeartbeat er =
     (let cancel = hbCancel er; lease = hbLease er;
          er1 = er\<lparr>hbCancel := False, hbLease := 0, hbActive := False\<rparr>
      in if \<not> cancel then er1
         else
           let (_, er2) = call (\<lambda>c. etcdDelete c (heartbeatKey (ownHostname er))) er1;
               (_, er3) = call (\<lambda>c. etcdRevoke c lease) er2
           in er3)"

definition StopHeartbeat :: "'e EtcdRegistry \<Rightarrow> 'e EtcdRegistry" where
  "StopHeartbeat er = stopHeartbeat er"

definition Close :: "'e EtcdRegistry \<Rightarrow> string option \<times> 'e EtcdRegistry" where
  "Close er = call etcdClose (stopHeartbeat er)"

text \<open>The result \<open>None\<close> is the nil map: cross-host garbage collection is disabled.\<close>

definition GetLiveHostnames ::
  "'e EtcdRegistry \<Rightarrow> (string + string list option) \<times> 'e EtcdRegistry"
where
  "GetLiveHostnames er =
     (if \<not> hbActive er then (Inr None, er)
      else
        let base = HeartbeatKeyPrefix in
        case call (\<lambda>c. etcdGet c (base @ ''/'') [WithPrefix, WithKeysOnly]) er of
          (Inl err, er1) \<Rightarrow>
            (Inl (''list heartbeat keys under '' @ Quote base @ '': '' @ err), incEtcdError er1)
        | (Inr kvs, er1) \<Rightarrow>
            let hosts = filter (\<lambda>h. h \<noteq> []) (map (\<lambda>kv. TrimPrefix (fst kv) (base @ ''/'')) kvs)
            in (Inr (Some (hosts @ [ownHostname er])), er1))"


subsection \<open>Records\<close>

text \<open>The first index from \<open>idx\<close> on that is not taken.\<close>

function firstFree :: "int list \<Rightarrow> int \<Rightarrow> int" where
  "firstFree existing idx = (if idx \<in> set existing then firstFree existing (idx + 1) else idx)"
  by pat_completeness auto
termination
proof (relation "measure (\<lambda>(existing, idx). card {x \<in> set existing. idx \<le> x})")
  fix existing :: "int list" and idx
  assume "idx \<in> set existing"
  then have "idx \<in> {x \<in> set existing. idx \<le> x}" "idx \<notin> {x \<in> set existing. idx + 1 \<le> x}" by auto
  moreover have "{x \<in> set existing. idx + 1 \<le> x} \<subseteq> {x \<in> set existing. idx \<le> x}" by auto
  ultimately have "{x \<in> set existing. idx + 1 \<le> x} \<subset> {x \<in> set existing. idx \<le> x}" by blast
  then have "card {x \<in> set existing. idx + 1 \<le> x} < card {x \<in> set existing. idx \<le> x}"
    by (intro psubset_card_mono) auto
  then show "((existing, idx + 1), existing, idx) \<in>
      measure (\<lambda>(existing, idx). card {x \<in> set existing. idx \<le> x})" by simp
qed simp

declare firstFree.simps [simp del]

definition indexOf :: "string \<Rightarrow> string \<Rightarrow> int option" where
  "indexOf base keyStr =
     (if \<not> HasPrefix keyStr (base @ ''/'') then None
      else
        let suffix = drop (length base + 1) keyStr in
        if HasPrefix suffix ''x'' then Atoi (drop 1 suffix) else None)"

definition getNextIndexedKey :: "string \<Rightarrow> 'e EtcdRegistry \<Rightarrow> (string + string) \<times> 'e EtcdRegistry" where
  "getNextIndexedKey fqdn er =
     (let base = keyBaseForFQDN (PathPrefix (etcdCfg er)) fqdn in
      case call (\<lambda>c. etcdGet c base [WithPrefix, WithKeysOnly, WithSerializable]) er of
        (Inl err, er1) \<Rightarrow>
          (Inl (''list existing indices under '' @ Quote base @ '': '' @ err), incEtcdError er1)
      | (Inr kvs, er1) \<Rightarrow>
          let existing = List.map_filter (\<lambda>kv. indexOf base (fst kv)) kvs;
              idx = firstFree existing 1
          in (Inr (indexedKey base (nat idx)), er1))"

text \<open>The message of a failed \<open>Marshal\<close> stops before the library's own text.\<close>

definition Register ::
  "(Time \<Rightarrow> int) \<Rightarrow> RecordIntent \<Rightarrow> 'e EtcdRegistry \<Rightarrow> string option \<times> 'e EtcdRegistry"
where
  "Register zone ri er =
     (let fqdn = Name (Rec ri) in
      case getNextIndexedKey fqdn er of
        (Inl err, er1) \<Rightarrow> (Some (''compute next key for '' @ Quote fqdn @ '': '' @ err), er1)
      | (Inr key, er1) \<Rightarrow>
          (case marshalEtcdValue zone ri of
             None \<Rightarrow> (Some (''marshal etcd value for '' @ Quote fqdn), er1)
           | Some value \<Rightarrow>
               (case call (\<lambda>c. etcdPut c key value None) er1 of
                  (Some err, er2) \<Rightarrow>
                    (Some (''put key '' @ Quote key @ '': '' @ err), incEtcdError er2)
                | (None, er2) \<Rightarrow> (None, er2))))"

definition recordMatches :: "etcdRecord \<Rightarrow> RecordIntent \<Rightarrow> bool" where
  "recordMatches w ri \<longleftrightarrow>
     wireHost w = Value (Rec ri) \<and>
     wireKind w = Kind (Rec ri) \<and>
     OwnerHostname w = Hostname ri \<and>
     OwnerContainerName w = ContainerName ri \<and>
     (ContainerId ri = [] \<or> OwnerContainerId w = ContainerId ri)"

definition toDelete :: "string \<Rightarrow> RecordIntent \<Rightarrow> (string \<times> string) list \<Rightarrow> string list" where
  "toDelete base ri kvs =
     List.map_filter (\<lambda>(keyStr, value).
       if \<not> HasPrefix keyStr (base @ ''/'') then None
       else (case jsonUnmarshal value of
           None \<Rightarrow> None
         | Some wire \<Rightarrow> if recordMatches wire ri then Some keyStr else None)) kvs"

definition batchSize :: nat where "batchSize = 64"

text \<open>The batches from index \<open>i\<close> on; the result is the first error.\<close>

function deleteBatches ::
  "nat \<Rightarrow> string list \<Rightarrow> string option \<Rightarrow> 'e EtcdRegistry \<Rightarrow> string option \<times> 'e EtcdRegistry"
where
  "deleteBatches i keys firstErr er =
     (if keys = [] then (firstErr, er)
      else
        let batch = take batchSize keys;
            finish = i + length batch
        in case call (\<lambda>c. etcdTxn c [] (map OpDelete batch)) er of
             (Inl err, er1) \<Rightarrow>
               deleteBatches finish (drop batchSize keys)
                 (if firstErr = None then
                    Some (''batch delete ['' @ Itoa i @ '':'' @ Itoa finish @ '']: '' @ err)
                  else firstErr) (incEtcdError er1)
           | (Inr _, er1) \<Rightarrow> deleteBatches finish (drop batchSize keys) firstErr er1)"
  by pat_completeness auto
termination by (relation "measure (\<lambda>(i, keys, firstErr, er). length keys)") (auto simp: batchSize_def)

declare deleteBatches.simps [simp del]

definition Remove :: "RecordIntent \<Rightarrow> 'e EtcdRegistry \<Rightarrow> string option \<times> 'e EtcdRegistry" where
  "Remove ri er =
     (let base = keyBaseForFQDN (PathPrefix (etcdCfg er)) (Name (Rec ri)) in
      case call (\<lambda>c. etcdGet c base [WithPrefix]) er of
        (Inl err, er1) \<Rightarrow>
          (Some (''list keys under base '' @ Quote base @ '': '' @ err), incEtcdError er1)
      | (Inr kvs, er1) \<Rightarrow>
          let keys = toDelete base ri kvs in
          if keys = [] then (None, er1) else deleteBatches 0 keys None er1)"

definition List' :: "'e EtcdRegistry \<Rightarrow> (string + RecordIntent list) \<times> 'e EtcdRegistry" where
  "List' er =
     (let pathPrefix = PathPrefix (etcdCfg er) in
      case call (\<lambda>c. etcdGet c pathPrefix [WithPrefix, WithSerializable]) er of
        (Inl err, er1) \<Rightarrow>
          (Inl (''list under prefix '' @ Quote pathPrefix @ '': '' @ err), incEtcdError er1)
      | (Inr kvs, er1) \<Rightarrow>
          (Inr (List.map_filter (\<lambda>(key, value).
             case unmarshalEtcdValue key value pathPrefix of Inl err \<Rightarrow> None | Inr ri \<Rightarrow> Some ri) kvs),
           er1))"


subsection \<open>Locks\<close>

text \<open>The function that ends the keepalive of a lock is left to the client.\<close>

record heldLease =
  lockKey :: string
  lease :: LeaseID

text \<open>Conversion of a float to an integer truncates; the product of durations wraps at 64 bits.\<close>

definition trunc :: "rat \<Rightarrow> int" where
  "trunc x = (if x < 0 then - \<lfloor>- x\<rfloor> else \<lfloor>x\<rfloor>)"

definition runtimeCall :: "('e runtime \<Rightarrow> 'e \<Rightarrow> 'a \<times> 'e) \<Rightarrow> 'e EtcdRegistry \<Rightarrow> 'a \<times> 'e EtcdRegistry" where
  "runtimeCall op er = (let (x, w) = op (env er) (world er) in (x, er\<lparr>world := w\<rparr>))"

definition lockTimeout :: "'e EtcdRegistry \<Rightarrow> int" where
  "lockTimeout er = sint (word_of_int (trunc (LockTimeout (etcdCfg er)) * 1000000000) :: 64 word)"

definition lockSleep :: "'e EtcdRegistry \<Rightarrow> 'e EtcdRegistry" where
  "lockSleep er =
     er\<lparr>world := timeSleep (env er) (trunc (LockRetryInterval (etcdCfg er) * 1000000000)) (world er)\<rparr>"

definition lockPath :: "string \<Rightarrow> string" where
  "lockPath key = ''/locks/'' @ key"

lemma lockPath_inj [simp]: "lockPath k = lockPath k' \<longleftrightarrow> k = k'"
  by (simp add: lockPath_def)

text \<open>How the loop for one key ends: with an error, without the lock, or holding it.\<close>

datatype acquired = AcquireError string | TimedOut | Acquired

text \<open>What follows a transaction that succeeded.\<close>

definition keepLock :: "string \<Rightarrow> LeaseID \<Rightarrow> 'e EtcdRegistry \<Rightarrow> acquired \<times> 'e EtcdRegistry" where
  "keepLock lk ls er =
     (case call (\<lambda>c. etcdKeepAlive c ls) er of
        (Some err, er1) \<Rightarrow>
          let (_, er2) = call (\<lambda>c. etcdDelete c lk) (incEtcdError er1);
              (_, er3) = call (\<lambda>c. etcdRevoke c ls) er2
          in (AcquireError (''keepalive for lock '' @ Quote lk @ '': '' @ err), er3)
      | (None, er1) \<Rightarrow> (Acquired, er1))"

text \<open>One round of the loop: \<open>None\<close> when it goes on.\<close>

definition tryLock ::
  "string \<Rightarrow> LeaseID \<Rightarrow> Time \<Rightarrow> 'e EtcdRegistry \<Rightarrow> acquired option \<times> 'e EtcdRegistry"
where
  "tryLock lk ls start er =
     (let (now, er1) = runtimeCall timeNow er in
      if \<not> TimeSub now start < lockTimeout er then (Some TimedOut, er1)
      else (case runtimeCall ctxErr er1 of
          (Some err, er2) \<Rightarrow> (Some (AcquireError err), er2)
        | (None, er2) \<Rightarrow>
            (case call (\<lambda>c. etcdTxn c [CreateRevisionZero lk] [OpPut lk (ownHostname er) ls]) er2 of
               (Inl err, er3) \<Rightarrow>
                 (Some (AcquireError (''acquire lock '' @ Quote lk @ '': '' @ err)), incEtcdError er3)
             | (Inr succeeded, er3) \<Rightarrow>
                 if succeeded then map_prod Some id (keepLock lk ls er3) else (None, lockSleep er3))))"

partial_function (option) acquireLoop ::
  "string \<Rightarrow> LeaseID \<Rightarrow> Time \<Rightarrow> 'e EtcdRegistry \<Rightarrow> (acquired \<times> 'e EtcdRegistry) option"
where
  "acquireLoop lk ls start er =
     (case tryLock lk ls start er of
        (Some res, er1) \<Rightarrow> Some (res, er1)
      | (None, er1) \<Rightarrow> acquireLoop lk ls start er1)"

declare acquireLoop.simps [code]

text \<open>The locks of all keys: an error, or the held leases.  Earlier leases stay on an error.\<close>

fun acquireAll ::
  "string list \<Rightarrow> heldLease list \<Rightarrow> 'e EtcdRegistry \<Rightarrow>
   ((string + heldLease list) \<times> 'e EtcdRegistry) option"
where
  "acquireAll [] leases er = Some (Inr leases, er)"
| "acquireAll (key # keys) leases er =
     (let lk = lockPath key in
      case call (\<lambda>c. etcdGrant c (trunc (LockTTL (etcdCfg er)))) er of
        (Inl err, er1) \<Rightarrow> Some (Inl (''failed to create lease: '' @ err), incEtcdError er1)
      | (Inr ls, er1) \<Rightarrow>
          (let (start, er2) = runtimeCall timeNow er1 in
           case acquireLoop lk ls start er2 of
             None \<Rightarrow> None
           | Some (AcquireError err, er3) \<Rightarrow> Some (Inl err, er3)
           | Some (TimedOut, er3) \<Rightarrow>
               let (_, er4) = call (\<lambda>c. etcdRevoke c ls) (incLockFailure er3)
               in Some (Inl (''failed to acquire lock on '' @ key), er4)
           | Some (Acquired, er3) \<Rightarrow>
               acquireAll keys (leases @ [\<lparr>lockKey = lk, lease = ls\<rparr>]) er3))"

definition releaseLock :: "heldLease \<Rightarrow> 'e EtcdRegistry \<Rightarrow> 'e EtcdRegistry" where
  "releaseLock l er =
     (let (_, er1) = call (\<lambda>c. etcdDelete c (lockKey l)) er;
          (_, er2) = call (\<lambda>c. etcdRevoke c (lease l)) er1
      in er2)"

text \<open>\<open>fn\<close> works on variables of the caller and the registry; a panic passes without a release.\<close>

definition LockTransaction ::
  "string list \<Rightarrow> ('v \<times> 'e EtcdRegistry \<Rightarrow> outcome \<times> 'v \<times> 'e EtcdRegistry) \<Rightarrow>
   'v \<times> 'e EtcdRegistry \<Rightarrow> (outcome \<times> 'v \<times> 'e EtcdRegistry) option"
where
  "LockTransaction keys fn st =
     (let (vars, er) = st;
          uniqueKeys = sort (remdups keys)
      in case acquireAll uniqueKeys [] er of
        None \<Rightarrow> None
      | Some (Inl err, er1) \<Rightarrow> Some (Returned (Some err), vars, er1)
      | Some (Inr leases, er1) \<Rightarrow>
          (case fn (vars, er1) of
             (Panicked, vars2, er2) \<Rightarrow> Some (Panicked, vars2, er2)
           | (Returned err, vars2, er2) \<Rightarrow>
               Some (Returned err, vars2, fold releaseLock (rev leases) er2)))"

text \<open>The registry as the engine sees it.\<close>

definition etcdUpstream :: "(Time \<Rightarrow> int) \<Rightarrow> 'e EtcdRegistry upstreamRegistry" where
  "etcdUpstream zone =
     \<lparr>regStartHeartbeat = StartHeartbeat,
      regGetLiveHostnames = GetLiveHostnames,
      regLockTransaction = LockTransaction,
      regList = List',
      regRegister = Register zone,
      regRemove = Remove,
      regStopHeartbeat = StopHeartbeat\<rparr>"

end
