(* ===== verification/Etcd_Store.thy ===== *)
theory Etcd_Store
  imports Etcd_Registry
begin

text \<open>
  What the registry does to the key-value store.  \<open>etcd_ok\<close> states the documented behaviour of the
  client towards a daemon that is alone with the store while an operation runs (the daemons share
  the lock of a pass) and whose reads are up to date: what a prefix read returns, and what each
  write does when it succeeds; a write that reports an error may or may not have happened.

  The registry's part of the store is seen as a set of records, its \<open>zone\<close>; the operations refine
  set operations on it, and \<open>etcd\<close> interprets the engine's interface.
\<close>

subsection \<open>The documented behaviour of the client\<close>

type_synonym kv_store = "string \<rightharpoonup> string \<times> LeaseID option"

fun apply_op :: "etcd_op \<Rightarrow> kv_store \<Rightarrow> kv_store" where
  "apply_op (OpPut k v ls) s = s(k \<mapsto> (v, Some ls))"
| "apply_op (OpDelete k) s = s(k := None)"

definition cmp_holds :: "kv_store \<Rightarrow> etcd_cmp \<Rightarrow> bool" where
  "cmp_holds s c = (case c of CreateRevisionZero k \<Rightarrow> s k = None)"

text \<open>A prefix read returns the keys under the prefix once each; a Go slice has a bounded length.\<close>

definition reads_ok :: "'e etcdClient \<Rightarrow> bool" where
  "reads_ok cl \<longleftrightarrow> (\<forall>k opts w. WithPrefix \<in> set opts \<longrightarrow>
     store cl (snd (etcdGet cl k opts w)) = store cl w \<and>
     (\<forall>kvs. fst (etcdGet cl k opts w) = Inr kvs \<longrightarrow>
        length kvs < 2 ^ 62 \<and> distinct (map fst kvs) \<and>
        fst ` set kvs = {key. store cl w key \<noteq> None \<and> HasPrefix key k} \<and>
        (WithKeysOnly \<notin> set opts \<longrightarrow>
           (\<forall>(key, v) \<in> set kvs. map_option fst (store cl w key) = Some v))))"

definition write_result :: "string option \<Rightarrow> kv_store \<Rightarrow> kv_store \<Rightarrow> kv_store \<Rightarrow> bool" where
  "write_result err before intended after \<longleftrightarrow>
     after = intended \<or> (err \<noteq> None \<and> after = before)"

definition writes_ok :: "'e etcdClient \<Rightarrow> bool" where
  "writes_ok cl \<longleftrightarrow>
     (\<forall>k v ls w. write_result (fst (etcdPut cl k v ls w)) (store cl w) ((store cl w)(k \<mapsto> (v, ls)))
        (store cl (snd (etcdPut cl k v ls w)))) \<and>
     (\<forall>k w. write_result (fst (etcdDelete cl k w)) (store cl w) ((store cl w)(k := None))
        (store cl (snd (etcdDelete cl k w))))"

definition leases_ok :: "'e etcdClient \<Rightarrow> bool" where
  "leases_ok cl \<longleftrightarrow>
     (\<forall>ttl w. store cl (snd (etcdGrant cl ttl w)) = store cl w) \<and>
     (\<forall>ls w. store cl (snd (etcdKeepAlive cl ls w)) = store cl w) \<and>
     (\<forall>ls w. write_result (fst (etcdRevoke cl ls w)) (store cl w)
        (\<lambda>k. case store cl w k of Some (v, l) \<Rightarrow> if l = Some ls then None else Some (v, l) | None \<Rightarrow> None)
        (store cl (snd (etcdRevoke cl ls w))))"

definition txns_ok :: "'e etcdClient \<Rightarrow> bool" where
  "txns_ok cl \<longleftrightarrow> (\<forall>cmps ops w.
     let holds = list_all (cmp_holds (store cl w)) cmps;
         applied = fold apply_op ops (store cl w);
         after = store cl (snd (etcdTxn cl cmps ops w))
     in case fst (etcdTxn cl cmps ops w) of
          Inr succeeded \<Rightarrow> succeeded = holds \<and> after = (if holds then applied else store cl w)
        | Inl err \<Rightarrow> after = store cl w \<or> holds \<and> after = applied)"

definition runtime_ok :: "'e etcdClient \<Rightarrow> 'e runtime \<Rightarrow> bool" where
  "runtime_ok cl rt \<longleftrightarrow> (\<forall>w.
     store cl (snd (ctxErr rt w)) = store cl w \<and> store cl (snd (timeNow rt w)) = store cl w \<and>
     (\<forall>d. store cl (timeSleep rt d w) = store cl w))"

definition etcd_ok :: "'e etcdClient \<Rightarrow> 'e runtime \<Rightarrow> bool" where
  "etcd_ok cl rt \<longleftrightarrow>
     reads_ok cl \<and> writes_ok cl \<and> leases_ok cl \<and> txns_ok cl \<and> runtime_ok cl rt"


subsection \<open>The records in the store\<close>

definition disjoint_prefixes :: "string \<Rightarrow> string \<Rightarrow> bool" where
  "disjoint_prefixes p q \<longleftrightarrow> \<not> HasPrefix p q \<and> \<not> HasPrefix q p"

lemma disjoint_prefixesD: "disjoint_prefixes p q \<Longrightarrow> HasPrefix k q \<Longrightarrow> \<not> HasPrefix k p"
  unfolding disjoint_prefixes_def HasPrefix_iff
  by (metis append_eq_append_conv2)

text \<open>
  The prefix has at most one slash at its end, and covers neither locks nor heartbeats.
\<close>

definition prefix_ok :: "string \<Rightarrow> bool" where
  "prefix_ok pp \<longleftrightarrow> HasPrefix (TrimRight pp (CHR ''/'') @ ''/'') pp \<and>
     disjoint_prefixes pp ''/locks/'' \<and> disjoint_prefixes pp (HeartbeatKeyPrefix @ ''/'')"

abbreviation pathPrefix :: "'e EtcdRegistry \<Rightarrow> string" where
  "pathPrefix er \<equiv> PathPrefix (etcdCfg er)"

definition contents :: "'e EtcdRegistry \<Rightarrow> kv_store" where
  "contents er = store (client er) (world er)"

text \<open>The record stored under a key, if it is one.\<close>

definition recordAt :: "string \<Rightarrow> kv_store \<Rightarrow> string \<Rightarrow> RecordIntent option" where
  "recordAt pp s k =
     (if HasPrefix k pp then
        (case s k of
           None \<Rightarrow> None
         | Some (v, ls) \<Rightarrow> (case unmarshalEtcdValue k v pp of Inl err \<Rightarrow> None | Inr ri \<Rightarrow> Some ri))
      else None)"

definition records_in :: "string \<Rightarrow> kv_store \<Rightarrow> RecordIntent set" where
  "records_in pp s = {ri. \<exists>k. recordAt pp s k = Some ri}"

text \<open>Keys below the prefix have no lease, and a record is stored under an indexed key of its name.\<close>

definition placed :: "string \<Rightarrow> kv_store \<Rightarrow> bool" where
  "placed pp s \<longleftrightarrow>
     (\<forall>k v ls. HasPrefix k pp \<and> s k = Some (v, ls) \<longrightarrow> ls = None) \<and>
     (\<forall>k ri. recordAt pp s k = Some ri \<longrightarrow>
        (\<exists>i. k = indexedKey (keyBaseForFQDN pp (Name (Rec ri))) i))"

definition etcd_inv :: "'e EtcdRegistry \<Rightarrow> bool" where
  "etcd_inv er \<longleftrightarrow> etcd_ok (client er) (env er) \<and> prefix_ok (pathPrefix er) \<and>
     placed (pathPrefix er) (contents er)"

definition etcd_zone :: "'e EtcdRegistry \<Rightarrow> RecordIntent set" where
  "etcd_zone er = records_in (pathPrefix er) (contents er)"

lemma recordAt_record_ok: "recordAt pp s k = Some ri \<Longrightarrow> record_ok (Rec ri)"
  by (auto simp: recordAt_def unmarshalEtcdValue_def Let_def NewFromKind_iff
      split: if_splits option.splits sum.splits)


subsection \<open>Operations that leave the records alone\<close>

text \<open>What the records depend on stays the same.\<close>

definition same_view :: "'e EtcdRegistry \<Rightarrow> 'e EtcdRegistry \<Rightarrow> bool" where
  "same_view er er' \<longleftrightarrow> client er' = client er \<and> env er' = env er \<and> etcdCfg er' = etcdCfg er \<and>
     (\<forall>k. HasPrefix k (pathPrefix er) \<longrightarrow> contents er' k = contents er k)"

lemma same_view_refl [simp]: "same_view er er"
  by (simp add: same_view_def)

lemma same_view_trans: "same_view er er1 \<Longrightarrow> same_view er1 er2 \<Longrightarrow> same_view er er2"
  by (simp add: same_view_def)

lemma recordAt_cong: "(HasPrefix k pp \<Longrightarrow> s' k = s k) \<Longrightarrow> recordAt pp s' k = recordAt pp s k"
  by (simp add: recordAt_def)

lemma same_view_keeps:
  assumes "same_view er er'"
  shows "etcd_inv er' = etcd_inv er" and "etcd_zone er' = etcd_zone er"
proof -
  have at: "recordAt (pathPrefix er) (contents er') k = recordAt (pathPrefix er) (contents er) k" for k
    by (rule recordAt_cong) (use assms in \<open>simp add: same_view_def\<close>)
  have "placed (pathPrefix er) (contents er') = placed (pathPrefix er) (contents er)"
    using assms unfolding placed_def at by (auto simp: same_view_def)
  with assms at show "etcd_inv er' = etcd_inv er" and "etcd_zone er' = etcd_zone er"
    by (simp_all add: same_view_def etcd_inv_def etcd_zone_def records_in_def)
qed

text \<open>The fields that the specification does not look at.\<close>

lemma same_view_fields [simp]:
  "same_view er (er\<lparr>regMetrics := m\<rparr>)" "same_view er (er\<lparr>hbActive := a\<rparr>)"
  "same_view er (er\<lparr>hbLease := ls\<rparr>)" "same_view er (er\<lparr>hbCancel := c\<rparr>)"
  "same_view er (incEtcdError er)" "same_view er (incLockFailure er)"
  by (simp_all add: same_view_def contents_def incEtcdError_def incLockFailure_def)

definition keeps :: "('e EtcdRegistry \<Rightarrow> 'a \<times> 'e EtcdRegistry) \<Rightarrow> bool" where
  "keeps f \<longleftrightarrow> (\<forall>er. etcd_inv er \<longrightarrow> same_view er (snd (f er)))"

lemma keepsD: "keeps f \<Longrightarrow> etcd_inv er \<Longrightarrow> f er = (x, er') \<Longrightarrow> same_view er er' \<and> etcd_inv er'"
  unfolding keeps_def using same_view_keeps(1) by fastforce

lemma call_keeps:
  assumes "\<And>er x w. etcd_inv er \<Longrightarrow> op (client er) (world er) = (x, w) \<Longrightarrow>
    (\<And>k. HasPrefix k (pathPrefix er) \<Longrightarrow> store (client er) w k = contents er k)"
  shows "keeps (call op)"
  unfolding keeps_def
proof (intro allI impI)
  fix er :: "'a EtcdRegistry"
  assume "etcd_inv er"
  moreover obtain x w where "op (client er) (world er) = (x, w)" by force
  ultimately show "same_view er (snd (call op er))"
    using assms by (simp add: call_def same_view_def contents_def)
qed

lemma lock_key_outside: "etcd_inv er \<Longrightarrow> HasPrefix k (pathPrefix er) \<Longrightarrow> k \<noteq> lockPath key"
  using disjoint_prefixesD [of "pathPrefix er" "''/locks/''" k] HasPrefix_append [of "''/locks/''" key]
  by (auto simp: etcd_inv_def prefix_ok_def lockPath_def simp del: append.simps)

lemma heartbeat_key_outside: "etcd_inv er \<Longrightarrow> HasPrefix k (pathPrefix er) \<Longrightarrow> k \<noteq> heartbeatKey h"
  using disjoint_prefixesD [of "pathPrefix er" "HeartbeatKeyPrefix @ ''/''" k]
    HasPrefix_append [of "HeartbeatKeyPrefix @ ''/''" h]
  by (auto simp: etcd_inv_def prefix_ok_def heartbeatKey_def)

lemma get_keeps: "WithPrefix \<in> set opts \<Longrightarrow> keeps (call (\<lambda>c. etcdGet c k opts))"
  by (rule call_keeps) (metis contents_def etcd_inv_def etcd_ok_def reads_ok_def snd_conv)

lemma grant_keeps: "keeps (call (\<lambda>c. etcdGrant c ttl))"
  by (rule call_keeps) (metis contents_def etcd_inv_def etcd_ok_def leases_ok_def snd_conv)

lemma keepalive_keeps: "keeps (call (\<lambda>c. etcdKeepAlive c ls))"
  by (rule call_keeps) (metis contents_def etcd_inv_def etcd_ok_def leases_ok_def snd_conv)

lemma put_result:
  assumes "etcd_inv er" and "etcdPut (client er) k v ls (world er) = (err, w)"
  shows "write_result err (contents er) ((contents er)(k \<mapsto> (v, ls))) (store (client er) w)"
  using assms unfolding etcd_inv_def etcd_ok_def writes_ok_def contents_def by (metis fst_conv snd_conv)

lemma delete_result:
  assumes "etcd_inv er" and "etcdDelete (client er) k (world er) = (err, w)"
  shows "write_result err (contents er) ((contents er)(k := None)) (store (client er) w)"
  using assms unfolding etcd_inv_def etcd_ok_def writes_ok_def contents_def by (metis fst_conv snd_conv)

lemma revoke_result:
  assumes "etcd_inv er" and "etcdRevoke (client er) ls (world er) = (err, w)"
  shows "write_result err (contents er)
    (\<lambda>k. case contents er k of Some (v, l) \<Rightarrow> if l = Some ls then None else Some (v, l) | None \<Rightarrow> None)
    (store (client er) w)"
proof -
  let ?run = "etcdRevoke (client er) ls (world er)"
  have "write_result (fst ?run) (contents er)
      (\<lambda>k. case contents er k of Some (v, l) \<Rightarrow> if l = Some ls then None else Some (v, l) | None \<Rightarrow> None)
      (store (client er) (snd ?run))"
    using assms(1) unfolding etcd_inv_def etcd_ok_def leases_ok_def contents_def by blast
  with assms(2) show ?thesis by simp
qed

lemma heartbeat_put_keeps: "keeps (call (\<lambda>c. etcdPut c (heartbeatKey h) v ls))"
proof (rule call_keeps)
  fix er :: "'a EtcdRegistry" and x w k
  assume "etcd_inv er" and "etcdPut (client er) (heartbeatKey h) v ls (world er) = (x, w)"
    and "HasPrefix k (pathPrefix er)"
  with put_result heartbeat_key_outside [of er k h] show "store (client er) w k = contents er k"
    unfolding write_result_def by (metis fun_upd_other)
qed

lemma heartbeat_delete_keeps: "keeps (call (\<lambda>c. etcdDelete c (heartbeatKey h)))"
proof (rule call_keeps)
  fix er :: "'a EtcdRegistry" and x w k
  assume "etcd_inv er" and "etcdDelete (client er) (heartbeatKey h) (world er) = (x, w)"
    and "HasPrefix k (pathPrefix er)"
  with delete_result heartbeat_key_outside [of er k h] show "store (client er) w k = contents er k"
    unfolding write_result_def by (metis fun_upd_other)
qed

lemma lock_delete_keeps: "keeps (call (\<lambda>c. etcdDelete c (lockPath key)))"
proof (rule call_keeps)
  fix er :: "'a EtcdRegistry" and x w k
  assume "etcd_inv er" and "etcdDelete (client er) (lockPath key) (world er) = (x, w)"
    and "HasPrefix k (pathPrefix er)"
  with delete_result lock_key_outside [of er k key] show "store (client er) w k = contents er k"
    unfolding write_result_def by (metis fun_upd_other)
qed

text \<open>Records have no lease, so a revoked lease takes none with it.\<close>

lemma revoke_keeps: "keeps (call (\<lambda>c. etcdRevoke c ls))"
proof (rule call_keeps)
  fix er :: "'a EtcdRegistry" and x w k
  assume inv: "etcd_inv er" and "etcdRevoke (client er) ls (world er) = (x, w)"
    and k: "HasPrefix k (pathPrefix er)"
  note res = revoke_result [OF inv this(2)]
  have "l = None" if "contents er k = Some (v, l)" for v l
    using inv k that by (auto simp: etcd_inv_def placed_def)
  with res show "store (client er) w k = contents er k"
    by (auto simp: write_result_def split: option.split)
qed

lemma txn_result:
  assumes "etcd_inv er" and "etcdTxn (client er) cmps ops (world er) = (res, w)"
  shows "res = Inr b \<Longrightarrow> b = list_all (cmp_holds (contents er)) cmps \<and>
      store (client er) w = (if b then fold apply_op ops (contents er) else contents er)"
    and "res = Inl err \<Longrightarrow> store (client er) w = contents er \<or>
      store (client er) w = fold apply_op ops (contents er)"
proof -
  have "txns_ok (client er)" using assms(1) by (simp add: etcd_inv_def etcd_ok_def)
  then show "res = Inr b \<Longrightarrow> b = list_all (cmp_holds (contents er)) cmps \<and>
      store (client er) w = (if b then fold apply_op ops (contents er) else contents er)"
    and "res = Inl err \<Longrightarrow> store (client er) w = contents er \<or>
      store (client er) w = fold apply_op ops (contents er)"
    using assms(2) unfolding txns_ok_def contents_def
    by (auto simp: Let_def dest!: spec [of _ cmps] spec [of _ ops] spec [of _ "world er"])
qed

lemma lock_txn_keeps:
  "keeps (call (\<lambda>c. etcdTxn c cmps [OpPut (lockPath key) v ls]))"
proof (rule call_keeps)
  fix er :: "'a EtcdRegistry" and x w k
  assume inv: "etcd_inv er" and run: "etcdTxn (client er) cmps [OpPut (lockPath key) v ls] (world er) = (x, w)"
    and k: "HasPrefix k (pathPrefix er)"
  note res = txn_result [OF inv run]
  have "k \<noteq> lockPath key" by (rule lock_key_outside [OF inv k])
  then show "store (client er) w k = contents er k"
    using res by (cases x) (auto split: if_splits)
qed

lemma runtime_keeps:
  "keeps (runtimeCall ctxErr)" "keeps (runtimeCall timeNow)" "keeps (\<lambda>er. ((), lockSleep er))"
  by (auto simp: keeps_def runtimeCall_def lockSleep_def same_view_def contents_def etcd_inv_def
      etcd_ok_def runtime_ok_def split_beta)


subsection \<open>Heartbeats and locks\<close>

lemmas outside_keeps = get_keeps grant_keeps keepalive_keeps heartbeat_put_keeps
  heartbeat_delete_keeps lock_delete_keeps revoke_keeps lock_txn_keeps runtime_keeps

text \<open>A state that is reached without touching the records.\<close>

definition untouched :: "'e EtcdRegistry \<Rightarrow> 'e EtcdRegistry \<Rightarrow> bool" where
  "untouched er0 er \<longleftrightarrow> etcd_inv er \<and> same_view er0 er"

lemma untouched_refl: "etcd_inv er \<Longrightarrow> untouched er er"
  by (simp add: untouched_def)

lemma untouched_step:
  assumes "untouched er0 er" and "f er = (x, er')" and "keeps f"
  shows "untouched er0 er'"
  using keepsD [OF assms(3) _ assms(2)] assms(1) same_view_trans by (auto simp: untouched_def)

lemma untouched_view:
  assumes "untouched er0 er" and "same_view er er'"
  shows "untouched er0 er'"
  using assms same_view_keeps(1) [OF assms(2)] same_view_trans by (auto simp: untouched_def)

lemma untouched_keeps: "(\<And>er. etcd_inv er \<Longrightarrow> untouched er (snd (f er))) \<Longrightarrow> keeps f"
  by (simp add: keeps_def untouched_def)

lemma untouched_cleanup:
  assumes "untouched er0 er"
  shows "untouched er0 (bestEffortCleanup ls (heartbeatKey h) er)"
proof -
  obtain x er1 where 1: "call (\<lambda>c. etcdDelete c (heartbeatKey h)) er = (x, er1)" by force
  obtain y er2 where 2: "call (\<lambda>c. etcdRevoke c ls) er1 = (y, er2)" by force
  have "untouched er0 er1" by (rule untouched_step [OF assms 1 heartbeat_delete_keeps])
  then have "untouched er0 er2" by (rule untouched_step [OF _ 2 revoke_keeps])
  then show ?thesis by (simp add: bestEffortCleanup_def 1 2)
qed

lemma untouched_grantAndKeepAlive:
  assumes "untouched er0 er"
  shows "untouched er0 (snd (grantAndKeepAlive (heartbeatKey h) er))"
proof -
  obtain granted er1 where 1: "call (\<lambda>c. etcdGrant c (heartbeatTTL er)) er = (granted, er1)" by force
  have u1: "untouched er0 er1" by (rule untouched_step [OF assms 1 grant_keeps])
  show ?thesis
  proof (cases granted)
    case (Inr ls)
    obtain put er2 where 2: "call (\<lambda>c. etcdPut c (heartbeatKey h) (ownHostname er) (Some ls)) er1 = (put, er2)"
      by force
    have u2: "untouched er0 er2" by (rule untouched_step [OF u1 2 heartbeat_put_keeps])
    obtain ka er3 where 3: "call (\<lambda>c. etcdKeepAlive c ls) er2 = (ka, er3)" by force
    have u3: "untouched er0 er3" by (rule untouched_step [OF u2 3 keepalive_keeps])
    show ?thesis
      using u2 u3 untouched_cleanup
      by (cases put; cases ka) (simp_all add: grantAndKeepAlive_def 1 Inr 2 3)
  qed (simp add: grantAndKeepAlive_def 1 u1)
qed

lemma StartHeartbeat_keeps: "keeps StartHeartbeat"
proof (rule untouched_keeps)
  fix er :: "'a EtcdRegistry"
  assume "etcd_inv er"
  then have u: "untouched er (snd (grantAndKeepAlive (heartbeatKey (ownHostname er)) er))"
    by (intro untouched_grantAndKeepAlive untouched_refl)
  obtain res er1 where g: "grantAndKeepAlive (heartbeatKey (ownHostname er)) er = (res, er1)" by force
  have "same_view er1 (incEtcdError er1)" by simp
  moreover have "same_view er1 (er1\<lparr>hbLease := ls, hbCancel := True, hbActive := True\<rparr>)" for ls
    by (simp add: same_view_def contents_def)
  moreover note u g
  ultimately show "untouched er (snd (StartHeartbeat er))"
    by (cases res) (auto simp: StartHeartbeat_def intro: untouched_view)
qed

lemma StopHeartbeat_keeps:
  assumes "etcd_inv er"
  shows "untouched er (StopHeartbeat er)"
proof -
  let ?er1 = "er\<lparr>hbCancel := False, hbLease := 0, hbActive := False\<rparr>"
  have "same_view er ?er1" by (simp add: same_view_def contents_def)
  with assms have u1: "untouched er ?er1" using untouched_view untouched_refl by blast
  obtain x er2 where 2: "call (\<lambda>c. etcdDelete c (heartbeatKey (ownHostname er))) ?er1 = (x, er2)" by force
  obtain y er3 where 3: "call (\<lambda>c. etcdRevoke c (hbLease er)) er2 = (y, er3)" by force
  have "untouched er er2" by (rule untouched_step [OF u1 2 heartbeat_delete_keeps])
  then have "untouched er er3" by (rule untouched_step [OF _ 3 revoke_keeps])
  with u1 show ?thesis
    by (simp add: StopHeartbeat_def stopHeartbeat_def Let_def 2 3)
qed

lemma GetLiveHostnames_keeps: "keeps GetLiveHostnames"
proof (rule untouched_keeps)
  fix er :: "'a EtcdRegistry"
  assume inv: "etcd_inv er"
  obtain res er1 where g: "call (\<lambda>c. etcdGet c (HeartbeatKeyPrefix @ ''/'') [WithPrefix, WithKeysOnly]) er =
      (res, er1)" by force
  have u: "untouched er er1"
    using untouched_step [where f = "call (\<lambda>c. etcdGet c (HeartbeatKeyPrefix @ ''/'')
        [WithPrefix, WithKeysOnly])"] untouched_refl [OF inv] g by (simp add: get_keeps)
  with inv show "untouched er (snd (GetLiveHostnames er))"
    by (cases res) (auto simp: GetLiveHostnames_def Let_def g intro: untouched_view untouched_refl)
qed

lemma keepLock_keeps:
  assumes "untouched er0 er"
  shows "untouched er0 (snd (keepLock (lockPath key) ls er))"
proof -
  obtain ka er1 where 1: "call (\<lambda>c. etcdKeepAlive c ls) er = (ka, er1)" by force
  have u1: "untouched er0 er1" by (rule untouched_step [OF assms 1 keepalive_keeps])
  then have u1': "untouched er0 (incEtcdError er1)" by (rule untouched_view) simp
  obtain x er2 where 2: "call (\<lambda>c. etcdDelete c (lockPath key)) (incEtcdError er1) = (x, er2)"
    by force
  obtain y er3 where 3: "call (\<lambda>c. etcdRevoke c ls) er2 = (y, er3)" by force
  have "untouched er0 er2" by (rule untouched_step [OF u1' 2 lock_delete_keeps])
  then have "untouched er0 er3" by (rule untouched_step [OF _ 3 revoke_keeps])
  with u1 1 2 3 show ?thesis
    unfolding keepLock_def by (cases ka) simp_all
qed

lemma tryLock_keeps:
  assumes "untouched er0 er"
  shows "untouched er0 (snd (tryLock (lockPath key) ls start er))"
proof -
  let ?lk = "lockPath key"
  obtain now er1 where 1: "runtimeCall timeNow er = (now, er1)" by force
  have u1: "untouched er0 er1" by (rule untouched_step [OF assms 1 runtime_keeps(2)])
  obtain ctx er2 where 2: "runtimeCall ctxErr er1 = (ctx, er2)" by force
  have u2: "untouched er0 er2" by (rule untouched_step [OF u1 2 runtime_keeps(1)])
  obtain res er3 where 3: "call (\<lambda>c. etcdTxn c [CreateRevisionZero ?lk]
      [OpPut ?lk (ownHostname er) ls]) er2 = (res, er3)" by force
  have u3: "untouched er0 er3" by (rule untouched_step [OF u2 3 lock_txn_keeps])
  have sleep: "untouched er0 (lockSleep er3)"
    by (rule untouched_step [OF u3 refl runtime_keeps(3)])
  have keep: "untouched er0 (snd (keepLock ?lk ls er3))" by (rule keepLock_keeps [OF u3])
  have err: "untouched er0 (incEtcdError er3)" using u3 by (rule untouched_view) simp
  show ?thesis
    unfolding tryLock_def 1 Let_def prod.case 2
    using u1 u2 sleep keep err
    by (cases ctx; cases res) (simp_all add: 3)
qed

lemma acquireLoop_keeps:
  assumes "acquireLoop (lockPath key) ls start er = Some (res, er')" and "untouched er0 er"
  shows "untouched er0 er'"
proof -
  let ?P = "\<lambda>lk ls start er y. lk = lockPath key \<longrightarrow> untouched er0 er \<longrightarrow> untouched er0 (snd y)"
  have "?P (lockPath key) ls start er (res, er')"
  proof (rule acquireLoop.raw_induct [where P = ?P, OF _ assms(1)], intro impI)
    fix loop :: "string \<Rightarrow> LeaseID \<Rightarrow> Time \<Rightarrow> 'a EtcdRegistry \<Rightarrow> (acquired \<times> 'a EtcdRegistry) option"
      and lk ls start er y
    assume IH: "\<And>lk ls start er y. loop lk ls start er = Some y \<Longrightarrow> ?P lk ls start er y"
      and body: "(case tryLock lk ls start er of (Some res, er1) \<Rightarrow> Some (res, er1)
        | (None, er1) \<Rightarrow> loop lk ls start er1) = Some y"
      and lk: "lk = lockPath key" and u: "untouched er0 er"
    obtain r er1 where t: "tryLock lk ls start er = (r, er1)" by force
    have u1: "untouched er0 er1" using tryLock_keeps [OF u, of key ls start] t lk by simp
    show "untouched er0 (snd y)"
    proof (cases r)
      case None
      with body t have "loop lk ls start er1 = Some y" by simp
      from IH [OF this] lk u1 show ?thesis by blast
    qed (use body t u1 in auto)
  qed
  with assms(2) show ?thesis by simp
qed

lemma acquireAll_keeps:
  assumes "acquireAll keys leases er = Some (res, er')" and "untouched er0 er"
  shows "untouched er0 er'"
  using assms
proof (induction keys arbitrary: leases er)
  case (Cons key keys)
  let ?lk = "lockPath key"
  obtain granted er1 where 1: "call (\<lambda>c. etcdGrant c (trunc (LockTTL (etcdCfg er)))) er = (granted, er1)"
    by force
  have u1: "untouched er0 er1" by (rule untouched_step [OF Cons.prems(2) 1 grant_keeps])
  show ?case
  proof (cases granted)
    case (Inl err)
    with Cons.prems(1) 1 u1 show ?thesis by (auto intro: untouched_view)
  next
    case (Inr ls)
    obtain start er2 where now: "runtimeCall timeNow er1 = (start, er2)" by force
    have u2: "untouched er0 er2" by (rule untouched_step [OF u1 now runtime_keeps(2)])
    obtain out er3 where loop: "acquireLoop ?lk ls start er2 = Some (out, er3)"
      using Cons.prems(1) 1 Inr now by (auto simp: Let_def split: option.splits)
    have u3: "untouched er0 er3" by (rule acquireLoop_keeps [OF loop u2])
    show ?thesis
    proof (cases out)
      case (AcquireError err)
      with Cons.prems(1) 1 Inr now loop u3 show ?thesis by simp
    next
      case TimedOut
      obtain x er4 where 4: "call (\<lambda>c. etcdRevoke c ls) (incLockFailure er3) = (x, er4)" by force
      have "untouched er0 (incLockFailure er3)" using u3 by (rule untouched_view) simp
      then have "untouched er0 er4" by (rule untouched_step [OF _ 4 revoke_keeps])
      with TimedOut Cons.prems(1) 1 Inr now loop 4 show ?thesis by simp
    next
      case Acquired
      have "acquireAll keys (leases @ [\<lparr>lockKey = ?lk, lease = ls\<rparr>]) er3 = Some (res, er')"
        using Acquired Cons.prems(1) 1 Inr now loop by simp
      then show ?thesis by (rule Cons.IH [OF _ u3])
    qed
  qed
qed simp

lemma acquireAll_leases:
  "acquireAll keys leases er = Some (Inr held, er') \<Longrightarrow>
   map lockKey held = map lockKey leases @ map lockPath keys"
proof (induction keys arbitrary: leases er)
  case (Cons key keys)
  obtain granted er1 where 1: "call (\<lambda>c. etcdGrant c (trunc (LockTTL (etcdCfg er)))) er = (granted, er1)"
    by force
  obtain ls where ls: "granted = Inr ls" using Cons.prems 1 by (cases granted) auto
  obtain start er2 where now: "runtimeCall timeNow er1 = (start, er2)" by force
  obtain out er3 where loop: "acquireLoop (lockPath key) ls start er2 = Some (out, er3)"
    using Cons.prems 1 ls now by (auto simp: Let_def split: option.splits)
  have "acquireAll keys (leases @ [\<lparr>lockKey = lockPath key, lease = ls\<rparr>]) er3 = Some (Inr held, er')"
    using Cons.prems 1 ls now loop
    by (cases out) (auto simp: split_beta)
  from Cons.IH [OF this] show ?case by simp
qed simp

lemma releaseLock_keeps:
  assumes "untouched er0 er" and "lockKey l = lockPath key"
  shows "untouched er0 (releaseLock l er)"
proof -
  obtain x er1 where 1: "call (\<lambda>c. etcdDelete c (lockKey l)) er = (x, er1)" by force
  obtain y er2 where 2: "call (\<lambda>c. etcdRevoke c (lease l)) er1 = (y, er2)" by force
  have "keeps (call (\<lambda>c. etcdDelete c (lockKey l)))" unfolding assms(2) by (rule lock_delete_keeps)
  from untouched_step [OF assms(1) 1 this] have "untouched er0 er1" .
  then have "untouched er0 er2" by (rule untouched_step [OF _ 2 revoke_keeps])
  then show ?thesis by (simp add: releaseLock_def 1 2)
qed

lemma releaseLocks_keeps:
  "untouched er0 er \<Longrightarrow> \<forall>l \<in> set held. \<exists>key. lockKey l = lockPath key \<Longrightarrow>
   untouched er0 (fold releaseLock held er)"
proof (induction held arbitrary: er)
  case (Cons l held)
  obtain key where "lockKey l = lockPath key" using Cons.prems(2) by auto
  from releaseLock_keeps [OF Cons.prems(1) this] Cons show ?case by simp
qed simp

lemma untouched_zone: "untouched er er' \<Longrightarrow> etcd_inv er' \<and> etcd_zone er' = etcd_zone er"
  using same_view_keeps(2) by (auto simp: untouched_def)

theorem LockTransaction_views:
  assumes "etcd_inv er" and "LockTransaction keys fn (vars, er) = Some (out, vars', er')"
  shows "(\<exists>er1 er2. untouched er er1 \<and> fn (vars, er1) = (out, vars', er2) \<and>
       (etcd_inv er2 \<and> out \<noteq> Panicked \<longrightarrow> untouched er2 er')) \<or>
    (\<exists>e. out = Returned (Some e) \<and> vars' = vars \<and> untouched er er')"
proof -
  obtain res er1 where acq: "acquireAll (sort (remdups keys)) [] er = Some (res, er1)"
    using assms(2) by (auto simp: LockTransaction_def Let_def split: option.splits)
  have u1: "untouched er er1" by (rule acquireAll_keeps [OF acq untouched_refl [OF assms(1)]])
  show ?thesis
  proof (cases res)
    case (Inl err)
    with assms(2) acq u1 show ?thesis by (auto simp: LockTransaction_def Let_def)
  next
    case (Inr held)
    have locks: "\<forall>l \<in> set (rev held). \<exists>key. lockKey l = lockPath key"
    proof
      fix l assume "l \<in> set (rev held)"
      then have "lockKey l \<in> set (map lockKey held)" by simp
      also have "map lockKey held = map lockPath (sort (remdups keys))"
        using acquireAll_leases [of _ "[]" er held er1] acq Inr by simp
      finally show "\<exists>key. lockKey l = lockPath key" by auto
    qed
    obtain o2 vars2 er2 where fn: "fn (vars, er1) = (o2, vars2, er2)" using prod_cases3 by blast
    have released: "etcd_inv er2 \<longrightarrow> untouched er2 (fold releaseLock (rev held) er2)"
      using releaseLocks_keeps [OF untouched_refl locks] by blast
    have run: "LockTransaction keys fn (vars, er) =
        (case o2 of Panicked \<Rightarrow> Some (Panicked, vars2, er2)
         | Returned e \<Rightarrow> Some (Returned e, vars2, fold releaseLock (rev held) er2))"
      by (cases o2) (simp_all add: LockTransaction_def acq Inr fn)
    have "out = o2 \<and> vars' = vars2 \<and> (out \<noteq> Panicked \<longrightarrow> er' = fold releaseLock (rev held) er2)"
      using assms(2) unfolding run by (cases o2) simp_all
    with released u1 fn show ?thesis by blast
  qed
qed

theorem LockTransaction_result:
  assumes "etcd_inv er" and "LockTransaction keys fn (vars, er) = Some (out, vars', er')"
  shows "(\<exists>er1 er2. etcd_inv er1 \<and> etcd_zone er1 = etcd_zone er \<and>
       fn (vars, er1) = (out, vars', er2) \<and>
       (etcd_inv er2 \<and> out \<noteq> Panicked \<longrightarrow> etcd_inv er' \<and> etcd_zone er' = etcd_zone er2)) \<or>
    (\<exists>e. out = Returned (Some e) \<and> vars' = vars \<and> etcd_inv er' \<and> etcd_zone er' = etcd_zone er)"
  using LockTransaction_views [OF assms] untouched_zone by blast


subsection \<open>Listing\<close>

lemma get_result:
  assumes "etcd_inv er" and "WithPrefix \<in> set opts"
    and "call (\<lambda>c. etcdGet c k opts) er = (Inr kvs, er')"
  shows "length kvs < 2 ^ 62" and "distinct (map fst kvs)"
    and "fst ` set kvs = {key. contents er key \<noteq> None \<and> HasPrefix key k}"
    and "WithKeysOnly \<notin> set opts \<Longrightarrow> (key, v) \<in> set kvs \<Longrightarrow> map_option fst (contents er key) = Some v"
proof -
  have "reads_ok (client er)" using assms(1) by (simp add: etcd_inv_def etcd_ok_def)
  moreover have "fst (etcdGet (client er) k opts (world er)) = Inr kvs"
    using assms(3) by (auto simp: call_def Let_def split: prod.splits)
  ultimately have "length kvs < 2 ^ 62 \<and> distinct (map fst kvs) \<and>
      fst ` set kvs = {key. contents er key \<noteq> None \<and> HasPrefix key k} \<and>
      (WithKeysOnly \<notin> set opts \<longrightarrow>
        (\<forall>(key, v) \<in> set kvs. map_option fst (contents er key) = Some v))"
    using assms(2) unfolding reads_ok_def contents_def
    by (auto dest!: spec [of _ k] spec [of _ opts] spec [of _ "world er"])
  then show "length kvs < 2 ^ 62" and "distinct (map fst kvs)"
    and "fst ` set kvs = {key. contents er key \<noteq> None \<and> HasPrefix key k}"
    and "WithKeysOnly \<notin> set opts \<Longrightarrow> (key, v) \<in> set kvs \<Longrightarrow> map_option fst (contents er key) = Some v"
    by auto
qed

lemma get_pairs:
  assumes "etcd_inv er" and "call (\<lambda>c. etcdGet c k opts) er = (Inr kvs, er')"
    and "WithPrefix \<in> set opts" and "WithKeysOnly \<notin> set opts"
  shows "(key, v) \<in> set kvs \<longleftrightarrow> HasPrefix key k \<and> map_option fst (contents er key) = Some v"
proof -
  note get = get_result [OF assms(1,3,2)]
  show ?thesis
  proof
    assume "(key, v) \<in> set kvs"
    with get(3) get(4) [OF assms(4) this] show "HasPrefix key k \<and> map_option fst (contents er key) = Some v"
      by (metis (mono_tags, lifting) fst_conv image_eqI mem_Collect_eq)
  next
    assume r: "HasPrefix key k \<and> map_option fst (contents er key) = Some v"
    then have "key \<in> fst ` set kvs" unfolding get(3) by auto
    then obtain v' where v': "(key, v') \<in> set kvs" by auto
    with get(4) [OF assms(4) v'] r show "(key, v) \<in> set kvs" by simp
  qed
qed

lemma List_keeps: "keeps List'"
proof (rule untouched_keeps)
  fix er :: "'a EtcdRegistry"
  assume inv: "etcd_inv er"
  obtain res er1 where g: "call (\<lambda>c. etcdGet c (pathPrefix er) [WithPrefix, WithSerializable]) er =
      (res, er1)" by force
  have u: "untouched er er1"
    using untouched_step [where f = "call (\<lambda>c. etcdGet c (pathPrefix er)
        [WithPrefix, WithSerializable])"] untouched_refl [OF inv] g by (simp add: get_keeps)
  then show "untouched er (snd (List' er))"
    by (cases res) (auto simp: List'_def Let_def g intro: untouched_view)
qed

lemma map_filter_pairs:
  "y \<in> set (List.map_filter (\<lambda>(k, v). f k v) kvs) \<longleftrightarrow> (\<exists>k v. (k, v) \<in> set kvs \<and> f k v = Some y)"
  by (auto simp: set_map_filter intro!: bexI)

theorem List_zone:
  assumes "etcd_inv er" and "fst (List' er) = Inr actual"
  shows "set actual = etcd_zone er"
proof -
  obtain kvs er1 where g: "call (\<lambda>c. etcdGet c (pathPrefix er) [WithPrefix, WithSerializable]) er =
      (Inr kvs, er1)"
    and actual: "actual = List.map_filter (\<lambda>(key, value).
        case unmarshalEtcdValue key value (pathPrefix er) of Inl err \<Rightarrow> None | Inr ri \<Rightarrow> Some ri) kvs"
    using assms(2) by (auto simp: List'_def Let_def split: sum.splits prod.splits)
  note pairs = get_pairs [OF assms(1) g]
  let ?get = "\<lambda>key value. case unmarshalEtcdValue key value (pathPrefix er) of
    Inl err \<Rightarrow> None | Inr ri \<Rightarrow> Some ri"
  have "ri \<in> set actual \<longleftrightarrow> (\<exists>key v. (key, v) \<in> set kvs \<and> ?get key v = Some ri)" for ri
    unfolding actual by (rule map_filter_pairs)
  moreover have "(\<exists>v. (key, v) \<in> set kvs \<and> ?get key v = Some ri) \<longleftrightarrow>
      recordAt (pathPrefix er) (contents er) key = Some ri" for key ri
    by (cases "contents er key") (auto simp: pairs recordAt_def)
  ultimately show ?thesis by (auto simp: etcd_zone_def records_in_def)
qed

lemma zone_record_ok: "etcd_inv er \<Longrightarrow> q \<in> etcd_zone er \<Longrightarrow> record_ok (Rec q)"
  using recordAt_record_ok by (auto simp: etcd_zone_def records_in_def)

end
