(* ===== verification/Etcd_Zone.thy ===== *)
theory Etcd_Zone
  imports Etcd_Store
begin

text \<open>
  What \<open>Register\<close> and \<open>Remove\<close> do to the records of the store, and the interpretation of the
  engine's registry interface on the etcd registry.
\<close>

subsection \<open>Keys below a base\<close>

lemma base_below:
  assumes "prefix_ok pp" and "isValidHostname h"
  shows "HasPrefix (keyBaseForFQDN pp h @ t) pp"
proof -
  obtain u where "TrimRight pp (CHR ''/'') @ ''/'' = pp @ u"
    using assms(1) by (auto simp: prefix_ok_def HasPrefix_iff)
  then have "keyBaseForFQDN pp h @ t = pp @ u @ Join (CHR ''/'') (rev (Split (CHR ''.'') h)) @ t"
    using keyBase_hostname [OF assms(2)] by simp
  then show ?thesis by simp
qed

lemma indexedKey_below:
  "prefix_ok pp \<Longrightarrow> isValidHostname h \<Longrightarrow> HasPrefix (indexedKey (keyBaseForFQDN pp h) i) pp"
  by (simp add: indexedKey_def base_below)

lemma HasPrefix_Join:
  assumes "qs \<noteq> []" and "\<forall>p \<in> set ps \<union> set qs. c \<notin> set p" and "ps \<noteq> []"
  shows "HasPrefix (Join c ps) (Join c qs @ [c]) \<longleftrightarrow> (\<exists>rs. rs \<noteq> [] \<and> ps = qs @ rs)"
proof
  assume "HasPrefix (Join c ps) (Join c qs @ [c])"
  then obtain t where "Join c ps = Join c qs @ c # Join c (Split c t)"
    by (auto simp: HasPrefix_iff)
  also have "\<dots> = Join c (qs @ Split c t)" by (simp add: Join_append assms(1))
  finally have "Split c (Join c ps) = Split c (Join c (qs @ Split c t))" by simp
  moreover have "Split c (Join c ps) = ps" by (rule Split_Join) (use assms in auto)
  moreover have "Split c (Join c (qs @ Split c t)) = qs @ Split c t"
    by (rule Split_Join) (use assms Split_parts in auto)
  ultimately have "ps = qs @ Split c t" by simp
  then show "\<exists>rs. rs \<noteq> [] \<and> ps = qs @ rs" by (metis Split_not_Nil)
next
  assume "\<exists>rs. rs \<noteq> [] \<and> ps = qs @ rs"
  then obtain rs where "rs \<noteq> []" "ps = qs @ rs" by blast
  then have "Join c ps = (Join c qs @ [c]) @ Join c rs" by (simp add: Join_append assms(1))
  then show "HasPrefix (Join c ps) (Join c qs @ [c])" by (metis HasPrefix_append)
qed

text \<open>The name itself and the names below it.\<close>

definition under :: "string \<Rightarrow> string \<Rightarrow> bool" where
  "under h q \<longleftrightarrow> q = h \<or> HasSuffix q (''.'' @ h)"

lemma under_labels: "under h q \<longleftrightarrow> (\<exists>ps. Split (CHR ''.'') q = ps @ Split (CHR ''.'') h)"
proof
  assume "under h q"
  then consider "q = h" | t where "q = t @ CHR ''.'' # h" by (auto simp: under_def HasSuffix_iff)
  then show "\<exists>ps. Split (CHR ''.'') q = ps @ Split (CHR ''.'') h"
  proof cases
    case 2
    let ?c = "CHR ''.''"
    have "q = Join ?c (Split ?c t) @ ?c # Join ?c (Split ?c h)" using 2 by simp
    also have "\<dots> = Join ?c (Split ?c t @ Split ?c h)" by (rule Join_append [symmetric]) auto
    finally have "Split ?c q = Split ?c (Join ?c (Split ?c t @ Split ?c h))" by simp
    also have "\<dots> = Split ?c t @ Split ?c h"
      by (rule Split_Join) (use Split_parts in auto)
    finally show ?thesis by blast
  qed auto
next
  let ?c = "CHR ''.''"
  assume "\<exists>ps. Split ?c q = ps @ Split ?c h"
  then obtain ps where ps: "Split ?c q = ps @ Split ?c h" by blast
  show "under h q"
  proof (cases "ps = []")
    case True
    then have "Join ?c (Split ?c q) = Join ?c (Split ?c h)" using ps by simp
    then show ?thesis by (simp add: under_def)
  next
    case False
    have "q = Join ?c (Split ?c q)" by simp
    also have "\<dots> = Join ?c ps @ ?c # h" unfolding ps using False by (simp add: Join_append)
    finally show ?thesis by (auto simp: under_def HasSuffix_iff)
  qed
qed

lemma snoc_extends: "(\<exists>rs. rs \<noteq> [] \<and> xs @ [x] = ys @ rs) \<longleftrightarrow> (\<exists>rs. xs = ys @ rs)"
proof
  assume "\<exists>rs. rs \<noteq> [] \<and> xs @ [x] = ys @ rs"
  then obtain rs where "rs \<noteq> []" and eq: "xs @ [x] = ys @ rs" by blast
  then obtain rs' z where "rs = rs' @ [z]" by (metis rev_exhaust)
  with eq show "\<exists>rs. xs = ys @ rs" by simp
qed auto

theorem indexedKey_under:
  assumes "isValidHostname h" and "isValidHostname q"
  shows "HasPrefix (indexedKey (keyBaseForFQDN pp q) i) (keyBaseForFQDN pp h @ ''/'') \<longleftrightarrow> under h q"
proof -
  let ?p = "TrimRight pp (CHR ''/'')" and ?c = "CHR ''/''"
  let ?lh = "rev (Split (CHR ''.'') h)" and ?lq = "rev (Split (CHR ''.'') q)"
  let ?x = "''x'' @ Itoa i"
  have key: "indexedKey (keyBaseForFQDN pp q) i = (?p @ ''/'') @ Join ?c (?lq @ [?x])"
    using Join_append [of ?lq "[?x]" ?c] by (simp add: indexedKey_def keyBase_hostname [OF assms(2)])
  have base: "keyBaseForFQDN pp h @ ''/'' = (?p @ ''/'') @ (Join ?c ?lh @ [?c])"
    by (simp add: keyBase_hostname [OF assms(1)])
  have seps: "\<forall>p \<in> set (?lq @ [?x]) \<union> set ?lh. ?c \<notin> set p"
    using assms label_ok_sep Itoa_no_slash by (auto simp: isValidHostname_labels list_all_iff)
  have "HasPrefix (indexedKey (keyBaseForFQDN pp q) i) (keyBaseForFQDN pp h @ ''/'') \<longleftrightarrow>
      HasPrefix (Join ?c (?lq @ [?x])) (Join ?c ?lh @ [?c])"
    unfolding key base HasPrefix_iff by simp
  also have "\<dots> \<longleftrightarrow> (\<exists>rs. rs \<noteq> [] \<and> ?lq @ [?x] = ?lh @ rs)"
    by (rule HasPrefix_Join) (use seps in auto)
  also have "\<dots> \<longleftrightarrow> (\<exists>rs. ?lq = ?lh @ rs)"
    by (rule snoc_extends)
  also have "\<dots> \<longleftrightarrow> under h q"
    unfolding under_labels by (metis rev_append rev_rev_ident)
  finally show ?thesis .
qed


subsection \<open>The next free index\<close>

lemma firstFree_least:
  "start \<le> firstFree existing start \<and> firstFree existing start \<notin> set existing \<and>
   {start..<firstFree existing start} \<subseteq> set existing"
proof (induction existing start rule: firstFree.induct)
  case (1 existing idx)
  show ?case
  proof (cases "idx \<in> set existing")
    case True
    have "{idx..<k} \<subseteq> insert idx {idx + 1..<k}" for k by auto
    with 1 [OF True] True show ?thesis
      by (subst (1 2 3) firstFree.simps) (fastforce simp: True)
  qed (simp add: firstFree.simps)
qed

lemma firstFree_bound: "firstFree existing start \<le> start + int (length existing)"
proof -
  let ?f = "firstFree existing start"
  have "card {start..<?f} \<le> card (set existing)"
    using firstFree_least [of start existing] by (intro card_mono) auto
  also have "\<dots> \<le> length existing" by (rule card_length)
  finally show ?thesis by simp
qed

lemma indexOf_indexedKey:
  assumes "n < 2 ^ 63"
  shows "indexOf base (indexedKey base n) = Some (int n)"
proof -
  have "indexedKey base n = (base @ ''/'') @ ''x'' @ Itoa n" by (simp add: indexedKey_def)
  moreover have "HasPrefix ((base @ ''/'') @ t) (base @ ''/'')" for t by (rule HasPrefix_append)
  ultimately show ?thesis
    using Atoi_Itoa [OF assms] HasPrefix_append [of "''x''" "Itoa n"] by (simp add: indexOf_def)
qed

lemma map_filter_length: "length (List.map_filter f xs) \<le> length xs"
  unfolding map_filter_def by simp

lemma get_untouched:
  assumes "etcd_inv er" and "WithPrefix \<in> set opts"
    and "call (\<lambda>c. etcdGet c k opts) er = (x, er')"
  shows "untouched er er'"
  using keepsD [OF get_keeps [OF assms(2)] assms(1,3)] by (simp add: untouched_def)

lemma getNextIndexedKey_untouched:
  assumes "etcd_inv er" and "getNextIndexedKey h er = (res, er')"
  shows "untouched er er'"
proof -
  let ?base = "keyBaseForFQDN (pathPrefix er) h"
  obtain got er1 where get: "call (\<lambda>c. etcdGet c ?base [WithPrefix, WithKeysOnly, WithSerializable]) er =
      (got, er1)" by force
  have "untouched er er1" by (rule get_untouched [OF assms(1) _ get]) simp
  then show ?thesis
    using assms(2) get by (cases got) (auto simp: getNextIndexedKey_def Let_def intro: untouched_view)
qed

text \<open>The key that \<open>Register\<close> writes to is free and belongs to the name.\<close>

theorem getNextIndexedKey_free:
  assumes inv: "etcd_inv er" and "isValidHostname h"
    and "getNextIndexedKey h er = (Inr key, er')"
  shows "contents er key = None"
    and "\<exists>i > 0. key = indexedKey (keyBaseForFQDN (pathPrefix er) h) i"
proof -
  let ?base = "keyBaseForFQDN (pathPrefix er) h"
  let ?get = "call (\<lambda>c. etcdGet c ?base [WithPrefix, WithKeysOnly, WithSerializable])"
  obtain kvs where get: "?get er = (Inr kvs, er')"
    using assms(3) by (auto simp: getNextIndexedKey_def Let_def split: sum.splits prod.splits)
  define existing where "existing = List.map_filter (\<lambda>kv. indexOf ?base (fst kv)) kvs"
  define idx where "idx = firstFree existing 1"
  have key: "key = indexedKey ?base (nat idx)"
    using assms(3) get by (simp add: getNextIndexedKey_def existing_def idx_def Let_def)
  note got = get_result [OF inv _ get]
  have "idx \<le> 1 + int (length existing)" unfolding idx_def by (rule firstFree_bound)
  moreover have "length existing \<le> length kvs" unfolding existing_def by (rule map_filter_length)
  moreover have len: "length kvs < 2 ^ 62" by (rule got(1)) simp
  ultimately have "idx \<le> 1 + int (2 ^ 62)" by linarith
  then have small: "nat idx < 2 ^ 63" by simp
  have idx: "1 \<le> idx" "idx \<notin> set existing" using firstFree_least [of 1 existing] by (auto simp: idx_def)
  show "\<exists>i > 0. key = indexedKey ?base i" using key idx by (intro exI [of _ "nat idx"]) simp
  show "contents er key = None"
  proof (rule ccontr)
    assume "contents er key \<noteq> None"
    moreover have "HasPrefix key ?base" by (simp add: key indexedKey_def)
    ultimately have "key \<in> fst ` set kvs" using got(3) by simp
    then obtain v where "(key, v) \<in> set kvs" by auto
    moreover have "indexOf ?base key = Some idx"
      using indexOf_indexedKey [OF small] idx by (simp add: key)
    ultimately have "idx \<in> set existing"
      by (force simp: existing_def set_map_filter)
    with idx show False by simp
  qed
qed


subsection \<open>Register\<close>

lemma put_record:
  assumes "placed pp s" and "s key = None" and "key = indexedKey (keyBaseForFQDN pp (Name (Rec d))) i"
    and "HasPrefix key pp" and "unmarshalEtcdValue key v pp = Inr d"
  shows "placed pp (s(key \<mapsto> (v, None)))"
    and "records_in pp (s(key \<mapsto> (v, None))) = insert d (records_in pp s)"
proof -
  let ?s = "s(key \<mapsto> (v, None))"
  have new: "recordAt pp ?s key = Some d" and old: "recordAt pp s key = None"
    using assms by (simp_all add: recordAt_def)
  have other: "k \<noteq> key \<Longrightarrow> recordAt pp ?s k = recordAt pp s k" for k
    by (rule recordAt_cong) simp
  have at: "recordAt pp ?s k = Some q \<longleftrightarrow> (k = key \<and> q = d \<or> recordAt pp s k = Some q)" for k q
    using new old other [of k] by (cases "k = key") auto
  show "records_in pp ?s = insert d (records_in pp s)" unfolding records_in_def at by auto
  show "placed pp ?s"
    using assms(1,3) unfolding placed_def at by auto
qed

lemma zone_of_contents:
  assumes "etcd_inv er" and "client er' = client er" and "env er' = env er"
    and "etcdCfg er' = etcdCfg er" and "placed (pathPrefix er) (contents er')"
  shows "etcd_inv er'" and "etcd_zone er' = records_in (pathPrefix er) (contents er')"
  using assms by (simp_all add: etcd_inv_def etcd_zone_def)

lemma put_effect:
  assumes inv: "etcd_inv er" and d: "storable lz d" and v: "marshalEtcdValue lz d = Some v"
    and free: "contents er key = None"
    and key: "key = indexedKey (keyBaseForFQDN (pathPrefix er) (Name (Rec d))) i"
    and put: "call (\<lambda>c. etcdPut c key v None) er = (e, er')"
  shows "etcd_inv er'"
    and "etcd_zone er' = insert d (etcd_zone er) \<or> e \<noteq> None \<and> etcd_zone er' = etcd_zone er"
proof -
  have h: "isValidHostname (Name (Rec d))" using d by (simp add: storable_def record_ok_def)
  have same: "client er' = client er" "env er' = env er" "etcdCfg er' = etcdCfg er"
    using put by (auto simp: call_def split: prod.splits)
  have res: "write_result e (contents er) ((contents er)(key \<mapsto> (v, None))) (contents er')"
    using put put_result [OF inv, of key v None e "world er'"]
    by (auto simp: call_def contents_def split: prod.splits)
  have "unmarshalEtcdValue key v (pathPrefix er) = Inr d"
    by (rule wire_roundtrip [OF d v]) (simp add: key fqdn_of_indexedKey [OF h])
  moreover have "HasPrefix key (pathPrefix er)"
    unfolding key by (rule indexedKey_below [OF _ h]) (use inv in \<open>simp add: etcd_inv_def\<close>)
  moreover have "placed (pathPrefix er) (contents er)" using inv by (simp add: etcd_inv_def)
  ultimately have written: "placed (pathPrefix er) ((contents er)(key \<mapsto> (v, None)))"
    "records_in (pathPrefix er) ((contents er)(key \<mapsto> (v, None))) = insert d (etcd_zone er)"
    using put_record [of "pathPrefix er" "contents er" key d i v] free key
    by (simp_all add: etcd_zone_def)
  have "etcd_inv er' \<and>
    (etcd_zone er' = insert d (etcd_zone er) \<or> e \<noteq> None \<and> etcd_zone er' = etcd_zone er)"
  proof (cases "contents er' = (contents er)(key \<mapsto> (v, None))")
    case True
    with zone_of_contents [OF inv same] written show ?thesis by simp
  next
    case False
    then have "e \<noteq> None" "contents er' = contents er" using res by (auto simp: write_result_def)
    moreover from this have "same_view er er'" using same by (simp add: same_view_def)
    ultimately show ?thesis using same_view_keeps [of er er'] inv by simp
  qed
  then show "etcd_inv er'"
    and "etcd_zone er' = insert d (etcd_zone er) \<or> e \<noteq> None \<and> etcd_zone er' = etcd_zone er"
    by blast+
qed

text \<open>\<open>Register\<close> adds the record; when it fails, the record may or may not be there.\<close>

theorem Register_effect:
  assumes inv: "etcd_inv er" and d: "storable lz d" and reg: "Register lz d er = (err, er')"
  shows "etcd_inv er' \<and>
    (etcd_zone er' = insert d (etcd_zone er) \<or> err \<noteq> None \<and> etcd_zone er' = etcd_zone er)"
proof -
  let ?h = "Name (Rec d)"
  have h: "isValidHostname ?h" using d by (simp add: storable_def record_ok_def)
  obtain res er1 where next_key: "getNextIndexedKey ?h er = (res, er1)" by force
  have "untouched er er1" by (rule getNextIndexedKey_untouched [OF inv next_key])
  then have inv1: "etcd_inv er1" and same: "same_view er er1" by (simp_all add: untouched_def)
  have zone1: "etcd_zone er1 = etcd_zone er" using same_view_keeps(2) [OF same] .
  obtain v where v: "marshalEtcdValue lz d = Some v" using marshal_defined [OF d] by blast
  show ?thesis
  proof (cases res)
    case (Inl e)
    then have "err \<noteq> None" "er' = er1" using reg next_key by (auto simp: Register_def)
    with inv1 zone1 show ?thesis by simp
  next
    case (Inr key)
    note free = getNextIndexedKey_free [OF inv h next_key [unfolded Inr]]
    have pp: "pathPrefix er1 = pathPrefix er" using same by (simp add: same_view_def)
    obtain i where key: "key = indexedKey (keyBaseForFQDN (pathPrefix er1) ?h) i"
      using free(2) pp by auto
    have "HasPrefix key (pathPrefix er)"
      unfolding key pp by (rule indexedKey_below [OF _ h]) (use inv in \<open>simp add: etcd_inv_def\<close>)
    then have free1: "contents er1 key = None" using free(1) same by (simp add: same_view_def)
    obtain e er2 where put: "call (\<lambda>c. etcdPut c key v None) er1 = (e, er2)" by force
    note wrote = put_effect [OF inv1 d v free1 key put]
    have "same_view er2 (incEtcdError er2)" by simp
    note same_view_keeps [OF this]
    moreover have "err \<noteq> None \<and> e \<noteq> None \<and> er' = incEtcdError er2 \<or> e = None \<and> err = None \<and> er' = er2"
      using reg next_key Inr v put by (cases e) (auto simp: Register_def Let_def)
    ultimately show ?thesis using wrote zone1 by auto
  qed
qed

text \<open>It writes to no key that holds something.\<close>

theorem Register_overwrites_nothing:
  assumes inv: "etcd_inv er" and d: "storable lz d" and reg: "Register lz d er = (err, er')"
    and k: "HasPrefix k (pathPrefix er)" "contents er k \<noteq> None"
  shows "contents er' k = contents er k"
proof -
  let ?h = "Name (Rec d)"
  have h: "isValidHostname ?h" using d by (simp add: storable_def record_ok_def)
  obtain res er1 where next_key: "getNextIndexedKey ?h er = (res, er1)" by force
  have "untouched er er1" by (rule getNextIndexedKey_untouched [OF inv next_key])
  then have inv1: "etcd_inv er1" and same: "contents er1 k = contents er k"
    using k(1) by (simp_all add: untouched_def same_view_def)
  show ?thesis
  proof (cases res)
    case (Inl e)
    then show ?thesis using reg next_key same by (auto simp: Register_def)
  next
    case (Inr key)
    have "k \<noteq> key" using getNextIndexedKey_free(1) [OF inv h next_key [unfolded Inr]] k(2) by auto
    obtain v where v: "marshalEtcdValue lz d = Some v" using marshal_defined [OF d] by blast
    obtain e er2 where put: "call (\<lambda>c. etcdPut c key v None) er1 = (e, er2)" by force
    then have "write_result e (contents er1) ((contents er1)(key \<mapsto> (v, None))) (contents er2)"
      using put_result [OF inv1, of key v None e "world er2"]
      by (auto simp: call_def contents_def split: prod.splits)
    with \<open>k \<noteq> key\<close> same have "contents er2 k = contents er k" by (auto simp: write_result_def)
    moreover have "contents (incEtcdError er2) k = contents er2 k"
      by (simp add: incEtcdError_def contents_def)
    ultimately show ?thesis
      using reg next_key Inr v put by (auto simp: Register_def split: option.splits)
  qed
qed


subsection \<open>Remove\<close>

text \<open>The store without some of its keys.\<close>

definition without :: "string set \<Rightarrow> kv_store \<Rightarrow> kv_store" where
  "without D s = (\<lambda>k. if k \<in> D then None else s k)"

lemma without_simps [simp]:
  "without {} s = s" "without D (without D' s) = without (D \<union> D') s" "k \<in> D \<Longrightarrow> without D s k = None"
  "k \<notin> D \<Longrightarrow> without D s k = s k"
  by (auto simp: without_def)

lemma fold_deletes: "fold apply_op (map OpDelete ks) s = without (set ks) s"
  by (induction ks arbitrary: s) (auto simp: without_def fun_eq_iff)

lemma recordAt_without:
  "recordAt pp (without D s) k = (if k \<in> D then None else recordAt pp s k)"
  by (simp add: recordAt_def without_def)

lemma placed_without: "placed pp s \<Longrightarrow> placed pp (without D s)"
  unfolding placed_def recordAt_without by (auto simp: without_def split: if_splits)

text \<open>A state in which the keys \<open>D\<close> have been deleted.\<close>

definition deleted :: "'e EtcdRegistry \<Rightarrow> string set \<Rightarrow> 'e EtcdRegistry \<Rightarrow> bool" where
  "deleted er0 D er \<longleftrightarrow> client er = client er0 \<and> env er = env er0 \<and> etcdCfg er = etcdCfg er0 \<and>
     contents er = without D (contents er0)"

lemma deleted_inv: "etcd_inv er0 \<Longrightarrow> deleted er0 D er \<Longrightarrow> etcd_inv er"
  by (simp add: etcd_inv_def deleted_def placed_without)

lemma deleted_metrics [simp]: "deleted er0 D (incEtcdError er) \<longleftrightarrow> deleted er0 D er"
  by (simp add: deleted_def incEtcdError_def contents_def)

text \<open>A batch is deleted as a whole; when it fails, it may or may not be.\<close>

lemma batch_deleted:
  assumes "etcd_inv er0" and "deleted er0 D er"
    and "call (\<lambda>c. etcdTxn c [] (map OpDelete batch)) er = (res, er')"
  shows "deleted er0 (D \<union> set batch) er' \<or> (\<exists>e. res = Inl e) \<and> deleted er0 D er'"
proof -
  obtain w where txn: "etcdTxn (client er) [] (map OpDelete batch) (world er) = (res, w)"
    and er': "er' = er\<lparr>world := w\<rparr>"
    using assms(3) by (auto simp: call_def split: prod.splits)
  note result = txn_result [OF deleted_inv [OF assms(1,2)] txn]
  have "store (client er) w = without (set batch) (contents er) \<or>
      (\<exists>e. res = Inl e) \<and> store (client er) w = contents er"
    using result by (cases res) (auto simp: fold_deletes)
  with assms(2) er' show ?thesis by (auto simp: deleted_def contents_def Un_commute)
qed

lemma deleteBatches_effect:
  assumes "etcd_inv er0"
  shows "deleted er0 D er \<Longrightarrow> deleteBatches i keys firstErr er = (err, er') \<Longrightarrow>
    \<exists>D'. deleted er0 D' er' \<and> D \<subseteq> D' \<and> D' \<subseteq> D \<union> set keys \<and>
      (err = None \<longrightarrow> firstErr = None \<and> D' = D \<union> set keys)"
proof (induction i keys firstErr er arbitrary: D rule: deleteBatches.induct)
  case (1 i keys firstErr er)
  show ?case
  proof (cases "keys = []")
    case True
    with 1(3,4) show ?thesis by (intro exI [of _ D]) (simp add: deleteBatches.simps)
  next
    case False
    let ?batch = "take batchSize keys" and ?rest = "drop batchSize keys"
    obtain res er1 where txn: "call (\<lambda>c. etcdTxn c [] (map OpDelete ?batch)) er = (res, er1)" by force
    have keys: "set ?batch \<union> set ?rest = set keys" by (metis append_take_drop_id set_append)
    obtain D1 where D1: "deleted er0 D1 er1" "D \<subseteq> D1" "D1 \<subseteq> D \<union> set ?batch"
      "(\<exists>b. res = Inr b) \<Longrightarrow> D1 = D \<union> set ?batch"
      using batch_deleted [OF assms 1(3) txn] by (cases res) auto
    show ?thesis
    proof (cases res)
      case (Inl e)
      let ?first = "if firstErr = None then
          Some (''batch delete ['' @ Itoa i @ '':'' @ Itoa (i + length ?batch) @ '']: '' @ e)
        else firstErr"
      have del: "deleted er0 D1 (incEtcdError er1)" using D1(1) by simp
      have "deleteBatches (i + length ?batch) ?rest ?first (incEtcdError er1) = (err, er')"
        using 1(4) False txn Inl by (subst (asm) deleteBatches.simps) (simp add: Let_def)
      from 1(1) [OF False refl refl txn [symmetric] Inl del this]
      obtain D' where D': "deleted er0 D' er'" "D1 \<subseteq> D'" "D' \<subseteq> D1 \<union> set ?rest"
        and "err = None \<longrightarrow> ?first = None \<and> D' = D1 \<union> set ?rest"
        by (elim exE conjE) (rule that)
      then have "err \<noteq> None" by (cases firstErr) simp_all
      with D1(2,3) D' show ?thesis unfolding keys [symmetric] by blast
    next
      case (Inr b)
      have "deleteBatches (i + length ?batch) ?rest firstErr er1 = (err, er')"
        using 1(4) False txn Inr by (subst (asm) deleteBatches.simps) (simp add: Let_def)
      from 1(2) [OF False refl refl txn [symmetric] Inr D1(1) this]
      obtain D' where "deleted er0 D' er'" "D1 \<subseteq> D'" "D' \<subseteq> D1 \<union> set ?rest"
        "err = None \<longrightarrow> firstErr = None \<and> D' = D1 \<union> set ?rest" by blast
      moreover have "D1 = D \<union> set ?batch" using D1(4) Inr by blast
      ultimately show ?thesis unfolding keys [symmetric] by blast
    qed
  qed
qed


text \<open>
  What removing \<open>d\<close> deletes: the records with its data, under its name and under every name below it.
\<close>

definition erases :: "RecordIntent \<Rightarrow> RecordIntent \<Rightarrow> bool" where
  "erases d q \<longleftrightarrow> under (Name (Rec d)) (Name (Rec q)) \<and> recordMatches (wireOf q) d"

lemma unmarshal_wire: "unmarshalEtcdValue k v pp = Inr q \<Longrightarrow> jsonUnmarshal v = Some (wireOf q)"
  by (auto simp: unmarshalEtcdValue_def wireOf_def NewFromKind_iff Let_def
      split: option.splits sum.splits)

lemma in_toDelete:
  "k \<in> set (toDelete base d kvs) \<longleftrightarrow>
   (\<exists>v w. (k, v) \<in> set kvs \<and> HasPrefix k (base @ ''/'') \<and> jsonUnmarshal v = Some w \<and> recordMatches w d)"
proof -
  have sel: "(if \<not> HasPrefix k' (base @ ''/'') then None
      else (case jsonUnmarshal v of None \<Rightarrow> None
         | Some wire \<Rightarrow> if recordMatches wire d then Some k' else None)) = Some k \<longleftrightarrow>
      k' = k \<and> HasPrefix k (base @ ''/'') \<and> (\<exists>w. jsonUnmarshal v = Some w \<and> recordMatches w d)" for k' v
    by (auto split: option.splits)
  show ?thesis unfolding toDelete_def map_filter_pairs sel by blast
qed

lemma toDelete_records:
  assumes inv: "etcd_inv er" and d: "isValidHostname (Name (Rec d))"
    and get: "call (\<lambda>c. etcdGet c (keyBaseForFQDN (pathPrefix er) (Name (Rec d))) [WithPrefix]) er =
      (Inr kvs, er')"
    and q: "recordAt (pathPrefix er) (contents er) k = Some q"
  shows "k \<in> set (toDelete (keyBaseForFQDN (pathPrefix er) (Name (Rec d))) d kvs) \<longleftrightarrow> erases d q"
proof -
  let ?base = "keyBaseForFQDN (pathPrefix er) (Name (Rec d))"
  have "isValidHostname (Name (Rec q))"
    using recordAt_record_ok [OF q] by (simp add: record_ok_def)
  moreover obtain i where "k = indexedKey (keyBaseForFQDN (pathPrefix er) (Name (Rec q))) i"
    using inv q unfolding etcd_inv_def placed_def by blast
  ultimately have under: "HasPrefix k (?base @ ''/'') \<longleftrightarrow> under (Name (Rec d)) (Name (Rec q))"
    using indexedKey_under [OF d] by simp
  have base: "HasPrefix k (?base @ ''/'') \<Longrightarrow> HasPrefix k ?base" by (auto simp: HasPrefix_iff)
  obtain v where v: "map_option fst (contents er k) = Some v" and "unmarshalEtcdValue k v (pathPrefix er) = Inr q"
    using q by (auto simp: recordAt_def split: if_splits option.splits sum.splits)
  then have wire: "jsonUnmarshal v = Some (wireOf q)" by (simp add: unmarshal_wire)
  have pairs: "(k, v') \<in> set kvs \<longleftrightarrow> HasPrefix k ?base \<and> v' = v" for v'
    using get_pairs [OF inv get, of k v'] v by auto
  show ?thesis
    unfolding in_toDelete using under base pairs wire by (auto simp: erases_def)
qed

theorem Remove_effect:
  assumes inv: "etcd_inv er" and d: "record_ok (Rec d)" and rem: "Remove d er = (err, er')"
  shows "etcd_inv er' \<and> etcd_zone er' \<subseteq> etcd_zone er \<and>
    {q \<in> etcd_zone er. \<not> erases d q} \<subseteq> etcd_zone er' \<and>
    (err = None \<longrightarrow> etcd_zone er' = {q \<in> etcd_zone er. \<not> erases d q})"
proof -
  let ?pp = "pathPrefix er"
  let ?base = "keyBaseForFQDN ?pp (Name (Rec d))"
  have h: "isValidHostname (Name (Rec d))" using d by (simp add: record_ok_def)
  obtain res er1 where get: "call (\<lambda>c. etcdGet c ?base [WithPrefix]) er = (res, er1)" by force
  have u1: "untouched er er1" by (rule get_untouched [OF inv _ get]) simp
  show ?thesis
  proof (cases res)
    case (Inl e)
    then have "err \<noteq> None" "er' = incEtcdError er1" using rem get by (auto simp: Remove_def Let_def)
    moreover from this u1 have "untouched er er'" by (simp add: untouched_view)
    then have "etcd_inv er'" "etcd_zone er' = etcd_zone er"
      using same_view_keeps(2) [of er er'] by (simp_all add: untouched_def)
    ultimately show ?thesis by auto
  next
    case (Inr kvs)
    let ?keys = "toDelete ?base d kvs"
    have inv1: "etcd_inv er1" and same: "same_view er er1" using u1 by (simp_all add: untouched_def)
    have er': "(err, er') = deleteBatches 0 ?keys None er1"
      using rem get Inr by (cases "?keys = []") (simp_all add: Remove_def Let_def deleteBatches.simps)
    have "deleted er1 {} er1" by (simp add: deleted_def)
    from deleteBatches_effect [OF inv1 this er' [symmetric]]
    obtain D where D: "deleted er1 D er'" "D \<subseteq> set ?keys" "err = None \<longrightarrow> D = set ?keys"
      by auto
    have at: "recordAt ?pp (contents er1) k = recordAt ?pp (contents er) k" for k
      by (rule recordAt_cong) (use same in \<open>simp add: same_view_def\<close>)
    have pp: "pathPrefix er' = ?pp" using D(1) same by (simp add: deleted_def same_view_def)
    have zone': "etcd_zone er' = {q. \<exists>k. k \<notin> D \<and> recordAt ?pp (contents er) k = Some q}"
    proof -
      have "contents er' = without D (contents er1)" using D(1) by (simp add: deleted_def)
      then show ?thesis
        by (auto simp: etcd_zone_def pp records_in_def recordAt_without at split: if_splits)
    qed
    have zone: "etcd_zone er = {q. \<exists>k. recordAt ?pp (contents er) k = Some q}"
      by (simp add: etcd_zone_def records_in_def)
    note gone = toDelete_records [OF inv h get [unfolded Inr]]
    have "etcd_zone er' \<subseteq> etcd_zone er" unfolding zone zone' by blast
    moreover have "{q \<in> etcd_zone er. \<not> erases d q} \<subseteq> etcd_zone er'"
      unfolding zone zone' using gone D(2) by blast
    moreover have "err = None \<longrightarrow> etcd_zone er' = {q \<in> etcd_zone er. \<not> erases d q}"
      unfolding zone zone' using gone D(3) by blast
    ultimately show ?thesis using deleted_inv [OF inv1 D(1)] by blast
  qed
qed

lemma erases_self: "Intent_Equal d q \<Longrightarrow> erases d q"
  by (auto simp: erases_def under_def recordMatches_def wireOf_def Intent_Equal_def Record_Equal_def)


subsection \<open>The engine's interface\<close>

lemma keeps_zone: "keeps f \<Longrightarrow> etcd_inv er \<Longrightarrow>
  etcd_inv (snd (f er)) \<and> etcd_zone (snd (f er)) = etcd_zone er"
  unfolding keeps_def using same_view_keeps [of er "snd (f er)"] by blast

lemma etcd_upstream: "upstream_registry (etcdUpstream lz) etcd_inv etcd_zone erases (storable lz)"
proof (unfold_locales, goal_cases)
  case 1
  then show ?case by (simp add: etcdUpstream_def keeps_zone List_keeps)
next
  case 2
  then show ?case by (simp add: etcdUpstream_def List_zone)
next
  case 3
  then show ?case by (rule zone_record_ok)
next
  case 4
  then show ?case by (simp add: etcdUpstream_def keeps_zone GetLiveHostnames_keeps)
next
  case 5
  then show ?case by (simp add: etcdUpstream_def keeps_zone StartHeartbeat_keeps)
next
  case 6
  then show ?case by (simp add: etcdUpstream_def untouched_zone [OF StopHeartbeat_keeps])
next
  case (7 er d er')
  then show ?case using Register_effect [of er lz d None er'] by (simp add: etcdUpstream_def)
next
  case (8 er d err er')
  then show ?case using Register_effect [of er lz d err er'] by (auto simp: etcdUpstream_def)
next
  case (9 er d er')
  then show ?case using Remove_effect [of er d None er'] by (simp add: etcdUpstream_def)
next
  case (10 er d err er')
  then show ?case using Remove_effect [of er d err er'] by (simp add: etcdUpstream_def)
next
  case 11
  then show ?case by (rule erases_self)
next
  case (12 er ks fn vars out vars' er')
  then show ?case using LockTransaction_result [of er ks fn vars out vars' er'] by (simp add: etcdUpstream_def)
qed

interpretation etcd: upstream_registry "etcdUpstream lz" etcd_inv etcd_zone erases "storable lz"
  for lz
  by (rule etcd_upstream)

end
