(* ===== verification/Etcd_Lock.thy ===== *)
theory Etcd_Lock
  imports Etcd_Zone
begin

text \<open>
  What the locks of \<open>LockTransaction\<close> guarantee: the function does not run while another holder's
  key is in the store, it runs with all keys held, the keys are gone afterwards, and the attempt
  ends when the clock advances.
\<close>

subsection \<open>A held lock keeps others out\<close>

lemma runtime_store:
  assumes "etcd_inv er"
  shows "contents (snd (runtimeCall ctxErr er)) = contents er"
    and "contents (snd (runtimeCall timeNow er)) = contents er"
    and "contents (lockSleep er) = contents er"
  using assms
  by (simp_all add: runtimeCall_def lockSleep_def contents_def etcd_inv_def etcd_ok_def
      runtime_ok_def split_beta)

lemma call_store:
  assumes "etcd_inv er"
  shows "contents (snd (call (\<lambda>c. etcdGrant c ttl) er)) = contents er"
    and "contents (snd (call (\<lambda>c. etcdKeepAlive c ls) er)) = contents er"
  using assms
  by (simp_all add: call_def contents_def etcd_inv_def etcd_ok_def leases_ok_def split_beta)

text \<open>The transaction that takes a lock.\<close>

lemma lock_txn:
  assumes "etcd_inv er"
    and "call (\<lambda>c. etcdTxn c [CreateRevisionZero lk] [OpPut lk v ls]) er = (Inr b, er')"
  shows "b \<longleftrightarrow> contents er lk = None"
    and "contents er' = (if b then (contents er)(lk \<mapsto> (v, Some ls)) else contents er)"
proof -
  obtain w where txn: "etcdTxn (client er) [CreateRevisionZero lk] [OpPut lk v ls] (world er) = (Inr b, w)"
    and er': "er' = er\<lparr>world := w\<rparr>"
    using assms(2) by (auto simp: call_def split: prod.splits)
  from txn_result(1) [OF assms(1) txn refl] er'
  show "b \<longleftrightarrow> contents er lk = None"
    and "contents er' = (if b then (contents er)(lk \<mapsto> (v, Some ls)) else contents er)"
    by (auto simp: cmp_holds_def contents_def)
qed

lemma own_call [simp]:
  "ownHostname (snd (call op er)) = ownHostname er"
  "ownHostname (snd (runtimeCall op' er)) = ownHostname er"
  "ownHostname (lockSleep er) = ownHostname er"
  "ownHostname (incEtcdError er) = ownHostname er"
  "ownHostname (incLockFailure er) = ownHostname er"
  by (simp_all add: call_def runtimeCall_def lockSleep_def incEtcdError_def incLockFailure_def split_beta)

lemma own_of_call: "call op er = (x, er') \<Longrightarrow> ownHostname er' = ownHostname er"
  using own_call(1) [of op er] by simp

lemma own_of_runtimeCall: "runtimeCall op er = (x, er') \<Longrightarrow> ownHostname er' = ownHostname er"
  using own_call(2) [of op er] by simp

lemma keepLock_acquired:
  assumes "etcd_inv er" and "keepLock lk ls er = (Acquired, er')"
  shows "contents er' = contents er" and "ownHostname er' = ownHostname er"
proof -
  obtain ka er1 where 1: "call (\<lambda>c. etcdKeepAlive c ls) er = (ka, er1)" by force
  with assms(2) have "er' = er1" by (cases ka) (auto simp: keepLock_def Let_def split: prod.splits)
  with 1 call_store(2) [OF assms(1), of ls] own_of_call [OF 1]
  show "contents er' = contents er" and "ownHostname er' = ownHostname er" by simp_all
qed

lemma tryLock_eq:
  assumes 1: "runtimeCall timeNow er = (now, er1)" and 2: "runtimeCall ctxErr er1 = (ctx, er2)"
    and 3: "call (\<lambda>c. etcdTxn c [CreateRevisionZero lk] [OpPut lk (ownHostname er) ls]) er2 = (txn, er3)"
  shows "tryLock lk ls start er =
      (if \<not> TimeSub now start < lockTimeout er then (Some TimedOut, er1)
       else case ctx of Some err \<Rightarrow> (Some (AcquireError err), er2)
         | None \<Rightarrow> (case txn of
             Inl err \<Rightarrow> (Some (AcquireError (''acquire lock '' @ Quote lk @ '': '' @ err)), incEtcdError er3)
           | Inr b \<Rightarrow> if b then map_prod Some id (keepLock lk ls er3) else (None, lockSleep er3)))"
  unfolding tryLock_def 1 Let_def prod.case 2 3 by (cases ctx; cases txn) simp_all

text \<open>A round that goes on changes nothing; one that takes the lock finds the key absent.\<close>

lemma tryLock_effect:
  assumes "etcd_inv er" and "tryLock (lockPath key) ls start er = (res, er')"
  shows "res = None \<Longrightarrow> contents er' = contents er \<and> ownHostname er' = ownHostname er"
    and "res = Some Acquired \<Longrightarrow> contents er (lockPath key) = None \<and>
      contents er' = (contents er)(lockPath key \<mapsto> (ownHostname er, Some ls)) \<and>
      ownHostname er' = ownHostname er"
proof -
  let ?lk = "lockPath key"
  obtain now er1 where 1: "runtimeCall timeNow er = (now, er1)" by force
  obtain ctx er2 where 2: "runtimeCall ctxErr er1 = (ctx, er2)" by force
  obtain txn er3 where 3: "call (\<lambda>c. etcdTxn c [CreateRevisionZero ?lk]
      [OpPut ?lk (ownHostname er) ls]) er2 = (txn, er3)" by force
  note u1 = untouched_step [OF untouched_refl [OF assms(1)] 1 runtime_keeps(2)]
  note u2 = untouched_step [OF u1 2 runtime_keeps(1)]
  note u3 = untouched_step [OF u2 3 lock_txn_keeps]
  have inv: "etcd_inv er1" "etcd_inv er2" "etcd_inv er3" using u1 u2 u3 by (simp_all add: untouched_def)
  have c2: "contents er2 = contents er"
    using runtime_store(2) [OF assms(1)] runtime_store(1) [OF inv(1)] 1 2 by simp
  have own: "ownHostname er3 = ownHostname er"
    using own_of_runtimeCall [OF 1] own_of_runtimeCall [OF 2] own_of_call [OF 3] by simp
  note step = assms(2) [unfolded tryLock_eq [OF 1 2 3], symmetric]
  show "contents er' = contents er \<and> ownHostname er' = ownHostname er" if "res = None"
  proof -
    have "er' = lockSleep er3 \<and> txn = Inr False"
      using step that
      by (auto simp: map_prod_def split_beta split: if_splits option.splits sum.splits)
    with lock_txn(2) [OF inv(2), of ?lk "ownHostname er" ls False er3] 3 c2 own
      runtime_store(3) [OF inv(3)] show ?thesis by simp
  qed
  assume "res = Some Acquired"
  then have t: "txn = Inr True" and k: "keepLock ?lk ls er3 = (Acquired, er')"
    using step
    by (auto simp: prod_eq_iff split: if_splits option.splits sum.splits)
  show "contents er ?lk = None \<and>
      contents er' = (contents er)(?lk \<mapsto> (ownHostname er, Some ls)) \<and>
      ownHostname er' = ownHostname er"
    using lock_txn [OF inv(2) 3 [unfolded t]] keepLock_acquired [OF inv(3) k] c2 own
    by simp
qed

lemma acquireLoop_effect:
  assumes "acquireLoop (lockPath key) ls start er = Some (Acquired, er')" and "etcd_inv er"
  shows "contents er (lockPath key) = None \<and>
      contents er' = (contents er)(lockPath key \<mapsto> (ownHostname er, Some ls)) \<and>
      ownHostname er' = ownHostname er"
proof -
  let ?lk = "lockPath key"
  let ?P = "\<lambda>lk ls start er y. lk = ?lk \<longrightarrow> etcd_inv er \<longrightarrow> fst y = Acquired \<longrightarrow>
      contents er ?lk = None \<and> contents (snd y) = (contents er)(?lk \<mapsto> (ownHostname er, Some ls)) \<and>
      ownHostname (snd y) = ownHostname er"
  have "?P ?lk ls start er (Acquired, er')"
  proof (rule acquireLoop.raw_induct [where P = ?P, OF _ assms(1)], intro impI)
    fix loop :: "string \<Rightarrow> LeaseID \<Rightarrow> Time \<Rightarrow> 'a EtcdRegistry \<Rightarrow> (acquired \<times> 'a EtcdRegistry) option"
      and lk ls start er y
    assume IH: "\<And>lk ls start er y. loop lk ls start er = Some y \<Longrightarrow> ?P lk ls start er y"
      and body: "(case tryLock lk ls start er of (Some res, er1) \<Rightarrow> Some (res, er1)
        | (None, er1) \<Rightarrow> loop lk ls start er1) = Some y"
      and lk: "lk = ?lk" and inv: "etcd_inv er" and y: "fst y = Acquired"
    obtain r er1 where t: "tryLock ?lk ls start er = (r, er1)" by force
    have inv1: "etcd_inv er1"
      using tryLock_keeps [OF untouched_refl [OF inv], of key ls start] t by (simp add: untouched_def)
    show "contents er ?lk = None \<and> contents (snd y) = (contents er)(?lk \<mapsto> (ownHostname er, Some ls)) \<and>
      ownHostname (snd y) = ownHostname er"
    proof (cases r)
      case None
      with body t lk have "loop lk ls start er1 = Some y" by simp
      from IH [OF this] lk inv1 y tryLock_effect(1) [OF inv t None] show ?thesis by simp
    next
      case (Some a)
      with body t lk have "y = (a, er1)" by simp
      with tryLock_effect(2) [OF inv t] Some y show ?thesis by simp
    qed
  qed
  with assms(2) show ?thesis by simp
qed

text \<open>All locks are taken only if no key was there, and nothing else changes.\<close>

lemma acquireAll_effect:
  assumes "acquireAll keys leases er = Some (Inr held, er')" and "etcd_inv er" and "distinct keys"
  shows "ownHostname er' = ownHostname er \<and>
    (\<forall>key \<in> set keys. contents er (lockPath key) = None \<and>
      (\<exists>ls. contents er' (lockPath key) = Some (ownHostname er, Some ls))) \<and>
    (\<forall>k. k \<notin> lockPath ` set keys \<longrightarrow> contents er' k = contents er k)"
  using assms
proof (induction keys arbitrary: leases er)
  case (Cons key keys)
  let ?lk = "lockPath key"
  obtain granted er1 where 1: "call (\<lambda>c. etcdGrant c (trunc (LockTTL (etcdCfg er)))) er = (granted, er1)"
    by force
  obtain ls where ls: "granted = Inr ls" using Cons.prems(1) 1 by (cases granted) auto
  obtain start er2 where now: "runtimeCall timeNow er1 = (start, er2)" by force
  obtain out er3 where loop: "acquireLoop ?lk ls start er2 = Some (out, er3)"
    using Cons.prems(1) 1 ls now by (auto simp: Let_def split: option.splits)
  have out: "out = Acquired" and
    rest: "acquireAll keys (leases @ [\<lparr>lockKey = ?lk, lease = ls\<rparr>]) er3 = Some (Inr held, er')"
    using Cons.prems(1) 1 ls now loop
    by (cases out; auto simp: split_beta)+
  note u1 = untouched_step [OF untouched_refl [OF Cons.prems(2)] 1 grant_keeps]
  note u2 = untouched_step [OF u1 now runtime_keeps(2)]
  have inv: "etcd_inv er1" "etcd_inv er2" "etcd_inv er3"
    using u1 u2 acquireLoop_keeps [OF loop u2] by (simp_all add: untouched_def)
  have c2: "contents er2 = contents er" "ownHostname er2 = ownHostname er"
    using call_store(1) [OF Cons.prems(2), of "trunc (LockTTL (etcdCfg er))"] runtime_store(2) [OF inv(1)]
      1 now own_of_call [OF 1] own_of_runtimeCall [OF now] by simp_all
  note taken = acquireLoop_effect [OF loop [unfolded out] inv(2)]
  have "distinct keys" and new: "key \<notin> set keys" using Cons.prems(3) by simp_all
  note IH = Cons.IH [OF rest inv(3) this(1)]
  have "?lk \<notin> lockPath ` set keys" using new by auto
  then have "contents er' ?lk = contents er3 ?lk" using IH by blast
  then have "\<exists>ls. contents er' ?lk = Some (ownHostname er, Some ls)" using taken c2 by simp
  moreover have "contents er (lockPath k) = None" if "k \<in> set keys" for k
  proof -
    have "contents er3 (lockPath k) = None" and "k \<noteq> key" using IH that new by blast+
    then show ?thesis using taken c2 by simp
  qed
  moreover have "ownHostname er' = ownHostname er" using IH taken c2 by simp
  moreover have "contents er' k = contents er k" if "k \<notin> lockPath ` set (key # keys)" for k
    using IH taken c2 that by auto
  moreover have "contents er ?lk = None" using taken c2 by simp
  moreover have "ownHostname er3 = ownHostname er" using taken c2 by simp
  ultimately show ?case using IH by auto
qed simp

text \<open>
  A lock key in the store keeps the function from running; otherwise the function runs with every
  key stored under the own name.
\<close>

theorem LockTransaction_exclusive:
  assumes "etcd_inv er" and "LockTransaction keys fn (vars, er) = Some (out, vars', er')"
  shows "(\<exists>er1. (\<forall>key \<in> set keys. contents er (lockPath key) = None \<and>
        (\<exists>ls. contents er1 (lockPath key) = Some (ownHostname er, Some ls))) \<and>
      etcd_inv er1 \<and> fst (fn (vars, er1)) = out) \<or>
    (\<exists>err. out = Returned (Some err) \<and> vars' = vars)"
proof -
  obtain res er1 where acq: "acquireAll (sort (remdups keys)) [] er = Some (res, er1)"
    using assms(2) by (auto simp: LockTransaction_def Let_def split: option.splits)
  have inv1: "etcd_inv er1"
    using acquireAll_keeps [OF acq untouched_refl [OF assms(1)]] by (simp add: untouched_def)
  show ?thesis
  proof (cases res)
    case (Inl err)
    with assms(2) acq show ?thesis by (auto simp: LockTransaction_def Let_def)
  next
    case (Inr held)
    obtain o2 vars2 er2 where fn: "fn (vars, er1) = (o2, vars2, er2)" using prod_cases3 by blast
    have "out = o2"
      using assms(2) acq Inr fn by (cases o2) (auto simp: LockTransaction_def Let_def)
    moreover have "\<forall>key \<in> set keys. contents er (lockPath key) = None \<and>
        (\<exists>ls. contents er1 (lockPath key) = Some (ownHostname er, Some ls))"
      using acquireAll_effect [OF acq [unfolded Inr] assms(1)] by simp
    ultimately show ?thesis using fn inv1 by (intro disjI1 exI [of _ er1]) simp
  qed
qed

corollary LockTransaction_held:
  assumes "etcd_inv er" and "key \<in> set keys" and "contents er (lockPath key) \<noteq> None"
    and "LockTransaction keys fn (vars, er) = Some (out, vars', er')"
  shows "\<exists>err. out = Returned (Some err) \<and> vars' = vars"
  using LockTransaction_exclusive [OF assms(1,4)] assms(2,3) by (elim disjE exE conjE) auto


subsection \<open>The locks are released\<close>

text \<open>A client whose deletes succeed.\<close>

definition deletes_succeed :: "'e etcdClient \<Rightarrow> bool" where
  "deletes_succeed cl \<longleftrightarrow> (\<forall>k w. fst (etcdDelete cl k w) = None)"

text \<open>A key that is absent stays absent when another one is released.\<close>

lemma releaseLock_effect:
  assumes "etcd_inv er" and "deletes_succeed (client er)" and "lockKey l = lockPath key"
    and "k = lockKey l \<or> contents er k = None"
  shows "contents (releaseLock l er) k = None"
proof -
  obtain x er1 where 1: "call (\<lambda>c. etcdDelete c (lockKey l)) er = (x, er1)" by force
  obtain y er2 where 2: "call (\<lambda>c. etcdRevoke c (lease l)) er1 = (y, er2)" by force
  obtain w where del: "etcdDelete (client er) (lockKey l) (world er) = (x, w)" and er1: "er1 = er\<lparr>world := w\<rparr>"
    using 1 by (auto simp: call_def split: prod.splits)
  have "x = None" using assms(2) del by (metis deletes_succeed_def fst_conv)
  with delete_result [OF assms(1) del] er1 have "contents er1 = (contents er)(lockKey l := None)"
    by (auto simp: write_result_def contents_def)
  with assms(4) have k: "contents er1 k = None" by auto
  have "keeps (call (\<lambda>c. etcdDelete c (lockKey l)))" unfolding assms(3) by (rule lock_delete_keeps)
  note u1 = untouched_step [OF untouched_refl [OF assms(1)] 1 this]
  obtain w2 where rev: "etcdRevoke (client er1) (lease l) (world er1) = (y, w2)" and er2: "er2 = er1\<lparr>world := w2\<rparr>"
    using 2 by (auto simp: call_def split: prod.splits)
  have "etcd_inv er1" using u1 by (simp add: untouched_def)
  from revoke_result [OF this rev] k er2 have "contents er2 k = None"
    by (auto simp: write_result_def contents_def)
  then show ?thesis by (simp add: releaseLock_def 1 2)
qed

lemma releaseLocks_effect:
  "etcd_inv er \<Longrightarrow> deletes_succeed (client er) \<Longrightarrow> \<forall>l \<in> set held. \<exists>key. lockKey l = lockPath key \<Longrightarrow>
   k \<in> lockKey ` set held \<or> contents er k = None \<Longrightarrow>
   contents (fold releaseLock held er) k = None"
proof (induction held arbitrary: er)
  case (Cons l held)
  obtain key where key: "lockKey l = lockPath key" using Cons.prems(3) by auto
  have "untouched er (releaseLock l er)"
    by (rule releaseLock_keeps [OF untouched_refl [OF Cons.prems(1)] key])
  then have inv: "etcd_inv (releaseLock l er)" and cl: "client (releaseLock l er) = client er"
    by (simp_all add: untouched_def same_view_def)
  have "contents (releaseLock l er) k = None" if "k = lockKey l \<or> contents er k = None"
    by (rule releaseLock_effect [OF Cons.prems(1,2) key that])
  then have "k \<in> lockKey ` set held \<or> contents (releaseLock l er) k = None"
    using Cons.prems(4) by auto
  with Cons.IH [OF inv] Cons.prems(2,3) cl show ?case by simp
qed simp

text \<open>After the function has run, the locks are gone.\<close>

theorem LockTransaction_released:
  assumes "etcd_inv er" and "LockTransaction keys fn (vars, er) = Some (out, vars', er')"
    and "acquireAll (sort (remdups keys)) [] er = Some (Inr held, er1)"
    and "fn (vars, er1) = (Returned err, vars', er2)" and "etcd_inv er2"
    and "deletes_succeed (client er2)" and "key \<in> set keys"
  shows "contents er' (lockPath key) = None"
proof -
  have er': "er' = fold releaseLock (rev held) er2"
    using assms(2-4) by (simp add: LockTransaction_def)
  have held: "map lockKey held = map lockPath (sort (remdups keys))"
    using acquireAll_leases [OF assms(3)] by simp
  then have "set (map lockKey held) = lockPath ` set keys" by simp
  then have keys: "lockKey ` set held = lockPath ` set keys" by simp
  then have "\<forall>l \<in> set (rev held). \<exists>key. lockKey l = lockPath key" by auto
  moreover have "lockPath key \<in> lockKey ` set (rev held)" using keys assms(7) by simp
  ultimately show ?thesis
    unfolding er' using releaseLocks_effect [OF assms(5,6)] by blast
qed


subsection \<open>What the function finds\<close>

text \<open>A function that runs under the locks finds all other keys as they were.\<close>

lemma LockTransaction_locked:
  assumes "etcd_inv er" and "LockTransaction keys fn (vars, er) = Some (Returned None, vars', er')"
  obtains er1 er2 where "untouched er er1" and "fn (vars, er1) = (Returned None, vars', er2)"
    and "etcd_inv er2 \<Longrightarrow> untouched er2 er'"
    and "\<And>k. k \<notin> lockPath ` set keys \<Longrightarrow> contents er1 k = contents er k"
proof -
  obtain res er1 where acq: "acquireAll (sort (remdups keys)) [] er = Some (res, er1)"
    using assms(2) by (auto simp: LockTransaction_def Let_def split: option.splits)
  obtain held where held: "res = Inr held"
    using assms(2) acq by (cases res) (auto simp: LockTransaction_def Let_def)
  obtain o2 vars2 er2 where fn: "fn (vars, er1) = (o2, vars2, er2)" using prod_cases3 by blast
  have run: "o2 = Returned None" "vars2 = vars'" "er' = fold releaseLock (rev held) er2"
    using assms(2) acq held fn by (cases o2; auto simp: LockTransaction_def)+
  have "lockKey ` set held = lockPath ` set keys"
    using arg_cong [OF acquireAll_leases [OF acq [unfolded held]], of set] by simp
  then have "\<forall>l \<in> set (rev held). \<exists>key. lockKey l = lockPath key" by (auto simp: set_eq_iff image_iff)
  then have "untouched er2 er'" if "etcd_inv er2"
    using releaseLocks_keeps [OF untouched_refl [OF that]] run(3) by simp
  moreover have "untouched er er1" by (rule acquireAll_keeps [OF acq untouched_refl [OF assms(1)]])
  moreover have "contents er1 k = contents er k" if "k \<notin> lockPath ` set keys" for k
    using acquireAll_effect [OF acq [unfolded held] assms(1)] that by simp
  ultimately show thesis using fn run(1,2) that by blast
qed

lemma List_contents: "etcd_inv er \<Longrightarrow> contents (snd (List' er)) = contents er"
proof -
  assume inv: "etcd_inv er"
  obtain res er1 where get: "call (\<lambda>c. etcdGet c (pathPrefix er) [WithPrefix, WithSerializable]) er = (res, er1)"
    by force
  have "reads_ok (client er)" using inv by (simp add: etcd_inv_def etcd_ok_def)
  then have "store (client er) (snd (etcdGet (client er) (pathPrefix er) [WithPrefix, WithSerializable] (world er)))
      = store (client er) (world er)"
    unfolding reads_ok_def by simp
  then have "contents er1 = contents er" using get by (auto simp: call_def contents_def split: prod.splits)
  then show ?thesis
    using get by (cases res) (auto simp: List'_def Let_def incEtcdError_def contents_def)
qed

lemma heartbeatKey_not_lock: "heartbeatKey h \<noteq> lockPath key"
  by (simp add: heartbeatKey_def lockPath_def HeartbeatKeyPrefix_def)


subsection \<open>The attempt ends\<close>

text \<open>
  \<open>clk\<close> is the reading of the clock: no operation turns it back, and a sleep advances it by its
  length.
\<close>

definition clock_ok :: "'e etcdClient \<Rightarrow> 'e runtime \<Rightarrow> ('e \<Rightarrow> Time) \<Rightarrow> bool" where
  "clock_ok cl rt clk \<longleftrightarrow>
     (\<forall>w. fst (timeNow rt w) = clk w \<and> clk (snd (timeNow rt w)) \<ge> clk w) \<and>
     (\<forall>w. clk (snd (ctxErr rt w)) \<ge> clk w) \<and>
     (\<forall>d w. d > 0 \<longrightarrow> clk (timeSleep rt d w) \<ge> clk w + d) \<and>
     (\<forall>cmps ops w. clk (snd (etcdTxn cl cmps ops w)) \<ge> clk w)"

definition retry_positive :: "'e EtcdRegistry \<Rightarrow> bool" where
  "retry_positive er \<longleftrightarrow> trunc (LockRetryInterval (etcdCfg er) * 1000000000) > 0"

lemma TimeSub_below:
  assumes "TimeSub now start < timeout" and "timeout \<le> maxDuration"
  shows "now - start < timeout"
  using assms by (auto simp: TimeSub_def minDuration_def maxDuration_def min_def max_def split: if_splits)

lemma lockTimeout_bound: "lockTimeout er \<le> maxDuration"
  using sint_lt [of "word_of_int (trunc (LockTimeout (etcdCfg er)) * 1000000000) :: 64 word"]
  by (simp add: lockTimeout_def maxDuration_def)

text \<open>A round that goes on started before the timeout and moves the clock.\<close>

lemma tryLock_clock:
  assumes "clock_ok (client er) (env er) clk" and "retry_positive er"
    and "tryLock lk ls start er = (None, er')"
  shows "clk (world er) - start < lockTimeout er" and "clk (world er') > clk (world er)"
    and "client er' = client er \<and> env er' = env er \<and> etcdCfg er' = etcdCfg er"
proof -
  obtain now w1 where 1: "timeNow (env er) (world er) = (now, w1)" by force
  obtain ctx w2 where 2: "ctxErr (env er) w1 = (ctx, w2)" by force
  obtain txn w3 where 3: "etcdTxn (client er) [CreateRevisionZero lk] [OpPut lk (ownHostname er) ls] w2 = (txn, w3)"
    by force
  let ?d = "trunc (LockRetryInterval (etcdCfg er) * 1000000000)"
  have a: "runtimeCall timeNow er = (now, er\<lparr>world := w1\<rparr>)" by (simp add: runtimeCall_def 1)
  have b: "runtimeCall ctxErr (er\<lparr>world := w1\<rparr>) = (ctx, er\<lparr>world := w2\<rparr>)"
    by (simp add: runtimeCall_def 2)
  have c: "call (\<lambda>c. etcdTxn c [CreateRevisionZero lk] [OpPut lk (ownHostname er) ls])
      (er\<lparr>world := w2\<rparr>) = (txn, er\<lparr>world := w3\<rparr>)" by (simp add: call_def 3)
  have step: "(if \<not> TimeSub now start < lockTimeout er then (Some TimedOut, er\<lparr>world := w1\<rparr>)
       else case ctx of Some err \<Rightarrow> (Some (AcquireError err), er\<lparr>world := w2\<rparr>)
         | None \<Rightarrow> (case txn of
             Inl err \<Rightarrow> (Some (AcquireError (''acquire lock '' @ Quote lk @ '': '' @ err)),
               incEtcdError (er\<lparr>world := w3\<rparr>))
           | Inr b \<Rightarrow> if b then map_prod Some id (keepLock lk ls (er\<lparr>world := w3\<rparr>))
               else (None, lockSleep (er\<lparr>world := w3\<rparr>)))) = (None, er')"
    using assms(3) unfolding tryLock_eq [OF a b c] .
  then have now: "TimeSub now start < lockTimeout er" and er': "er' = er\<lparr>world := timeSleep (env er) ?d w3\<rparr>"
    by (auto simp: lockSleep_def map_prod_def split_beta split: if_splits option.splits sum.splits)
  have clk: "now = clk (world er)" "clk w1 \<ge> clk (world er)" "clk w2 \<ge> clk w1" "clk w3 \<ge> clk w2"
    using assms(1) 1 2 3 unfolding clock_ok_def by (metis fst_conv snd_conv)+
  then show "clk (world er) - start < lockTimeout er"
    using TimeSub_below [OF now lockTimeout_bound] by simp
  have "clk (timeSleep (env er) ?d w3) \<ge> clk w3 + ?d"
    using assms(1,2) unfolding clock_ok_def retry_positive_def by blast
  with clk er' assms(2) show "clk (world er') > clk (world er)" by (simp add: retry_positive_def)
  show "client er' = client er \<and> env er' = env er \<and> etcdCfg er' = etcdCfg er" using er' by simp
qed

theorem acquireLoop_returns:
  assumes "clock_ok (client er) (env er) clk" and "retry_positive er"
  shows "\<exists>res. acquireLoop lk ls start er = Some res"
  using assms
proof (induction "nat (start + lockTimeout er - clk (world er))" arbitrary: er rule: less_induct)
  case less
  obtain r er1 where t: "tryLock lk ls start er = (r, er1)" by force
  show ?case
  proof (cases r)
    case None
    note step = tryLock_clock [OF less.prems t [unfolded None]]
    have "lockTimeout er1 = lockTimeout er" and rp: "retry_positive er1"
      using step(3) less.prems(2) by (simp_all add: lockTimeout_def retry_positive_def)
    then have "nat (start + lockTimeout er1 - clk (world er1)) <
        nat (start + lockTimeout er - clk (world er))"
      using step(1,2) by simp
    from less.hyps [OF this _ rp] less.prems(1) step(3)
    show ?thesis by (subst acquireLoop.simps) (simp add: t None)
  qed (subst acquireLoop.simps, simp add: t)
qed

lemma acquireAll_returns:
  assumes "untouched er0 er" and "clock_ok (client er) (env er) clk" and "retry_positive er"
  shows "\<exists>res. acquireAll keys leases er = Some res"
  using assms
proof (induction keys arbitrary: leases er)
  case (Cons key keys)
  obtain granted er1 where 1: "call (\<lambda>c. etcdGrant c (trunc (LockTTL (etcdCfg er)))) er = (granted, er1)"
    by force
  show ?case
  proof (cases granted)
    case (Inr ls)
    obtain start er2 where now: "runtimeCall timeNow er1 = (start, er2)" by force
    note u1 = untouched_step [OF Cons.prems(1) 1 grant_keeps]
    note u2 = untouched_step [OF u1 now runtime_keeps(2)]
    have config: "untouched er0 er' \<Longrightarrow> client er' = client er \<and> env er' = env er \<and> etcdCfg er' = etcdCfg er" for er'
      using Cons.prems(1) by (simp add: untouched_def same_view_def)
    have clock: "untouched er0 er' \<Longrightarrow> clock_ok (client er') (env er') clk \<and> retry_positive er'" for er'
      using config [of er'] Cons.prems(2,3) by (simp add: retry_positive_def)
    obtain out er3 where loop: "acquireLoop (lockPath key) ls start er2 = Some (out, er3)"
      using acquireLoop_returns [of er2 clk "lockPath key" ls start] clock [OF u2] by auto
    have u3: "untouched er0 er3" by (rule acquireLoop_keeps [OF loop u2])
    obtain res where "acquireAll keys (leases @ [\<lparr>lockKey = lockPath key, lease = ls\<rparr>]) er3 = Some res"
      using Cons.IH [OF u3] clock [OF u3] by blast
    with 1 Inr now loop show ?thesis by (cases out) (simp_all add: split_beta)
  qed (simp add: 1)
qed simp

theorem LockTransaction_returns:
  assumes "etcd_inv er" and "clock_ok (client er) (env er) clk" and "retry_positive er"
  shows "\<exists>res. LockTransaction keys fn (vars, er) = Some res"
proof -
  obtain res er1 where acq: "acquireAll (sort (remdups keys)) [] er = Some (res, er1)"
    using acquireAll_returns [OF untouched_refl [OF assms(1)] assms(2,3)] by fastforce
  obtain out vars2 er2 where "fn (vars, er1) = (out, vars2, er2)" using prod_cases3 by blast
  then show ?thesis by (cases res; cases out) (simp_all add: LockTransaction_def acq)
qed

end
