(* ===== verification/Etcd_Engine.thy ===== *)
theory Etcd_Engine
  imports Etcd_Lock
begin

text \<open>
  The engine running on the etcd registry: the facts of the engine's interface, transported to etcd
  and joined with what the reconciler computes.  A tick always returns; a tick without an error
  keeps the zone free of conflicts; a host that is alone with its prefix reaches, in one tick,
  the records it wants, and stays there.
\<close>

subsection \<open>A tick returns\<close>

theorem tick_returns:
  assumes "etcd_inv (registry e)" and "orders_ok ords"
    and "clock_ok (client (registry e)) (env (registry e)) clk" and "retry_positive (registry e)"
  shows "\<exists>e'. tick ords ord cfg (etcdUpstream lz) start finish e = Some e'"
proof -
  let ?fn = "reconcilePass ords ord cfg (etcdUpstream lz) (memory e)"
  obtain out vars r where run: "LockTransaction [''__global__''] ?fn (noVars, registry e) = Some (out, vars, r)"
    using LockTransaction_returns [OF assms(1,3,4)] by fastforce
  have "out \<noteq> Panicked"
    using LockTransaction_exclusive [OF assms(1) run] reconcilePass_returns [OF assms(2)]
    by (metis outcome.distinct(1))
  then obtain err where "out = Returned err" by (cases out) auto
  with run show ?thesis by (simp add: tick_def etcdUpstream_def)
qed


subsection \<open>The zone after a pass\<close>

text \<open>Intents with the key of a removed one are erased with it.\<close>

lemma erased_key:
  assumes "plain_intent d" and "plain_intent q" and "Intent_Key q = Intent_Key d"
  shows "erases d q"
  using Intent_Key_Equal [OF assms(1,2)] assms(3) by (intro erases_self) simp

lemma pass_result_applied:
  assumes "\<forall>q \<in> set actual. plain_intent q" and "set rem \<subseteq> set actual"
  shows "pass_result erases (set actual) add rem \<subseteq> set (applied actual add rem)"
  using assms erased_key by (fastforce simp: pass_result_def applied_def)

theorem pass_zone_ok:
  assumes "orders_ok ords" and "zone_ok (set actual)" and "\<forall>q \<in> set actual. plain_intent q"
    and plan: "planned ords ord cfg s actual live filtered add rem"
  shows "zone_ok (pass_result erases (set actual) add rem)"
proof -
  obtain filtered' where "FilterRecordIntents ords (GetAllDesiredRecordIntents ord s) = Some filtered'"
    "set filtered' = {r. kept (GetAllDesiredRecordIntents ord s) r}"
    using FilterRecordIntents_kept [OF assms(1)] by blast
  then have "zone_ok (set filtered)" using plan by (simp add: planned_def zone_ok_kept)
  then have "zone_ok (set (applied actual add rem))"
    using zone_ok_applied [OF assms(1,2)] plan by (auto simp: planned_def)
  moreover have "set rem \<subseteq> set actual"
    using reconcile_adds_desired(2) [OF assms(1), of filtered actual cfg live add rem] plan
    by (simp add: planned_def)
  ultimately show ?thesis
    using pass_result_applied [OF assms(3)] by (meson zone_ok_subset)
qed

text \<open>What a successful tick has done.\<close>

lemma tick_success:
  assumes "etcd_inv (registry e)" and "orders_ok ords" and "\<not> DryRun cfg"
    and "\<forall>d \<in> set (GetAllDesiredRecordIntents ord (memory e)). storable lz d"
    and "tick ords ord cfg (etcdUpstream lz) start finish e = Some e'"
    and "health e' = Some s" and "lastReconcileErr s = None"
  obtains actual live filtered add rem where "set actual = etcd_zone (registry e)"
    and "planned ords ord cfg (memory e) actual live filtered add rem"
    and "set filtered = {r. kept (GetAllDesiredRecordIntents ord (memory e)) r}"
    and "etcd_zone (registry e') = pass_result erases (set actual) add rem"
    and "etcd_inv (registry e')"
proof -
  have inv: "etcd_inv (registry e')"
    and "tick_done erases ords ord cfg (memory e) (etcd_zone (registry e)) (etcd_zone (registry e')) None"
    using etcd.tick_effect [OF assms(1-5)] assms(6,7) by auto
  then obtain actual live filtered add rem where 1: "set actual = etcd_zone (registry e)"
    and 2: "planned ords ord cfg (memory e) actual live filtered add rem"
    and 3: "etcd_zone (registry e') = pass_result erases (set actual) add rem"
    unfolding tick_done_def by auto
  have "set filtered = {r. kept (GetAllDesiredRecordIntents ord (memory e)) r}"
    using FilterRecordIntents_kept [OF assms(2), of "GetAllDesiredRecordIntents ord (memory e)"] 2
    by (auto simp: planned_def)
  with 1 2 3 inv show thesis by (intro that)
qed

theorem tick_zone_ok:
  assumes "etcd_inv (registry e)" and "orders_ok ords" and "\<not> DryRun cfg"
    and "\<forall>d \<in> set (GetAllDesiredRecordIntents ord (memory e)). storable lz d"
    and "tick ords ord cfg (etcdUpstream lz) start finish e = Some e'"
    and "health e' = Some s" and "lastReconcileErr s = None"
    and "zone_ok (etcd_zone (registry e))" and "\<forall>q \<in> etcd_zone (registry e). plain_intent q"
  shows "zone_ok (etcd_zone (registry e'))"
proof (rule tick_success [OF assms(1-7)])
  fix actual live filtered add rem
  assume "set actual = etcd_zone (registry e)"
    and "planned ords ord cfg (memory e) actual live filtered add rem"
    and "etcd_zone (registry e') = pass_result erases (set actual) add rem"
  with pass_zone_ok [OF assms(2), of actual] assms(8,9) show ?thesis by simp
qed


subsection \<open>A host among others\<close>

text \<open>No name of the zone lies below another one with the same data.\<close>

definition erases_own_name :: "RecordIntent set \<Rightarrow> bool" where
  "erases_own_name Z \<longleftrightarrow> (\<forall>d \<in> Z. \<forall>q \<in> Z. erases d q \<longrightarrow> Name (Rec q) = Name (Rec d))"

lemma erases_own_name_mono: "erases_own_name Z \<Longrightarrow> Z' \<subseteq> Z \<Longrightarrow> erases_own_name Z'"
  unfolding erases_own_name_def by blast

lemma plain_known: "plain_intent d \<Longrightarrow> known (Rec d)"
  by (auto simp: plain_intent_def record_ok_def known_def kind_simps)

lemma same_record:
  assumes "zone_ok Z" and "q \<in> Z" and "r \<in> Z" and "Rec q = Rec r" and "known (Rec r)"
  shows "q = r"
proof (rule ccontr)
  assume "q \<noteq> r"
  with zone_okD [OF assms(1-3)] have "compatible (Rec r) (Rec r)" using assms(4) by simp
  then show False using same_slot_incompatible [OF assms(5), of "Rec r"] by simp
qed

lemma erases_only_itself:
  assumes "zone_ok Z" and "erases_own_name Z" and "\<forall>q \<in> Z. plain_intent q"
    and "d \<in> Z" and "q \<in> Z" and "erases d q"
  shows "q = d"
proof -
  have "Name (Rec q) = Name (Rec d)" using assms(2,4-6) by (auto simp: erases_own_name_def)
  then have "Rec q = Rec d"
    using assms(6) by (auto simp: erases_def recordMatches_def wireOf_def intro: Record_eqI)
  then show ?thesis using same_record [OF assms(1,5,4)] plain_known assms(3,4) by blast
qed

text \<open>
  The records of a host among those of others: the other owners are alive, and their records are
  compatible with what the host wants.
\<close>

abbreviation own :: "AppConfig \<Rightarrow> RecordIntent set \<Rightarrow> RecordIntent set" where
  "own cfg Z \<equiv> {q \<in> Z. Hostname q = AppHostname cfg}"

definition foreign_ok ::
  "AppConfig \<Rightarrow> string list option \<Rightarrow> RecordIntent set \<Rightarrow> RecordIntent \<Rightarrow> bool"
where
  "foreign_ok cfg live D q \<longleftrightarrow> Hostname q \<noteq> AppHostname cfg \<longrightarrow>
     (\<forall>hs. live = Some hs \<longrightarrow> Hostname q \<in> set hs) \<and> (\<forall>d \<in> D. compatible (Rec d) (Rec q))"

definition apart ::
  "AppConfig \<Rightarrow> string list option \<Rightarrow> RecordIntent list \<Rightarrow> RecordIntent list \<Rightarrow> bool"
where
  "apart cfg live actual target \<longleftrightarrow>
     zone_ok (set actual) \<and> erases_own_name (set actual) \<and> zone_ok (set target) \<and>
     (\<forall>q \<in> set actual. plain_intent q \<and> foreign_ok cfg live (set target) q) \<and>
     (\<forall>d \<in> set target. plain_intent d \<and> IsAddress (Rec d) \<and> Hostname d = AppHostname cfg)"

lemma apartD:
  assumes "apart cfg live actual target"
  shows "zone_ok (set actual)" and "erases_own_name (set actual)" and "zone_ok (set target)"
    and "q \<in> set actual \<Longrightarrow> plain_intent q"
    and "d \<in> set target \<Longrightarrow> plain_intent d" and "d \<in> set target \<Longrightarrow> IsAddress (Rec d)"
    and "d \<in> set target \<Longrightarrow> record_ok (Rec d)" and "d \<in> set target \<Longrightarrow> Hostname d = AppHostname cfg"
  using assms by (auto simp: apart_def plain_intent_def)

lemma apart_foreign:
  assumes "apart cfg live actual target" and "q \<in> set actual" and "Hostname q \<noteq> AppHostname cfg"
  shows "\<not> removable target cfg live q" and "d \<in> set target \<Longrightarrow> compatible (Rec d) (Rec q)"
  using assms by (auto simp: apart_def foreign_ok_def removable_def)

lemma plain_twin:
  assumes "plain_intent q" and "plain_intent r" and "Intent_Key q = Intent_Key r"
  shows "Intent_Equal q r" and "Rec q = Rec r" and "Hostname q = Hostname r"
  using Intent_Key_Equal [OF assms(1,2)] assms(3) Intent_Equal_Rec [of q r]
  by (auto simp: Intent_Equal_def)

lemma apart_twin:
  assumes "apart cfg live actual target" and "q \<in> set actual" and "r \<in> set target"
    and "Intent_Key q = Intent_Key r"
  shows "Intent_Equal q r" and "Rec q = Rec r" and "Hostname q = AppHostname cfg"
  using plain_twin [OF _ _ assms(4)] apartD [OF assms(1)] assms(2,3) by auto

lemma apart_run:
  assumes "apart cfg live actual target" and "orders_ok ords"
    and "ReconcileAndValidate ords target actual cfg live = Some (add, rem)"
  shows "set add = fst (reconciled target actual cfg live)"
    and "Intent_Key ` set rem = snd (reconciled target actual cfg live)"
  using reconciled_run [OF assms(2) apartD(1,3,7) [OF assms(1)], of cfg live] assms(3) by auto

text \<open>What stays of the host's records without being wanted is nothing.\<close>

lemma apart_unwanted:
  assumes ap: "apart cfg live actual target" and ords: "orders_ok ords"
    and run: "ReconcileAndValidate ords target actual cfg live = Some (add, rem)"
    and q: "q \<in> own cfg (pass_result erases (set actual) add rem)"
  shows "Intent_Key q \<in> Intent_Key ` set target"
proof (rule ccontr)
  assume no: "Intent_Key q \<notin> Intent_Key ` set target"
  have "set add \<subseteq> set target" using reconcile_adds_desired [OF ords run] by simp
  with q no have qa: "q \<in> set actual" and stays: "\<not> (\<exists>d \<in> set rem. erases d q)"
    by (auto simp: pass_result_def)
  then have "removable target cfg live q" using no q by (simp add: removable_def)
  then have "Intent_Key q \<in> Intent_Key ` set rem"
    using qa reconciled_keys apart_run(2) [OF ap ords run] by blast
  then obtain d where d: "d \<in> set rem" "Intent_Key q = Intent_Key d" by auto
  moreover have "set rem \<subseteq> set actual" using reconcile_adds_desired [OF ords run] by simp
  ultimately have "erases d q" using erased_key apartD(4) [OF ap] qa by blast
  with stays d(1) show False by blast
qed

text \<open>A wanted record that is there is not removed, nor is a foreign one.\<close>

lemma apart_not_removed:
  assumes ap: "apart cfg live actual target" and q: "q \<in> set actual"
    and keep: "Hostname q \<noteq> AppHostname cfg \<or> Intent_Key q \<in> Intent_Key ` set target"
  shows "Intent_Key q \<notin> snd (reconciled target actual cfg live)"
proof
  let ?S = "stays target cfg live actual" and ?R = "reconciled target actual cfg live"
  assume "Intent_Key q \<in> snd ?R"
  then consider p where "p \<in> set actual" "removable target cfg live p" "Intent_Key p = Intent_Key q"
    | d p where "d \<in> fst ?R" "p \<in> competitors ?S d" "Intent_Key p = Intent_Key q"
    unfolding reconciled_keys by force
  then show False
  proof cases
    case 1
    have "Hostname p = Hostname q"
      using plain_twin(3) [OF _ _ 1(3)] apartD(4) [OF ap] 1(1) q by blast
    with apart_foreign(1) [OF ap 1(1)] 1(2) keep have "Intent_Key q \<in> Intent_Key ` set target" by auto
    with 1 show False by (auto simp: removable_def)
  next
    case 2
    have d: "d \<in> set target" "\<not> settled ?S d"
      using 2(1) added_wins unfolding reconciled_def by blast+
    have p: "p \<in> set actual" "\<not> compatible (Rec d) (Rec p)"
      using 2(2) by (auto simp: competitors_def stays_def)
    then have own: "Hostname p = AppHostname cfg" using apart_foreign(2) [OF ap _ _ d(1)] by blast
    have "Hostname p = Hostname q"
      using plain_twin(3) [OF _ _ 2(3)] apartD(4) [OF ap] p(1) q by blast
    then obtain r where r: "r \<in> set target" "Intent_Key p = Intent_Key r"
      using keep own 2(3) by auto
    note twin = apart_twin [OF ap p(1) r]
    then have "\<not> compatible (Rec d) (Rec r)" using p(2) by simp
    then have "d = r" using zone_okD [OF apartD(3) [OF ap] d(1) r(1)] by blast
    with d(2) 2(2) twin(1) show False by (auto simp: settled_def)
  qed
qed

text \<open>A wanted record that is not there has no competitor and is added.\<close>

lemma apart_added:
  assumes ap: "apart cfg live actual target" and r: "r \<in> set target"
    and new: "Intent_Key r \<notin> Intent_Key ` set actual"
  shows "r \<in> fst (reconciled target actual cfg live)"
proof -
  let ?S = "stays target cfg live actual"
  have "competitors ?S r = {}"
  proof (rule ccontr)
    assume "competitors ?S r \<noteq> {}"
    then obtain q where q: "q \<in> set actual" "\<not> removable target cfg live q" "\<not> compatible (Rec r) (Rec q)"
      by (auto simp: competitors_def stays_def)
    then have "Hostname q = AppHostname cfg" using apart_foreign(2) [OF ap _ _ r] by blast
    then obtain d where d: "d \<in> set target" "Intent_Key q = Intent_Key d"
      using q(2) by (auto simp: removable_def)
    from apart_twin(2) [OF ap q(1) d] have "d = r"
      using zone_okD [OF apartD(3) [OF ap] r d(1)] q(3) by auto
    with new q(1) d(2) show False by (metis imageI)
  qed
  then have "\<not> settled ?S r" "wins ?S r" by (auto simp: settled_def wins_def)
  moreover have "\<not> IsCNAME (Rec r)" using apartD(6) [OF ap r] address_not_cname by blast
  ultimately show ?thesis using reconciled_address r by blast
qed

text \<open>What the plan does not remove stays.\<close>

lemma apart_stays:
  assumes ap: "apart cfg live actual target" and ords: "orders_ok ords"
    and run: "ReconcileAndValidate ords target actual cfg live = Some (add, rem)"
    and q: "q \<in> set actual"
    and keep: "Hostname q \<noteq> AppHostname cfg \<or> Intent_Key q \<in> Intent_Key ` set target"
  shows "q \<in> pass_result erases (set actual) add rem"
proof -
  have "q \<notin> set rem"
    using apart_not_removed [OF ap q keep] apart_run(2) [OF ap ords run] by blast
  moreover have "q = d" if "d \<in> set rem" "erases d q" for d
  proof -
    have "d \<in> set actual" using reconcile_adds_desired(2) [OF ords run] that(1) by blast
    then show ?thesis
      using erases_only_itself [OF apartD(1,2) [OF ap] _ _ q that(2)] apartD(4) [OF ap] by blast
  qed
  ultimately show ?thesis using q by (auto simp: pass_result_def)
qed

text \<open>A pass of such a host leaves exactly its wanted records, and those of the others as they are.\<close>

theorem apart_pass:
  assumes ap: "apart cfg live actual target" and ords: "orders_ok ords"
    and run: "ReconcileAndValidate ords target actual cfg live = Some (add, rem)"
  shows "Intent_Key ` own cfg (pass_result erases (set actual) add rem) = Intent_Key ` set target"
    and "pass_result erases (set actual) add rem - own cfg (pass_result erases (set actual) add rem) =
      set actual - own cfg (set actual)"
proof -
  let ?Z = "pass_result erases (set actual) add rem"
  have add: "set add \<subseteq> set target" using reconcile_adds_desired [OF ords run] by simp
  show "Intent_Key ` own cfg ?Z = Intent_Key ` set target"
  proof (intro subset_antisym subsetI)
    fix k assume "k \<in> Intent_Key ` own cfg ?Z"
    then show "k \<in> Intent_Key ` set target" using apart_unwanted [OF ap ords run] by blast
  next
    fix k assume "k \<in> Intent_Key ` set target"
    then obtain r where r: "r \<in> set target" "k = Intent_Key r" by blast
    show "k \<in> Intent_Key ` own cfg ?Z"
    proof (cases "Intent_Key r \<in> Intent_Key ` set actual")
      case True
      then obtain q where q: "q \<in> set actual" "Intent_Key q = Intent_Key r" by auto
      have "q \<in> ?Z" by (rule apart_stays [OF ap ords run q(1)]) (use q r in blast)
      with apart_twin(3) [OF ap q(1) r(1) q(2)] have "q \<in> own cfg ?Z" by simp
      then have "Intent_Key q \<in> Intent_Key ` own cfg ?Z" by (rule imageI)
      then show ?thesis by (simp add: q(2) r(2))
    next
      case False
      from apart_added [OF ap r(1) this] apart_run(1) [OF ap ords run] r apartD(8) [OF ap r(1)]
      show ?thesis by (auto simp: pass_result_def)
    qed
  qed
  have "q \<in> ?Z" if "q \<in> set actual" "Hostname q \<noteq> AppHostname cfg" for q
    using apart_stays [OF ap ords run] that by blast
  then show "?Z - own cfg ?Z = set actual - own cfg (set actual)"
    using add apartD(8) [OF ap] by (auto simp: pass_result_def)
qed

text \<open>Once the wanted records are there, a pass changes nothing.\<close>

lemma apart_steady:
  assumes ap: "apart cfg live actual target" and ords: "orders_ok ords"
    and same: "Intent_Key ` own cfg (set actual) = Intent_Key ` set target"
  shows "ReconcileAndValidate ords target actual cfg live = Some ([], [])"
proof -
  have "\<exists>q \<in> set actual. Intent_Equal q d" if "d \<in> set target" for d
  proof -
    have "Intent_Key d \<in> Intent_Key ` own cfg (set actual)" using same that by blast
    then obtain q where "q \<in> set actual" "Intent_Key q = Intent_Key d" by auto
    then show ?thesis using apart_twin(1) [OF ap _ that] by blast
  qed
  then have "settled (stays target cfg live actual) d" if "d \<in> set target" for d
    using that settledI plain_known apartD(5) [OF ap] by blast
  moreover have "\<not> removable target cfg live q" if q: "q \<in> set actual" for q
  proof (cases "Hostname q = AppHostname cfg")
    case True
    then have "Intent_Key q \<in> Intent_Key ` set target" unfolding same [symmetric] using q by blast
    then show ?thesis by (simp add: removable_def)
  next
    case False
    from apart_foreign(1) [OF ap q this] show ?thesis .
  qed
  ultimately have "reconciled target actual cfg live = ({}, {})" by (intro reconciled_steady)
  with reconciled_run [OF ords apartD(1,3,7) [OF ap], of cfg live] show ?thesis by auto
qed


subsection \<open>A host that is alone with its prefix\<close>

text \<open>
  The host owns every record of the zone, the containers want valid address records, and no name
  lies below another one with the same data.
\<close>

definition alone_on :: "AppConfig \<Rightarrow> RecordIntent set \<Rightarrow> RecordIntent list \<Rightarrow> bool" where
  "alone_on cfg Z desired \<longleftrightarrow>
     zone_ok Z \<and> erases_own_name (Z \<union> {r. kept desired r}) \<and>
     (\<forall>q \<in> Z. plain_intent q \<and> Hostname q = AppHostname cfg) \<and>
     (\<forall>d \<in> set desired. plain_intent d \<and> IsAddress (Rec d) \<and> Hostname d = AppHostname cfg)"

lemma alone_on_apart:
  assumes "alone_on cfg (set actual) desired" and "set target = {r. kept desired r}"
  shows "apart cfg live actual target" and "own cfg (set actual) = set actual"
  using assms kept_mem zone_ok_kept [of desired]
  by (auto simp: alone_on_def apart_def foreign_ok_def erases_own_name_def)

theorem tick_converges:
  assumes "etcd_inv (registry e)" and "orders_ok ords" and "\<not> DryRun cfg"
    and "\<forall>d \<in> set (GetAllDesiredRecordIntents ord (memory e)). storable lz d"
    and "tick ords ord cfg (etcdUpstream lz) start finish e = Some e'"
    and "health e' = Some s" and "lastReconcileErr s = None"
    and "alone_on cfg (etcd_zone (registry e)) (GetAllDesiredRecordIntents ord (memory e))"
  shows "Intent_Key ` etcd_zone (registry e') =
    Intent_Key ` {r. kept (GetAllDesiredRecordIntents ord (memory e)) r}"
proof (rule tick_success [OF assms(1-7)])
  fix actual live filtered add rem
  assume 1: "set actual = etcd_zone (registry e)"
    and plan: "planned ords ord cfg (memory e) actual live filtered add rem"
    and f: "set filtered = {r. kept (GetAllDesiredRecordIntents ord (memory e)) r}"
    and Z: "etcd_zone (registry e') = pass_result erases (set actual) add rem"
  have on: "alone_on cfg (set actual) (GetAllDesiredRecordIntents ord (memory e))"
    by (simp add: 1 assms(8))
  have "ReconcileAndValidate ords filtered actual cfg live = Some (add, rem)"
    using plan by (simp add: planned_def)
  note pass = apart_pass [OF alone_on_apart(1) [OF on f] assms(2) this]
  from pass(2) have "own cfg (pass_result erases (set actual) add rem) = pass_result erases (set actual) add rem"
    using alone_on_apart(2) [OF on f] by blast
  with pass(1) show ?thesis by (simp add: Z f)
qed

text \<open>The assumptions hold again after the tick, and the next tick has nothing to do.\<close>

lemma tick_alone:
  assumes "etcd_inv (registry e)" and "orders_ok ords" and "\<not> DryRun cfg"
    and "\<forall>d \<in> set (GetAllDesiredRecordIntents ord (memory e)). storable lz d"
    and "tick ords ord cfg (etcdUpstream lz) start finish e = Some e'"
    and "health e' = Some s" and "lastReconcileErr s = None"
    and "alone_on cfg (etcd_zone (registry e)) (GetAllDesiredRecordIntents ord (memory e))"
  shows "alone_on cfg (etcd_zone (registry e')) (GetAllDesiredRecordIntents ord (memory e))"
proof (rule tick_success [OF assms(1-7)])
  let ?D = "GetAllDesiredRecordIntents ord (memory e)"
  fix actual live filtered add rem
  assume 1: "set actual = etcd_zone (registry e)"
    and plan: "planned ords ord cfg (memory e) actual live filtered add rem"
    and f: "set filtered = {r. kept ?D r}"
    and Z: "etcd_zone (registry e') = pass_result erases (set actual) add rem"
  have "set add \<subseteq> set filtered"
    using reconcile_adds_desired(1) [OF assms(2), of filtered actual cfg live add rem] plan
    by (simp add: planned_def)
  then have sub: "etcd_zone (registry e') \<subseteq> etcd_zone (registry e) \<union> {r. kept ?D r}"
    using 1 f Z by (auto simp: pass_result_def)
  have on: "zone_ok (set actual)" "\<forall>q \<in> set actual. plain_intent q"
    using assms(8) 1 by (auto simp: alone_on_def)
  have "zone_ok (etcd_zone (registry e'))"
    unfolding Z by (rule pass_zone_ok [OF assms(2) on plan])
  moreover have "erases_own_name (etcd_zone (registry e') \<union> {r. kept ?D r})"
    by (rule erases_own_name_mono) (use assms(8) sub in \<open>auto simp: alone_on_def\<close>)
  ultimately show ?thesis
    using assms(8) sub kept_mem by (fastforce simp: alone_on_def)
qed

theorem tick_settles:
  assumes "etcd_inv (registry e)" and "orders_ok ords" and "\<not> DryRun cfg"
    and "\<forall>d \<in> set (GetAllDesiredRecordIntents ord (memory e)). storable lz d"
    and "tick ords ord cfg (etcdUpstream lz) start finish e = Some e1"
    and "health e1 = Some s" and "lastReconcileErr s = None"
    and "alone_on cfg (etcd_zone (registry e)) (GetAllDesiredRecordIntents ord (memory e))"
    and "orders_ok ords2" and "tick ords2 ord cfg (etcdUpstream lz) start2 finish2 e1 = Some e2"
  shows "etcd_zone (registry e2) = etcd_zone (registry e1)"
proof -
  let ?D = "GetAllDesiredRecordIntents ord (memory e)"
  have keys: "Intent_Key ` etcd_zone (registry e1) = Intent_Key ` {r. kept ?D r}"
    by (rule tick_converges [OF assms(1-8)])
  have on: "alone_on cfg (etcd_zone (registry e1)) ?D" by (rule tick_alone [OF assms(1-8)])
  have inv: "etcd_inv (registry e1)" and mem: "memory e1 = memory e"
    using etcd.tick_effect [OF assms(1-5)] by simp_all
  have st: "\<forall>d \<in> set (GetAllDesiredRecordIntents ord (memory e1)). storable lz d"
    using assms(4) by (simp add: mem)
  obtain err where "etcd_zone (registry e2) = etcd_zone (registry e1) \<or>
      tick_done erases ords2 ord cfg (memory e1) (etcd_zone (registry e1)) (etcd_zone (registry e2)) err"
    using etcd.tick_effect [OF inv assms(9,3) st assms(10)] by blast
  then show ?thesis
  proof
    assume "tick_done erases ords2 ord cfg (memory e1) (etcd_zone (registry e1)) (etcd_zone (registry e2)) err"
    then obtain actual live filtered add rem where 1: "set actual = etcd_zone (registry e1)"
      and plan: "planned ords2 ord cfg (memory e) actual live filtered add rem"
      and bounds: "pass_bounds erases (etcd_zone (registry e1)) add rem (etcd_zone (registry e2))"
      unfolding tick_done_def mem by blast
    have f: "set filtered = {r. kept ?D r}"
      using FilterRecordIntents_kept [OF assms(9), of ?D] plan by (auto simp: planned_def)
    have on': "alone_on cfg (set actual) ?D" by (simp add: 1 on)
    have "Intent_Key ` own cfg (set actual) = Intent_Key ` set filtered"
      using alone_on_apart(2) [OF on' f] keys 1 f by simp
    from apart_steady [OF alone_on_apart(1) [OF on' f] assms(9) this] have "add = [] \<and> rem = []"
      using plan by (simp add: planned_def)
    with bounds show ?thesis by (auto simp: pass_bounds_def)
  qed
qed

end
