(* ===== verification/Memory_Client.thy ===== *)
theory Memory_Client
  imports Etcd_Engine "HOL-Library.AList"
begin

text \<open>
  An etcd client over a list of keys in memory, with a clock that each reading and each sleep
  advances.  It shows that the documented behaviour the registry is verified against can be met,
  and is what the concrete runs use.  When \<open>up\<close> is false every call fails and changes nothing.
\<close>

record kv_state =
  kvs :: "(string \<times> string \<times> LeaseID option) list"
  leases :: int
  clock :: Time
  up :: bool

definition unavailable :: string where "unavailable = ''unavailable''"

definition mem_apply :: "etcd_op \<Rightarrow> kv_state \<Rightarrow> kv_state" where
  "mem_apply op w =
     (case op of
        OpPut k v ls \<Rightarrow> w\<lparr>kvs := AList.update k (v, Some ls) (kvs w)\<rparr>
      | OpDelete k \<Rightarrow> w\<lparr>kvs := AList.delete k (kvs w)\<rparr>)"

definition mem_holds :: "kv_state \<Rightarrow> etcd_cmp \<Rightarrow> bool" where
  "mem_holds w c = (case c of CreateRevisionZero k \<Rightarrow> map_of (kvs w) k = None)"

definition mem_get ::
  "string \<Rightarrow> get_option list \<Rightarrow> kv_state \<Rightarrow> (string + (string \<times> string) list) \<times> kv_state"
where
  "mem_get k opts w =
     (let hits = filter (\<lambda>(key, v, l). HasPrefix key k) (AList.clearjunk (kvs w)) in
      if up w \<and> length hits < 1000 then
        (Inr (map (\<lambda>(key, v, l). (key, if WithKeysOnly \<in> set opts then [] else v)) hits), w)
      else (Inl unavailable, w))"

definition guarded :: "kv_state \<Rightarrow> kv_state \<Rightarrow> string option \<times> kv_state" where
  "guarded w w' = (if up w then (None, w') else (Some unavailable, w))"

definition memClient :: "kv_state etcdClient" where
  "memClient =
     \<lparr>etcdGet = mem_get,
      etcdPut = (\<lambda>k v l w. guarded w (w\<lparr>kvs := AList.update k (v, l) (kvs w)\<rparr>)),
      etcdDelete = (\<lambda>k w. guarded w (w\<lparr>kvs := AList.delete k (kvs w)\<rparr>)),
      etcdGrant = (\<lambda>ttl w. if up w then (Inr (leases w), w\<lparr>leases := leases w + 1\<rparr>)
                           else (Inl unavailable, w)),
      etcdTxn = (\<lambda>cmps ops w.
        if \<not> up w then (Inl unavailable, w)
        else if list_all (mem_holds w) cmps then (Inr True, fold mem_apply ops w) else (Inr False, w)),
      etcdRevoke = (\<lambda>ls w. guarded w
        (w\<lparr>kvs := filter (\<lambda>(k, v, l). l \<noteq> Some ls) (AList.clearjunk (kvs w))\<rparr>)),
      etcdKeepAlive = (\<lambda>ls w. guarded w w),
      etcdClose = (\<lambda>w. (None, w)),
      store = (\<lambda>w. map_of (kvs w))\<rparr>"

definition memRuntime :: "kv_state runtime" where
  "memRuntime =
     \<lparr>ctxErr = (\<lambda>w. (None, w)),
      timeNow = (\<lambda>w. (clock w, w\<lparr>clock := clock w + 1\<rparr>)),
      timeSleep = (\<lambda>d w. w\<lparr>clock := clock w + (if d > 0 then d else 0)\<rparr>)\<rparr>"

lemmas memClient_simps [simp] = memClient_def memRuntime_def guarded_def


subsection \<open>It behaves as documented\<close>

lemma map_of_filter:
  "distinct (map fst al) \<Longrightarrow>
   map_of (filter (\<lambda>(k, v, l). P k v l) al) k =
     (case map_of al k of None \<Rightarrow> None | Some (v, l) \<Rightarrow> if P k v l then Some (v, l) else None)"
  by (induction al) (auto split: option.splits simp: map_of_eq_None_iff rev_image_eqI)

lemma mem_fold: "map_of (kvs (fold mem_apply ops w)) = fold apply_op ops (map_of (kvs w))"
  by (induction ops arbitrary: w)
    (auto simp: mem_apply_def update_conv' delete_conv' split: etcd_op.splits)

lemma mem_fold_clock: "clock (fold mem_apply ops w) = clock w"
  by (induction ops arbitrary: w) (auto simp: mem_apply_def split: etcd_op.splits)

lemma mem_hits:
  fixes al :: "(string \<times> string \<times> LeaseID option) list"
  assumes hits: "hits = map (\<lambda>(key, v, l). (key, f v)) (filter (\<lambda>(key, v, l). HasPrefix key k) (AList.clearjunk al))"
  shows "distinct (map fst hits)"
    and "fst ` set hits = {key. map_of al key \<noteq> None \<and> HasPrefix key k}"
    and "(key, v) \<in> set hits \<Longrightarrow> \<exists>u l. map_of al key = Some (u, l) \<and> v = f u"
proof -
  let ?al = "AList.clearjunk al"
  have d: "distinct (map fst ?al)" by (rule distinct_clearjunk)
  have fsts: "map fst hits = map fst (filter (\<lambda>(key, v, l). HasPrefix key k) ?al)"
    by (simp add: hits split_beta comp_def)
  have "map fst (filter (\<lambda>(key, v, l). HasPrefix key k) ?al) = filter (\<lambda>key. HasPrefix key k) (map fst ?al)"
    by (simp add: filter_map comp_def case_prod_unfold)
  with fsts d show "distinct (map fst hits)" by simp
  have "fst ` set hits = {key \<in> fst ` set ?al. HasPrefix key k}"
    by (force simp: hits)
  also have "fst ` set ?al = dom (map_of al)" by (metis dom_map_of_conv_image_fst map_of_clearjunk)
  finally show "fst ` set hits = {key. map_of al key \<noteq> None \<and> HasPrefix key k}" by (auto simp: dom_def)
  assume "(key, v) \<in> set hits"
  then obtain u l where "(key, u, l) \<in> set ?al" "v = f u" by (auto simp: hits)
  moreover from this(1) d have "map_of ?al key = Some (u, l)" by simp
  ultimately show "\<exists>u l. map_of al key = Some (u, l) \<and> v = f u" by (simp add: map_of_clearjunk)
qed

lemma mem_reads: "reads_ok memClient"
proof -
  have "store memClient (snd (mem_get k opts w)) = store memClient w" for k opts w
    by (simp add: mem_get_def Let_def)
  moreover have "length hits < 2 ^ 62 \<and> distinct (map fst hits) \<and>
      fst ` set hits = {key. store memClient w key \<noteq> None \<and> HasPrefix key k} \<and>
      (WithKeysOnly \<notin> set opts \<longrightarrow>
        (\<forall>(key, v) \<in> set hits. map_option fst (store memClient w key) = Some v))"
    if "fst (mem_get k opts w) = Inr hits" for k opts w hits
  proof -
    let ?f = "\<lambda>v. if WithKeysOnly \<in> set opts then [] else v"
    have hits: "hits = map (\<lambda>(key, v, l). (key, ?f v))
        (filter (\<lambda>(key, v, l). HasPrefix key k) (AList.clearjunk (kvs w)))" and "length hits < 1000"
      using that by (auto simp: mem_get_def Let_def split: if_splits)
    then have "length hits < 2 ^ 62" by simp
    moreover have "map_option fst (map_of (kvs w) key) = Some v"
      if "WithKeysOnly \<notin> set opts" and "(key, v) \<in> set hits" for key v
      using mem_hits(3) [OF hits that(2)] that(1) by auto
    ultimately show ?thesis using mem_hits(1,2) [OF hits] by auto
  qed
  ultimately show ?thesis unfolding reads_ok_def by (simp add: memClient_def)
qed

lemma mem_writes: "writes_ok memClient"
  by (auto simp: writes_ok_def write_result_def update_conv' delete_conv')

lemma mem_leases: "leases_ok memClient"
proof -
  have "map_of (filter (\<lambda>(k, v, l). l \<noteq> Some ls) (AList.clearjunk al)) k =
      (case map_of al k of Some (v, l) \<Rightarrow> if l = Some ls then None else Some (v, l) | None \<Rightarrow> None)"
    for ls k and al :: "(string \<times> string \<times> LeaseID option) list"
    using map_of_filter [OF distinct_clearjunk, of "\<lambda>k v l. l \<noteq> Some ls" al k]
    by (auto simp: map_of_clearjunk split: option.splits)
  then show ?thesis by (auto simp: leases_ok_def write_result_def)
qed

lemma mem_txns: "txns_ok memClient"
proof -
  have "mem_holds w = cmp_holds (map_of (kvs w))" for w
    by (auto simp: fun_eq_iff mem_holds_def cmp_holds_def)
  then show ?thesis by (auto simp: txns_ok_def mem_fold)
qed

lemma mem_ok: "etcd_ok memClient memRuntime"
  using mem_reads mem_writes mem_leases mem_txns by (auto simp: etcd_ok_def runtime_ok_def)

lemma mem_clock: "clock_ok memClient memRuntime clock"
  by (auto simp: clock_ok_def mem_fold_clock)

end
