(* ===== verification/Config_Load.thy ===== *)
theory Config_Load
  imports Etcd_Registry
begin

text \<open>
  The rest of \<^verbatim>\<open>internal/config\<close>: \<open>Load\<close> and \<open>ClientTLS\<close>.  Reading the settings (\<^verbatim>\<open>initConfig\<close>,
  the library's \<^verbatim>\<open>Unmarshal\<close>) and the TLS material (\<^verbatim>\<open>LoadX509KeyPair\<close>, \<^verbatim>\<open>ReadFile\<close>,
  \<^verbatim>\<open>AppendCertsFromPEM\<close>) goes to files and the environment: their results are arguments.
\<close>

subsection \<open>Load\<close>

datatype load_error = InitError string | DecodeError string | InvalidConfig config_error

text \<open>\<open>init\<close> is the error of \<^verbatim>\<open>initConfig\<close>, \<open>decoded\<close> the result of decoding the settings.\<close>

definition Load :: "string option \<Rightarrow> string + Config \<Rightarrow> load_error + Config" where
  "Load init decoded =
     (case init of
        Some err \<Rightarrow> Inl (InitError err)
      | None \<Rightarrow>
          (case decoded of
             Inl err \<Rightarrow> Inl (DecodeError (''unable to decode into struct: '' @ err))
           | Inr cfg \<Rightarrow>
               (case validate cfg of
                  Some err \<Rightarrow> Inl (InvalidConfig err)
                | None \<Rightarrow> Inr cfg)))"

lemma Load_valid: "Load init decoded = Inr cfg \<Longrightarrow> decoded = Inr cfg \<and> validate cfg = None"
  by (auto simp: Load_def split: option.splits sum.splits)


subsection \<open>TLS\<close>

text \<open>\<open>VersionTLS12\<close> of \<^verbatim>\<open>crypto/tls\<close>; certificates and pools are the library's.\<close>

definition VersionTLS12 :: int where "VersionTLS12 = 0x0303"

record ('cert, 'pool) tlsConfig =
  MinVersion :: int
  SkipVerify :: bool
  Certificates :: "'cert list"
  RootCAs :: "'pool option"

definition loadKeyPair ::
  "(string \<Rightarrow> string \<Rightarrow> string + 'cert) \<Rightarrow> EtcdTLSConfig \<Rightarrow> ('cert, 'pool) tlsConfig \<Rightarrow>
   string + ('cert, 'pool) tlsConfig"
where
  "loadKeyPair keyPair t cfg =
     (if CertFile t \<noteq> [] \<or> KeyFile t \<noteq> [] then
        (case keyPair (CertFile t) (KeyFile t) of
           Inl err \<Rightarrow> Inl (''load etcd client keypair: '' @ err)
         | Inr cert \<Rightarrow> Inr (cfg\<lparr>Certificates := [cert]\<rparr>))
      else Inr cfg)"

definition loadRootCAs ::
  "(string \<Rightarrow> string + string) \<Rightarrow> (string \<Rightarrow> 'pool option) \<Rightarrow> EtcdTLSConfig \<Rightarrow>
   ('cert, 'pool) tlsConfig \<Rightarrow> string + ('cert, 'pool) tlsConfig"
where
  "loadRootCAs readFile appendCerts t cfg =
     (if CAFile t \<noteq> [] then
        (case readFile (CAFile t) of
           Inl err \<Rightarrow> Inl (''read etcd CA file: '' @ err)
         | Inr pem \<Rightarrow>
             (case appendCerts pem of
                None \<Rightarrow> Inl (''no certificates found in etcd CA file '' @ Quote (CAFile t))
              | Some pool \<Rightarrow> Inr (cfg\<lparr>RootCAs := Some pool\<rparr>)))
      else Inr cfg)"

text \<open>The result \<open>Inr None\<close> is the nil config: no TLS.\<close>

definition ClientTLS ::
  "(string \<Rightarrow> string \<Rightarrow> string + 'cert) \<Rightarrow> (string \<Rightarrow> string + string) \<Rightarrow> (string \<Rightarrow> 'pool option) \<Rightarrow>
   EtcdConfig \<Rightarrow> string + ('cert, 'pool) tlsConfig option"
where
  "ClientTLS keyPair readFile appendCerts c =
     (let t = TLS c in
      if \<not> Configured t then
        if hasHTTPSEndpoint c then
          Inr (Some \<lparr>MinVersion = VersionTLS12, SkipVerify = False, Certificates = [], RootCAs = None\<rparr>)
        else Inr None
      else
        let cfg = \<lparr>MinVersion = VersionTLS12, SkipVerify = InsecureSkipVerify t, Certificates = [],
              RootCAs = None\<rparr>
        in case loadKeyPair keyPair t cfg of
             Inl err \<Rightarrow> Inl err
           | Inr cfg1 \<Rightarrow>
               (case loadRootCAs readFile appendCerts t cfg1 of
                  Inl err \<Rightarrow> Inl err
                | Inr cfg2 \<Rightarrow> Inr (Some cfg2)))"

lemmas [go_eval] = Load_def VersionTLS12_def loadKeyPair_def loadRootCAs_def ClientTLS_def

text \<open>The connection is encrypted exactly when \<open>UsesTLS\<close> says so.\<close>

lemma ClientTLS_encrypts:
  "ClientTLS keyPair readFile appendCerts c = Inr res \<Longrightarrow> res \<noteq> None \<longleftrightarrow> UsesTLS c"
  by (auto simp: ClientTLS_def UsesTLS_def Let_def split: if_splits sum.splits)

lemma loadKeyPair_fields:
  "loadKeyPair keyPair t cfg = Inr cfg' \<Longrightarrow>
     MinVersion cfg' = MinVersion cfg \<and> SkipVerify cfg' = SkipVerify cfg \<and> RootCAs cfg' = RootCAs cfg \<and>
     (CertFile t \<noteq> [] \<longrightarrow> Certificates cfg' \<noteq> [])"
  by (auto simp: loadKeyPair_def split: if_splits sum.splits)

lemma loadRootCAs_fields:
  "loadRootCAs readFile appendCerts t cfg = Inr cfg' \<Longrightarrow>
     MinVersion cfg' = MinVersion cfg \<and> SkipVerify cfg' = SkipVerify cfg \<and>
     Certificates cfg' = Certificates cfg \<and> (CAFile t \<noteq> [] \<longrightarrow> RootCAs cfg' \<noteq> None)"
  by (auto simp: loadRootCAs_def split: if_splits sum.splits option.splits)

text \<open>
  No setting is dropped: a TLS configuration asks for TLS 1.2, verifies the server unless told not
  to, and has the client certificate and the root that the settings name.
\<close>

lemma ClientTLS_fields:
  assumes "ClientTLS keyPair readFile appendCerts c = Inr (Some cfg)"
  shows "MinVersion cfg = VersionTLS12"
    and "SkipVerify cfg \<longleftrightarrow> InsecureSkipVerify (TLS c)"
    and "CertFile (TLS c) \<noteq> [] \<Longrightarrow> Certificates cfg \<noteq> []"
    and "CAFile (TLS c) \<noteq> [] \<Longrightarrow> RootCAs cfg \<noteq> None"
  using assms
  by (auto simp: ClientTLS_def Configured_def Let_def split: if_splits sum.splits
      dest!: loadKeyPair_fields loadRootCAs_fields)

text \<open>A validated configuration uses TLS exactly when one of its endpoints is an https one.\<close>

lemma validate_https:
  assumes "validate c = None"
  shows "UsesTLS (Etcd c) \<longleftrightarrow> (\<exists>e \<in> set (Endpoints (Etcd c)). HasPrefix e ''https://'')"
  using assms unfolding validate_def hasHTTPSEndpoint_iff [symmetric] UsesTLS_def
  by (auto split: if_splits option.splits)

end
