(* ===== verification/Http_Server.thy ===== *)
theory Http_Server
  imports Etcd_Registry
begin

text \<open>
  \<^verbatim>\<open>internal/httpserver/server.go\<close>: the routes, and the life of the listener.  Serving requests
  is the library's; here, what the handler answers to one.
\<close>

subsection \<open>The handler\<close>

text \<open>\<open>Exposition\<close> is the page of the metrics library's handler.\<close>

datatype response = Reply int string | Exposition

definition StatusOK :: int where "StatusOK = 200"
definition StatusServiceUnavailable :: int where "StatusServiceUnavailable = 503"
definition StatusNotFound :: int where "StatusNotFound = 404"

definition healthz :: response where
  "healthz = Reply StatusOK ''ok''"

definition readyz :: "Time \<Rightarrow> Status \<Rightarrow> response" where
  "readyz now s =
     (let (ready, reason) = Ready now s in
      if \<not> ready then Reply StatusServiceUnavailable reason else Reply StatusOK ''ok'')"

text \<open>
  The answer of the handler at the time \<open>now\<close>, for a path that is clean (the library redirects the
  others): of an unregistered one, the \<^verbatim>\<open>NotFound\<close> of the library.
\<close>

definition Handler :: "Status option \<Rightarrow> bool \<Rightarrow> Time \<Rightarrow> string \<Rightarrow> response" where
  "Handler status metricsHandler now path =
     (let statusRoutes = (case status of
            None \<Rightarrow> []
          | Some s \<Rightarrow> [(''/healthz'', healthz), (''/readyz'', readyz now s)]);
          metricsRoutes = (if metricsHandler then [(''/metrics'', Exposition)] else [])
      in case map_of (statusRoutes @ metricsRoutes) path of
           Some answer \<Rightarrow> answer
         | None \<Rightarrow> Reply StatusNotFound (''404 page not found'' @ [char_of (10::nat)]))"


subsection \<open>The server\<close>

text \<open>The arguments the handler was built with: whether there is a status, and a metrics handler.\<close>

record server =
  serverAddr :: string
  serverStatus :: bool
  serverMetrics :: bool

text \<open>\<open>bound\<close> is the error of \<^verbatim>\<open>net.Listen\<close>.\<close>

definition NewServer :: "string option \<Rightarrow> string \<Rightarrow> bool \<Rightarrow> bool \<Rightarrow> string + server" where
  "NewServer bound addr status metricsHandler =
     (case bound of
        Some err \<Rightarrow> Inl (''bind HTTP server on '' @ Quote addr @ '': '' @ err)
      | None \<Rightarrow> Inr \<lparr>serverAddr = addr, serverStatus = status, serverMetrics = metricsHandler\<rparr>)"

text \<open>
  The goroutines of \<open>Start\<close>, as what they log: an error of the shutdown, and how serving ends unless
  the server or the listener was closed on purpose.
\<close>

datatype serve_result = ServerClosed | ErrListenerClosed | ServeFailed string

definition Start :: "string option \<Rightarrow> serve_result \<Rightarrow> string list" where
  "Start shutdownErr served =
     (case shutdownErr of None \<Rightarrow> [] | Some err \<Rightarrow> [''error shutting down HTTP server: '' @ err]) @
     (case served of ServeFailed err \<Rightarrow> [''HTTP server error: '' @ err] | _ \<Rightarrow> [])"

text \<open>What closing the listener gives: \<open>AlreadyClosed\<close> is the error \<^verbatim>\<open>net.ErrClosed\<close>.\<close>

datatype close_result = ListenerClosed | AlreadyClosed | CloseFailed string

definition closeServer :: "close_result \<Rightarrow> string option" where
  "closeServer res = (case res of CloseFailed err \<Rightarrow> Some err | _ \<Rightarrow> None)"

lemmas [go_eval] =
  StatusOK_def StatusServiceUnavailable_def StatusNotFound_def healthz_def readyz_def Handler_def
  NewServer_def Start_def closeServer_def


subsection \<open>Answers\<close>

lemma readyz_ok: "readyz now s = Reply StatusOK ''ok'' \<longleftrightarrow> fst (Ready now s)"
  by (auto simp: readyz_def StatusOK_def StatusServiceUnavailable_def split: prod.split)

lemma Handler_routes:
  "Handler (Some s) m now ''/healthz'' = Reply StatusOK ''ok''"
  "Handler (Some s) m now ''/readyz'' = readyz now s"
  "Handler status True now ''/metrics'' = Exposition"
  by (auto simp: Handler_def healthz_def split: option.split)

lemma Handler_NotFound:
  assumes "path \<in> {''/healthz'', ''/readyz''} \<longrightarrow> status = None"
    and "path = ''/metrics'' \<longrightarrow> \<not> m"
  shows "\<exists>body. Handler status m now path = Reply StatusNotFound body"
  using assms by (auto simp: Handler_def split: option.split)

lemma Ready_iff:
  "fst (Ready now s) \<longleftrightarrow>
     \<not> dryRun s \<and> dockerConnected s \<and> lastReconcileErr s = None \<and>
     \<not> IsZero (lastReconcileSuccess s) \<and> TimeSub now (lastReconcileSuccess s) \<le> readyThreshold s"
  by (auto simp: Ready_def split: option.splits)

end
