(* ===== verification/Events.thy ===== *)
theory Events
  imports Domain
begin

text \<open>
  \<^verbatim>\<open>internal/event\<close>: the generator of container events.  The Docker client is third-party code:
  what it returns (the listed containers, the messages and errors of the event stream) is an
  argument, as are the readings of the clock, the random numbers, and the moment the context is
  cancelled.  A run yields the trace of what the generator does to the world: events sent, calls of
  the observers, calls of \<^verbatim>\<open>Events\<close> and sleeps.
\<close>

subsection \<open>Conversions\<close>

text \<open>The fields the program reads of Docker's \<^verbatim>\<open>container.Summary\<close> and \<^verbatim>\<open>events.Message\<close>.\<close>

record Summary =
  sumID :: string
  sumNames :: "string list"
  sumCreated :: int
  sumLabels :: "(string \<times> string) list"

record Message =
  msgID :: string
  msgStatus :: string
  msgTimeNano :: int
  msgAttributes :: "(string \<times> string) list"

datatype event_error = UnsupportedEventTypeError EventType

definition event_error_message :: "event_error \<Rightarrow> string" where
  "event_error_message e =
     (case e of UnsupportedEventTypeError et \<Rightarrow> ''Unsupported event type: '' @ et)"

definition fromContainerSummary :: "Summary \<Rightarrow> ContainerEvent" where
  "fromContainerSummary c =
     (let name = (if length (sumNames c) > 0 then TrimPrefix (hd (sumNames c)) ''/'' else []) in
      \<lparr>Container =
         \<lparr>Id = sumID c, ContName = name, ContCreated = Unix (sumCreated c) 0, Labels = sumLabels c\<rparr>,
       EventType = EventTypeInitialContainerDetection,
       RunningContainerIds = []\<rparr>)"

definition fromEventsMessage :: "Message \<Rightarrow> event_error + ContainerEvent" where
  "fromEventsMessage msg =
     (let name = (case map_of (msgAttributes msg) ''name'' of None \<Rightarrow> [] | Some v \<Rightarrow> v);
          ev = \<lparr>Container =
                  \<lparr>Id = msgID msg, ContName = name, ContCreated = Unix 0 (msgTimeNano msg),
                   Labels = msgAttributes msg\<rparr>,
                EventType = msgStatus msg,
                RunningContainerIds = []\<rparr>
      in if \<not> EventType_IsValid (EventType ev) then Inl (UnsupportedEventTypeError (EventType ev))
         else Inr ev)"

definition resyncEvent :: "string list \<Rightarrow> ContainerEvent" where
  "resyncEvent runningIds =
     \<lparr>Container = \<lparr>Id = [], ContName = [], ContCreated = zeroTime, Labels = []\<rparr>,
      EventType = EventTypeResync, RunningContainerIds = runningIds\<rparr>"


subsection \<open>Options\<close>

text \<open>A \<^verbatim>\<open>time.Duration\<close> that is computed with is a 64-bit word, read signed.\<close>

type_synonym Duration = "64 word"

text \<open>The observers are optional; here, whether they are set.\<close>

record DockerGenerator =
  onConnectionChange :: bool
  onDisconnect :: bool
  bufferSize :: int
  reconnectInitial :: Duration
  reconnectMax :: Duration

definition defaultEventBufferSize :: int where "defaultEventBufferSize = 100"
definition defaultReconnectInitial :: Duration where "defaultReconnectInitial = 1000000000"
definition defaultReconnectMaxBackoff :: Duration where "defaultReconnectMaxBackoff = 30000000000"

definition WithEventBufferSize :: "int \<Rightarrow> DockerGenerator \<Rightarrow> DockerGenerator" where
  "WithEventBufferSize n dw = (if n > 0 then dw\<lparr>bufferSize := n\<rparr> else dw)"

definition WithReconnectBackoff ::
  "Duration \<Rightarrow> Duration \<Rightarrow> DockerGenerator \<Rightarrow> DockerGenerator"
where
  "WithReconnectBackoff initial maxB dw =
     (let dw1 = (if sint initial > 0 then dw\<lparr>reconnectInitial := initial\<rparr> else dw);
          dw2 = (if sint maxB > 0 then dw1\<lparr>reconnectMax := maxB\<rparr> else dw1)
      in if sint (reconnectMax dw2) < sint (reconnectInitial dw2)
         then dw2\<lparr>reconnectMax := reconnectInitial dw2\<rparr> else dw2)"

definition WithConnectionObserver :: "DockerGenerator \<Rightarrow> DockerGenerator" where
  "WithConnectionObserver dw = dw\<lparr>onConnectionChange := True\<rparr>"

definition WithDisconnectObserver :: "DockerGenerator \<Rightarrow> DockerGenerator" where
  "WithDisconnectObserver dw = dw\<lparr>onDisconnect := True\<rparr>"

definition NewDockerGenerator ::
  "(DockerGenerator \<Rightarrow> DockerGenerator) list \<Rightarrow> DockerGenerator"
where
  "NewDockerGenerator opts =
     fold (\<lambda>opt dw. opt dw) opts
       \<lparr>onConnectionChange = False, onDisconnect = False, bufferSize = defaultEventBufferSize,
        reconnectInitial = defaultReconnectInitial, reconnectMax = defaultReconnectMaxBackoff\<rparr>"


subsection \<open>Backoff\<close>

definition stableConnection :: "Time \<Rightarrow> Time \<Rightarrow> Duration \<Rightarrow> bool" where
  "stableConnection connectedAt now minUptime =
     (if IsZero connectedAt then False else TimeSub now connectedAt \<ge> sint minUptime)"

definition nextBackoff :: "Duration \<Rightarrow> Duration \<Rightarrow> Duration" where
  "nextBackoff cur maxB = (let next = cur * 2 in if sint next > sint maxB then maxB else next)"

text \<open>\<open>rand n\<close> is the number \<^verbatim>\<open>rand.Int63n(n)\<close> returns.\<close>

definition jitter :: "(int \<Rightarrow> int) \<Rightarrow> Duration \<Rightarrow> Duration" where
  "jitter rand d =
     (if sint d \<le> 0 then d else d + word_of_int (rand (sint d div 4 + 1)))"


subsection \<open>One connection cycle\<close>

text \<open>
  What the world does during a cycle: the result of \<^verbatim>\<open>ContainerList\<close>; how many sends on the
  output channel succeed before the context is cancelled; the time the stream connects; and what
  the \<^verbatim>\<open>select\<close> over the stream receives.  When the inputs are used up the context is done.
\<close>

datatype stream_input =
    ErrClosed
  | ErrReceived "string option"
  | EventsClosed
  | MessageReceived Message

record cycle =
  listed :: "string + Summary list"
  accepted :: nat
  connectNow :: Time
  inputs :: "stream_input list"

datatype gen_output =
    Sent ContainerEvent
  | EventsCall "(string \<times> string) list" Time
  | ConnectionChange bool
  | DisconnectNotice
  | Slept Duration

definition setConnected :: "DockerGenerator \<Rightarrow> bool \<Rightarrow> gen_output list" where
  "setConnected dw conn = (if onConnectionChange dw then [ConnectionChange conn] else [])"

definition notifyDisconnect :: "DockerGenerator \<Rightarrow> gen_output list" where
  "notifyDisconnect dw = (if onDisconnect dw then [DisconnectNotice] else [])"

text \<open>Sending a list of events: what is sent, and the sends left, or \<open>None\<close> when cancelled.\<close>

fun sendAll :: "nat \<Rightarrow> ContainerEvent list \<Rightarrow> gen_output list \<times> nat option" where
  "sendAll n [] = ([], Some n)"
| "sendAll 0 (ev # evs) = ([], None)"
| "sendAll (Suc n) (ev # evs) = (let (out, left) = sendAll n evs in (Sent ev # out, left))"

definition filterArgs :: "(string \<times> string) list" where
  "filterArgs =
     [(''type'', ''container''), (''event'', ''start''), (''event'', ''stop''), (''event'', ''die'')]"

text \<open>
  The loop over the stream, from the time \<open>since\<close>: the trace, the new \<open>since\<close>, whether the context
  is done, and the error it returns.
\<close>

fun streamLoop ::
  "nat \<Rightarrow> Time \<Rightarrow> stream_input list \<Rightarrow> gen_output list \<times> Time \<times> bool \<times> string option"
where
  "streamLoop n since [] = ([], since, True, None)"
| "streamLoop n since (ErrClosed # ins) = ([], since, False, None)"
| "streamLoop n since (ErrReceived (Some err) # ins) =
     ([], since, False, Some (''docker events stream: '' @ err))"
| "streamLoop n since (ErrReceived None # ins) = streamLoop n since ins"
| "streamLoop n since (EventsClosed # ins) = ([], since, False, None)"
| "streamLoop n since (MessageReceived msg # ins) =
     (let since' = (if msgTimeNano msg > 0 then Unix 0 (msgTimeNano msg) else since) in
      case fromEventsMessage msg of
        Inl convErr \<Rightarrow> streamLoop n since' ins
      | Inr event \<Rightarrow>
          (case n of
             0 \<Rightarrow> ([], since', True, None)
           | Suc m \<Rightarrow> (let (out, rest) = streamLoop m since' ins in (Sent event # out, rest))))"

text \<open>The trace, the new \<open>since\<close>, whether the context is done, \<open>connectedAt\<close> and the error.\<close>

definition runOnce ::
  "DockerGenerator \<Rightarrow> Time \<Rightarrow> cycle \<Rightarrow> gen_output list \<times> Time \<times> bool \<times> Time \<times> string option"
where
  "runOnce dw since c =
     (let notConnected = zeroTime in
      case listed c of
        Inl err \<Rightarrow> ([], since, False, notConnected, Some (''listing containers: '' @ err))
      | Inr containers \<Rightarrow>
          let runningIds = map sumID containers;
              (out1, left) = sendAll (accepted c)
                 (map fromContainerSummary containers @ [resyncEvent runningIds])
          in case left of
               None \<Rightarrow> (out1, since, True, notConnected, None)
             | Some n \<Rightarrow>
                 let (out2, since', cancelled, err) = streamLoop n since (inputs c)
                 in (out1 @ [EventsCall filterArgs since] @ setConnected dw True @ out2,
                     since', cancelled, connectNow c, err))"


subsection \<open>The subscription\<close>

text \<open>
  A cycle with what follows it: whether the context is done when it returns, the time after it,
  the random numbers of the jitter, and whether the sleep ends before the context is done.
\<close>

record attempt =
  attCycle :: cycle
  attCancelled :: bool
  attNow :: Time
  attRand :: "int \<Rightarrow> int"
  attSlept :: bool

text \<open>
  The body of the loop: the trace, and the next \<open>since\<close> and backoff, or \<open>None\<close> when the goroutine
  returns.
\<close>

definition cycleStep ::
  "DockerGenerator \<Rightarrow> attempt \<Rightarrow> Time \<times> Duration \<Rightarrow> gen_output list \<times> (Time \<times> Duration) option"
where
  "cycleStep dw a st =
     (let (since, backoff) = st;
          (out, since', done, connectedAt, err) = runOnce dw since (attCycle a)
      in if done \<or> attCancelled a then (out, None)
         else
           let notices = setConnected dw False @
                 (if \<not> IsZero connectedAt then notifyDisconnect dw else []);
               backoff1 = (if stableConnection connectedAt (attNow a) (reconnectMax dw)
                           then reconnectInitial dw else backoff);
               slept = [Slept (jitter (attRand a) backoff1)]
           in if \<not> attSlept a then (out @ notices @ slept, None)
              else (out @ notices @ slept, Some (since', nextBackoff backoff1 (reconnectMax dw))))"

fun cycles ::
  "DockerGenerator \<Rightarrow> attempt list \<Rightarrow> Time \<times> Duration \<Rightarrow> gen_output list"
where
  "cycles dw [] st = []"
| "cycles dw (a # as) st =
     (case cycleStep dw a st of
        (out, None) \<Rightarrow> out
      | (out, Some st') \<Rightarrow> out @ cycles dw as st')"

text \<open>The goroutine of \<open>Subscribe\<close>, with the deferred last call; \<open>now\<close> is the time it starts.\<close>

definition Subscribe :: "DockerGenerator \<Rightarrow> Time \<Rightarrow> attempt list \<Rightarrow> gen_output list" where
  "Subscribe dw now as = cycles dw as (now, reconnectInitial dw) @ setConnected dw False"

lemmas [go_eval] =
  event_error_message_def fromContainerSummary_def fromEventsMessage_def resyncEvent_def
  defaultEventBufferSize_def defaultReconnectInitial_def defaultReconnectMaxBackoff_def
  WithEventBufferSize_def WithReconnectBackoff_def WithConnectionObserver_def
  WithDisconnectObserver_def NewDockerGenerator_def stableConnection_def nextBackoff_def jitter_def
  setConnected_def notifyDisconnect_def filterArgs_def runOnce_def cycleStep_def Subscribe_def


subsection \<open>The events of a cycle\<close>

definition sent :: "gen_output list \<Rightarrow> ContainerEvent list" where
  "sent out = List.map_filter (\<lambda>o'. case o' of Sent ev \<Rightarrow> Some ev | _ \<Rightarrow> None) out"

lemma sent_simps [simp]:
  "sent [] = []" "sent (Sent ev # out) = ev # sent out" "sent (out @ out') = sent out @ sent out'"
  "sent (EventsCall fs t # out) = sent out" "sent (ConnectionChange c # out) = sent out"
  "sent (DisconnectNotice # out) = sent out" "sent (Slept d # out) = sent out"
  by (simp_all add: sent_def map_filter_def)

lemma sent_observers [simp]: "sent (setConnected dw c) = []" "sent (notifyDisconnect dw) = []"
  by (simp_all add: setConnected_def notifyDisconnect_def)

text \<open>The messages received before the stream ends, and the events they convert to.\<close>

fun received :: "stream_input list \<Rightarrow> Message list" where
  "received [] = []"
| "received (MessageReceived msg # ins) = msg # received ins"
| "received (ErrReceived None # ins) = received ins"
| "received (ErrReceived (Some err) # ins) = []"
| "received (ErrClosed # ins) = []"
| "received (EventsClosed # ins) = []"

definition convertible :: "Message list \<Rightarrow> ContainerEvent list" where
  "convertible msgs =
     List.map_filter (\<lambda>m. case fromEventsMessage m of Inl e \<Rightarrow> None | Inr ev \<Rightarrow> Some ev) msgs"

lemma convertible_simps [simp]:
  "convertible [] = []"
  "convertible (m # msgs) =
     (case fromEventsMessage m of Inl e \<Rightarrow> convertible msgs | Inr ev \<Rightarrow> ev # convertible msgs)"
  by (simp_all add: convertible_def map_filter_def split: sum.split)

lemma sendAll_sent:
  "sendAll n evs = (out, left) \<Longrightarrow>
   out = map Sent (take n evs) \<and>
   left = (if length evs \<le> n then Some (n - length evs) else None)"
proof (induction n evs arbitrary: out left rule: sendAll.induct)
  case (3 n ev evs)
  then show ?case by (cases "sendAll n evs") auto
qed auto

lemma sent_map_Sent [simp]: "sent (map Sent evs) = evs"
  by (induction evs) auto

lemma streamLoop_sent:
  "sent (fst (streamLoop n since ins)) = take n (convertible (received ins))"
proof (induction n since ins rule: streamLoop.induct)
  case (6 n since msg ins)
  let ?since = "if msgTimeNano msg > 0 then Unix 0 (msgTimeNano msg) else since"
  show ?case
  proof (cases "fromEventsMessage msg")
    case (Inl e)
    with 6(1) [OF refl Inl] show ?thesis by simp
  next
    case (Inr ev)
    show ?thesis
    proof (cases n)
      case (Suc m)
      with 6(2) [OF refl Inr Suc] Inr show ?thesis by (simp add: Let_def split_beta)
    qed (simp add: Inr)
  qed
qed simp_all

definition cycle_events :: "cycle \<Rightarrow> ContainerEvent list" where
  "cycle_events c =
     (case listed c of
        Inl err \<Rightarrow> []
      | Inr containers \<Rightarrow>
          map fromContainerSummary containers @ [resyncEvent (map sumID containers)] @
          convertible (received (inputs c)))"

theorem runOnce_sent: "sent (fst (runOnce dw since c)) = take (accepted c) (cycle_events c)"
proof (cases "listed c")
  case (Inr containers)
  let ?evs = "map fromContainerSummary containers @ [resyncEvent (map sumID containers)]"
  obtain out left where snd: "sendAll (accepted c) ?evs = (out, left)" by force
  show ?thesis
  proof (cases "length ?evs \<le> accepted c")
    case True
    then have out: "out = map Sent ?evs" and left: "left = Some (accepted c - length ?evs)"
      using sendAll_sent [OF snd] by simp_all
    have "take n (xs @ ys) = xs @ take (n - length xs) ys" if "length xs \<le> n"
      for n and xs ys :: "ContainerEvent list"
      using that by simp
    from this [OF True] have "take (accepted c) (cycle_events c) =
        ?evs @ take (accepted c - length ?evs) (convertible (received (inputs c)))"
      using Inr by (simp add: cycle_events_def del: take_append)
    moreover have "sent (fst (runOnce dw since c)) = sent out @
        sent (fst (streamLoop (accepted c - length ?evs) since (inputs c)))"
      using Inr snd left by (simp add: runOnce_def Let_def split: prod.splits)
    ultimately show ?thesis using out streamLoop_sent by (simp del: map_append)
  next
    case False
    then have "out = map Sent (take (accepted c) ?evs)" "left = None"
      using sendAll_sent [OF snd] by simp_all
    with False Inr snd show ?thesis by (simp add: runOnce_def cycle_events_def Let_def)
  qed
qed (simp add: runOnce_def cycle_events_def)


subsection \<open>The position in the stream\<close>

text \<open>The stamp of the last message that has one.\<close>

definition resume_from :: "Time \<Rightarrow> Message list \<Rightarrow> Time" where
  "resume_from since msgs =
     fold (\<lambda>m t. if msgTimeNano m > 0 then msgTimeNano m else t) msgs since"

lemma streamLoop_since:
  assumes "length (convertible (received ins)) \<le> n"
  shows "fst (snd (streamLoop n since ins)) = resume_from since (received ins)"
  using assms
proof (induction n since ins rule: streamLoop.induct)
  case (6 n since msg ins)
  show ?case
  proof (cases "fromEventsMessage msg")
    case (Inl e)
    with 6(1) [OF refl Inl] 6(3) show ?thesis by (simp add: resume_from_def Unix_def)
  next
    case (Inr ev)
    with 6(3) obtain m where n: "n = Suc m" by (cases n) simp_all
    with 6(2) [OF refl Inr n] 6(3) Inr show ?thesis
      by (cases "0 < msgTimeNano msg") (simp_all add: resume_from_def Unix_def Let_def split_beta)
  qed
qed (simp_all add: resume_from_def)

text \<open>No message moves the position back to the epoch.\<close>

lemma resume_from_pos: "since > 0 \<Longrightarrow> resume_from since msgs > 0"
  by (induction msgs arbitrary: since) (auto simp: resume_from_def)


subsection \<open>The backoff\<close>

definition gen_ok :: "DockerGenerator \<Rightarrow> bool" where
  "gen_ok dw \<longleftrightarrow> bufferSize dw > 0 \<and> 0 < sint (reconnectInitial dw) \<and>
     sint (reconnectInitial dw) \<le> sint (reconnectMax dw)"

text \<open>Whatever the options are given, the bounds are consistent.\<close>

definition is_option :: "(DockerGenerator \<Rightarrow> DockerGenerator) \<Rightarrow> bool" where
  "is_option opt \<longleftrightarrow> (\<exists>n. opt = WithEventBufferSize n) \<or>
     (\<exists>i m. opt = WithReconnectBackoff i m) \<or>
     opt = WithConnectionObserver \<or> opt = WithDisconnectObserver"

lemma option_gen_ok: "is_option opt \<Longrightarrow> gen_ok dw \<Longrightarrow> gen_ok (opt dw)"
  by (auto simp: is_option_def gen_ok_def WithEventBufferSize_def WithReconnectBackoff_def
      WithConnectionObserver_def WithDisconnectObserver_def Let_def)

lemma fold_option_gen_ok:
  "\<forall>opt \<in> set opts. is_option opt \<Longrightarrow> gen_ok dw \<Longrightarrow> gen_ok (fold (\<lambda>opt dw. opt dw) opts dw)"
  by (induction opts arbitrary: dw) (simp_all add: option_gen_ok)

theorem NewDockerGenerator_ok:
  "\<forall>opt \<in> set opts. is_option opt \<Longrightarrow> gen_ok (NewDockerGenerator opts)"
  unfolding NewDockerGenerator_def
  by (rule fold_option_gen_ok)
    (simp_all add: gen_ok_def defaultEventBufferSize_def defaultReconnectInitial_def
      defaultReconnectMaxBackoff_def)

text \<open>Without overflow the words compute as the numbers they stand for.\<close>

lemma sint_in_range:
  "- (2 ^ 63) \<le> i \<Longrightarrow> i < 2 ^ 63 \<Longrightarrow> sint (word_of_int i :: 64 word) = i"
  by (simp add: sint_sbintrunc' signed_take_bit_int_eq_self)

lemma sint_add_in_range:
  fixes c d :: "64 word"
  assumes "- (2 ^ 63) \<le> sint c + sint d" and "sint c + sint d < 2 ^ 63"
  shows "sint (c + d) = sint c + sint d"
  using assms by (simp add: sint_word_ariths signed_take_bit_int_eq_self)

lemma sint_double:
  fixes c :: Duration
  assumes "0 \<le> sint c" and "2 * sint c < 2 ^ 63"
  shows "sint (c * 2) = 2 * sint c"
proof -
  have "c * 2 = c + c" by simp
  moreover have "sint (c + c) = sint c + sint c" by (rule sint_add_in_range) (use assms in auto)
  ultimately show ?thesis by (simp only: mult_2)
qed

theorem nextBackoff_min:
  assumes "0 \<le> sint cur" and "sint cur < 2 ^ 62"
  shows "sint (nextBackoff cur maxB) = min (2 * sint cur) (sint maxB)"
  using assms sint_double [of cur] by (auto simp: nextBackoff_def Let_def)

definition rand_ok :: "(int \<Rightarrow> int) \<Rightarrow> bool" where
  "rand_ok rand \<longleftrightarrow> (\<forall>n > 0. 0 \<le> rand n \<and> rand n < n)"

theorem jitter_bounds:
  assumes "rand_ok rand" and "0 < sint d" and "sint d < 2 ^ 62"
  shows "sint d \<le> sint (jitter rand d)" and "sint (jitter rand d) \<le> sint d + sint d div 4"
proof -
  let ?k = "rand (sint d div 4 + 1)"
  have k: "0 \<le> ?k" "?k \<le> sint d div 4"
    using assms(1,2) by (auto simp: rand_ok_def dest: spec [of _ "sint d div 4 + 1"])
  have "sint (word_of_int ?k :: Duration) = ?k"
    by (rule sint_in_range) (use k assms(3) in auto)
  with sint_add_in_range [of d "word_of_int ?k"] k assms
  have "sint (jitter rand d) = sint d + ?k" by (simp add: jitter_def)
  with k show "sint d \<le> sint (jitter rand d)" and "sint (jitter rand d) \<le> sint d + sint d div 4"
    by simp_all
qed

definition sleeps :: "gen_output list \<Rightarrow> Duration list" where
  "sleeps out = List.map_filter (\<lambda>o'. case o' of Slept d \<Rightarrow> Some d | _ \<Rightarrow> None) out"

lemma sleeps_simps [simp]:
  "sleeps [] = []" "sleeps (Slept d # out) = d # sleeps out"
  "sleeps (out @ out') = sleeps out @ sleeps out'" "sleeps (Sent ev # out) = sleeps out"
  "sleeps (EventsCall fs t # out) = sleeps out" "sleeps (ConnectionChange c # out) = sleeps out"
  "sleeps (DisconnectNotice # out) = sleeps out"
  by (simp_all add: sleeps_def map_filter_def)

lemma sleeps_observers [simp]:
  "sleeps (setConnected dw c) = []" "sleeps (notifyDisconnect dw) = []"
  by (simp_all add: setConnected_def notifyDisconnect_def)

lemma sleeps_map_Sent [simp]: "sleeps (map Sent evs) = []"
  by (induction evs) auto

lemma sleeps_streamLoop [simp]: "sleeps (fst (streamLoop n since ins)) = []"
  by (induction n since ins rule: streamLoop.induct) (auto simp: Let_def split_beta split: sum.split nat.split)

lemma runOnce_sleeps: "sleeps (fst (runOnce dw since c)) = []"
proof (cases "listed c")
  case (Inr containers)
  obtain out left where "sendAll (accepted c)
      (map fromContainerSummary containers @ [resyncEvent (map sumID containers)]) = (out, left)"
    by force
  moreover from sendAll_sent [OF this] have "sleeps out = []" by simp
  ultimately show ?thesis
    using Inr by (simp add: runOnce_def Let_def split_beta split: option.split)
qed (simp add: runOnce_def)

lemma runOnce_connectedAt:
  "runOnce dw since c = (out, since', done', con, err) \<Longrightarrow> con = zeroTime \<or> con = connectNow c"
  by (auto simp: runOnce_def Let_def split: sum.splits option.splits prod.splits)

text \<open>A cycle either ends the loop or sleeps once and goes on with the next backoff.\<close>

definition backoff_used :: "DockerGenerator \<Rightarrow> attempt \<Rightarrow> Time \<Rightarrow> Duration \<Rightarrow> Duration" where
  "backoff_used dw a connectedAt b =
     (if stableConnection connectedAt (attNow a) (reconnectMax dw) then reconnectInitial dw else b)"

lemma cycleStep_sleeps:
  obtains connectedAt where "connectedAt \<in> {zeroTime, connectNow (attCycle a)}"
    and "sleeps (fst (cycleStep dw a (since, b))) = [] \<and> snd (cycleStep dw a (since, b)) = None \<or>
      sleeps (fst (cycleStep dw a (since, b))) =
        [jitter (attRand a) (backoff_used dw a connectedAt b)] \<and>
      (snd (cycleStep dw a (since, b)) = None \<or>
       (\<exists>since'. snd (cycleStep dw a (since, b)) =
          Some (since', nextBackoff (backoff_used dw a connectedAt b) (reconnectMax dw))))"
proof -
  obtain out since' done' con err where run: "runOnce dw since (attCycle a) =
      (out, since', done', con, err)" using prod_cases5 by blast
  have out: "sleeps out = []" using runOnce_sleeps [of dw since "attCycle a"] run by simp
  have con: "con \<in> {zeroTime, connectNow (attCycle a)}" using runOnce_connectedAt [OF run] by simp
  show thesis
    by (rule that [OF con]) (auto simp: cycleStep_def run out Let_def backoff_used_def)
qed

text \<open>The nominal backoff after \<open>n\<close> failures in a row.\<close>

definition nominal :: "DockerGenerator \<Rightarrow> nat \<Rightarrow> int" where
  "nominal dw n = min (sint (reconnectInitial dw) * 2 ^ n) (sint (reconnectMax dw))"

definition flapping :: "DockerGenerator \<Rightarrow> attempt \<Rightarrow> bool" where
  "flapping dw a \<longleftrightarrow> \<not> stableConnection (connectNow (attCycle a)) (attNow a) (reconnectMax dw)"

lemma flapping_used:
  "flapping dw a \<Longrightarrow> con \<in> {zeroTime, connectNow (attCycle a)} \<Longrightarrow> backoff_used dw a con b = b"
  by (auto simp: flapping_def backoff_used_def stableConnection_def IsZero_def)

lemma nominal_bounds:
  "gen_ok dw \<Longrightarrow> 0 < nominal dw n \<and> nominal dw n \<le> sint (reconnectMax dw)"
  by (auto simp: nominal_def gen_ok_def)

lemma nominal_next:
  assumes "gen_ok dw" and "sint (reconnectMax dw) < 2 ^ 62" and "sint b = nominal dw n"
  shows "sint (nextBackoff b (reconnectMax dw)) = nominal dw (Suc n)"
proof -
  have "0 \<le> sint b" "sint b < 2 ^ 62"
    using nominal_bounds [OF assms(1), of n] assms(2,3) by simp_all
  then show ?thesis using assms by (auto simp: nextBackoff_min nominal_def gen_ok_def min_def)
qed

theorem flapping_backoff:
  assumes "gen_ok dw" and "sint (reconnectMax dw) < 2 ^ 62" and "sint b = nominal dw n"
    and "\<forall>a \<in> set as. flapping dw a \<and> rand_ok (attRand a)"
    and "k < length (sleeps (cycles dw as (since, b)))"
  shows "nominal dw (n + k) \<le> sint (sleeps (cycles dw as (since, b)) ! k) \<and>
    sint (sleeps (cycles dw as (since, b)) ! k) \<le> nominal dw (n + k) + nominal dw (n + k) div 4"
  using assms(3-5)
proof (induction as arbitrary: since b n k)
  case (Cons a as)
  obtain con where con: "con \<in> {zeroTime, connectNow (attCycle a)}"
    and step: "sleeps (fst (cycleStep dw a (since, b))) = [] \<and> snd (cycleStep dw a (since, b)) = None \<or>
      sleeps (fst (cycleStep dw a (since, b))) = [jitter (attRand a) (backoff_used dw a con b)] \<and>
      (snd (cycleStep dw a (since, b)) = None \<or>
       (\<exists>since'. snd (cycleStep dw a (since, b)) =
          Some (since', nextBackoff (backoff_used dw a con b) (reconnectMax dw))))"
    by (rule cycleStep_sleeps)
  have used: "backoff_used dw a con b = b" using flapping_used [OF _ con] Cons.prems(2) by simp
  have "0 < sint b" "sint b < 2 ^ 62"
    using nominal_bounds [OF assms(1), of n] assms(2) Cons.prems(1) by simp_all
  then have first: "nominal dw n \<le> sint (jitter (attRand a) b)"
    "sint (jitter (attRand a) b) \<le> nominal dw n + nominal dw n div 4"
    using jitter_bounds [of "attRand a" b] Cons.prems(1,2) by simp_all
  obtain out next' where cs: "cycleStep dw a (since, b) = (out, next')" by force
  show ?case
  proof (cases next')
    case None
    then show ?thesis using Cons.prems(3) step first by (auto simp: cs used)
  next
    case (Some st)
    then obtain since' where st: "st = (since', nextBackoff b (reconnectMax dw))"
      and out: "sleeps out = [jitter (attRand a) b]"
      using step by (auto simp: cs used)
    note b' = nominal_next [OF assms(1,2) Cons.prems(1)]
    show ?thesis
      using Cons.prems(2,3) first Cons.IH [OF b', of "k - 1" since']
      by (cases k) (simp_all add: cs Some st out)
  qed
qed simp

text \<open>Whatever the connections do, every sleep is at least the initial backoff.\<close>

theorem backoff_bounds:
  assumes "gen_ok dw" and "sint (reconnectMax dw) < 2 ^ 62"
    and "sint (reconnectInitial dw) \<le> sint b" and "sint b \<le> sint (reconnectMax dw)"
    and "\<forall>a \<in> set as. rand_ok (attRand a)" and "d \<in> set (sleeps (cycles dw as (since, b)))"
  shows "sint (reconnectInitial dw) \<le> sint d \<and>
    sint d \<le> sint (reconnectMax dw) + sint (reconnectMax dw) div 4"
  using assms(3-6)
proof (induction as arbitrary: since b)
  case (Cons a as)
  obtain con where step: "sleeps (fst (cycleStep dw a (since, b))) = [] \<and> snd (cycleStep dw a (since, b)) = None \<or>
      sleeps (fst (cycleStep dw a (since, b))) = [jitter (attRand a) (backoff_used dw a con b)] \<and>
      (snd (cycleStep dw a (since, b)) = None \<or>
       (\<exists>since'. snd (cycleStep dw a (since, b)) =
          Some (since', nextBackoff (backoff_used dw a con b) (reconnectMax dw))))"
    by (rule cycleStep_sleeps)
  let ?b = "backoff_used dw a con b"
  have b: "sint (reconnectInitial dw) \<le> sint ?b" "sint ?b \<le> sint (reconnectMax dw)"
    using assms(1) Cons.prems(1,2) by (auto simp: backoff_used_def gen_ok_def)
  then have "0 < sint ?b" "sint ?b < 2 ^ 62" using assms(1,2) by (auto simp: gen_ok_def)
  then have first: "sint (reconnectInitial dw) \<le> sint (jitter (attRand a) ?b)"
    "sint (jitter (attRand a) ?b) \<le> sint (reconnectMax dw) + sint (reconnectMax dw) div 4"
    using jitter_bounds [of "attRand a" ?b] Cons.prems(3) b by auto
  have next': "sint (reconnectInitial dw) \<le> sint (nextBackoff ?b (reconnectMax dw))"
    "sint (nextBackoff ?b (reconnectMax dw)) \<le> sint (reconnectMax dw)"
    using nextBackoff_min [of ?b "reconnectMax dw"] b \<open>0 < sint ?b\<close> \<open>sint ?b < 2 ^ 62\<close> assms(1)
    by (auto simp: gen_ok_def)
  show ?case
    using Cons.prems(3,4) step first Cons.IH [OF next']
    by (auto split: prod.splits option.splits)
qed simp


subsection \<open>The observers\<close>

text \<open>Streams opened, and disconnects reported.\<close>

definition opens :: "gen_output list \<Rightarrow> nat" where
  "opens out = length (filter (\<lambda>o'. case o' of EventsCall fs t \<Rightarrow> True | _ \<Rightarrow> False) out)"

definition drops :: "gen_output list \<Rightarrow> nat" where
  "drops out = length (filter (\<lambda>o'. o' = DisconnectNotice) out)"

lemma opens_simps [simp]:
  "opens [] = 0" "opens (EventsCall fs t # out) = Suc (opens out)"
  "opens (out @ out') = opens out + opens out'" "opens (Sent ev # out) = opens out"
  "opens (Slept d # out) = opens out" "opens (ConnectionChange c # out) = opens out"
  "opens (DisconnectNotice # out) = opens out" "opens (setConnected dw c) = 0"
  "opens (notifyDisconnect dw) = 0"
  by (simp_all add: opens_def setConnected_def notifyDisconnect_def)

lemma drops_simps [simp]:
  "drops [] = 0" "drops (DisconnectNotice # out) = Suc (drops out)"
  "drops (out @ out') = drops out + drops out'" "drops (Sent ev # out) = drops out"
  "drops (Slept d # out) = drops out" "drops (ConnectionChange c # out) = drops out"
  "drops (EventsCall fs t # out) = drops out" "drops (setConnected dw c) = 0"
  "drops (notifyDisconnect dw) = (if onDisconnect dw then 1 else 0)"
  by (simp_all add: drops_def setConnected_def notifyDisconnect_def)

lemma counts_Sent [simp]: "opens (map Sent evs) = 0" "drops (map Sent evs) = 0"
  by (induction evs) auto

lemma counts_streamLoop [simp]:
  "opens (fst (streamLoop n since ins)) = 0" "drops (fst (streamLoop n since ins)) = 0"
  by (induction n since ins rule: streamLoop.induct)
    (auto simp: Let_def split_beta split: sum.split nat.split)

lemma runOnce_counts:
  assumes "connectNow c \<noteq> zeroTime" and "runOnce dw since c = (out, since', done', con, err)"
  shows "drops out = 0" and "opens out = (if con = zeroTime then 0 else 1)"
proof -
  have "drops out = 0 \<and> opens out = (if con = zeroTime then 0 else 1)"
  proof (cases "listed c")
    case (Inr containers)
    obtain out1 left where snd: "sendAll (accepted c)
        (map fromContainerSummary containers @ [resyncEvent (map sumID containers)]) = (out1, left)"
      by force
    with sendAll_sent [OF snd] have "opens out1 = 0" "drops out1 = 0" by simp_all
    with snd Inr assms show ?thesis
      by (cases left) (auto simp: runOnce_def Let_def split_beta)
  qed (use assms in \<open>auto simp: runOnce_def\<close>)
  then show "drops out = 0" and "opens out = (if con = zeroTime then 0 else 1)" by simp_all
qed

lemma cycleStep_counts:
  assumes "onDisconnect dw" and "connectNow (attCycle a) \<noteq> zeroTime"
    and "cycleStep dw a (since, b) = (out, next')"
  shows "drops out \<le> opens out" and "opens out \<le> drops out + (if next' = None then 1 else 0)"
proof -
  obtain out1 since' done' con err where run: "runOnce dw since (attCycle a) =
      (out1, since', done', con, err)" using prod_cases5 by blast
  show "drops out \<le> opens out" and "opens out \<le> drops out + (if next' = None then 1 else 0)"
    using assms(1,3) runOnce_counts [OF assms(2) run]
    by (auto simp: cycleStep_def run Let_def IsZero_def split: if_splits)
qed

theorem cycles_counts:
  assumes "onDisconnect dw" and "\<forall>a \<in> set as. connectNow (attCycle a) \<noteq> zeroTime"
  shows "drops (cycles dw as st) \<le> opens (cycles dw as st) \<and>
    opens (cycles dw as st) \<le> drops (cycles dw as st) + 1"
  using assms(2)
proof (induction as arbitrary: st)
  case (Cons a as)
  obtain since b where st: "st = (since, b)" by force
  obtain out next' where cs: "cycleStep dw a (since, b) = (out, next')" by force
  have "connectNow (attCycle a) \<noteq> zeroTime" using Cons.prems by simp
  note counts = cycleStep_counts [OF assms(1) this cs]
  show ?case
  proof (cases next')
    case None
    with counts show ?thesis by (simp add: st cs)
  next
    case (Some st')
    with counts Cons.IH [of st'] Cons.prems show ?thesis by (auto simp: st cs)
  qed
qed simp

end
