(* ===== verification/Wiring.thy ===== *)
theory Wiring
  imports Config_Load Http_Server Events Etcd_Engine
begin

text \<open>
  \<^verbatim>\<open>internal/app/app.go\<close> and \<open>runWithDeps\<close> of \<^verbatim>\<open>cmd/docker-coredns-sync/root.go\<close>: the daemon is
  built from its configuration, run until its context is cancelled, and closed.  The clients are
  made by factories that are arguments, as in the source; the trace records which of the daemon's
  resources are opened and closed, in order.
\<close>

subsection \<open>Resources and errors\<close>

datatype resource = DockerClient | EtcdClient | HTTPListener

datatype action = Opened resource | Closed resource

text \<open>A trace that closes what it opens, and nothing twice.\<close>

definition balanced :: "action list \<Rightarrow> bool" where
  "balanced t \<longleftrightarrow> (\<forall>r \<in> {DockerClient, EtcdClient, HTTPListener}.
     count_list t (Closed r) = count_list t (Opened r) \<and> count_list t (Opened r) \<le> 1)"

text \<open>An error as the source tests it: the cancelled context, another one, or one wrapping another.\<close>

datatype go_error = ContextCanceled | Plain string | Wrapped string go_error

fun message :: "go_error \<Rightarrow> string" where
  "message ContextCanceled = ''context canceled''"
| "message (Plain m) = m"
| "message (Wrapped m e) = m @ message e"

fun isCanceled :: "go_error \<Rightarrow> bool" where
  "isCanceled ContextCanceled = True"
| "isCanceled (Plain m) = False"
| "isCanceled (Wrapped m e) = isCanceled e"

text \<open>\<^verbatim>\<open>errors.Join\<close> of an error or nil with an error, as its message.\<close>

definition joinErr :: "string option \<Rightarrow> string \<Rightarrow> string option" where
  "joinErr err e = Some (case err of None \<Rightarrow> e | Some a \<Rightarrow> a @ char_of (10::nat) # e)"


subsection \<open>The etcd client of the default factory\<close>

record ('cert, 'pool) dialConfig =
  dialEndpoints :: "string list"
  dialTimeout :: Duration
  dialUsername :: string
  dialPassword :: string
  dialTLS :: "('cert, 'pool) tlsConfig option"

definition defaultEtcdFactory ::
  "(EtcdConfig \<Rightarrow> string + ('cert, 'pool) tlsConfig option) \<Rightarrow>
   (('cert, 'pool) dialConfig \<Rightarrow> string + 'e etcdClient \<times> 'e) \<Rightarrow>
   EtcdConfig \<Rightarrow> Duration \<Rightarrow> string + 'e etcdClient \<times> 'e"
where
  "defaultEtcdFactory clientTLS dial cfg timeout =
     (case clientTLS cfg of
        Inl err \<Rightarrow> Inl err
      | Inr tlsCfg \<Rightarrow>
          dial \<lparr>dialEndpoints = Endpoints cfg, dialTimeout = timeout, dialUsername = Username cfg,
            dialPassword = Password cfg, dialTLS = tlsCfg\<rparr>)"


subsection \<open>Construction\<close>

text \<open>
  The generator and the engine with its registry, the HTTP server if there is one, and whether the
  clients are set.  The status and the metrics are those of the engine: the server, the generator
  and the registry hold references to them.
\<close>

record 'e application =
  generator :: DockerGenerator
  engine :: "'e EtcdRegistry engine"
  httpServer :: "server option"
  hasDockerClient :: bool
  hasEtcdClient :: bool

text \<open>Durations: of float seconds by truncation, of integer seconds by a product that wraps.\<close>

definition floatSeconds :: "rat \<Rightarrow> Duration" where
  "floatSeconds x = word_of_int (trunc (x * 1000000000))"

definition readyThresholdOf :: "int \<Rightarrow> Duration" where
  "readyThresholdOf poll = 3 * word_of_int poll * 1000000000"

definition genOpts :: "Config \<Rightarrow> (DockerGenerator \<Rightarrow> DockerGenerator) list" where
  "genOpts cfg =
     [WithEventBufferSize (EventBufferSize (Docker cfg)),
      WithReconnectBackoff (floatSeconds (ReconnectInitialBackoff (Docker cfg)))
        (floatSeconds (ReconnectMaxBackoff (Docker cfg)))] @
     (if HTTPEnabled (HTTP cfg) then [WithConnectionObserver] else []) @
     (if MetricsEnabled (Metrics cfg) then [WithDisconnectObserver] else [])"

definition newEngine ::
  "Config \<Rightarrow> 'e runtime \<Rightarrow> 'e etcdClient \<Rightarrow> 'e \<Rightarrow> 'e EtcdRegistry engine"
where
  "newEngine cfg rt cl w =
     (let reg = NewEtcdRegistry cl rt (Etcd cfg) (AppHostname (App cfg)) (HeartbeatTTL (App cfg)) w;
          reg1 = (if MetricsEnabled (Metrics cfg) then SetMetrics reg else reg)
      in \<lparr>memory = NewMemoryState, registry = reg1,
          health = (if HTTPEnabled (HTTP cfg)
            then Some (SetDryRun (NewStatus (sint (readyThresholdOf (PollInterval (App cfg)))))
              (DryRun (App cfg)))
            else None),
          metrics = (if MetricsEnabled (Metrics cfg)
            then Some (MetricsSetDryRun (False, []) (DryRun (App cfg))) else None)\<rparr>)"

text \<open>
  The factories and \<open>bound\<close>, the error of listening on an address, say what fails.  The result is
  an error or the application, with the trace.
\<close>

definition NewWithFactories ::
  "string option \<Rightarrow> (EtcdConfig \<Rightarrow> Duration \<Rightarrow> string + 'e etcdClient \<times> 'e) \<Rightarrow> 'e runtime \<Rightarrow>
   (string \<Rightarrow> string option) \<Rightarrow> Config \<Rightarrow> (string + 'e application) \<times> action list"
where
  "NewWithFactories dockerFactory etcdFactory rt bound cfg =
     (case dockerFactory of
        Some err \<Rightarrow> (Inl err, [])
      | None \<Rightarrow>
          let gen = NewDockerGenerator (genOpts cfg) in
          (case etcdFactory (Etcd cfg) 2000000000 of
             Inl err \<Rightarrow>
               (Inl (''failed to connect to etcd: '' @ err), [Opened DockerClient, Closed DockerClient])
           | Inr (cl, w) \<Rightarrow>
               let app = \<lparr>generator = gen, engine = newEngine cfg rt cl w, httpServer = None,
                     hasDockerClient = True, hasEtcdClient = True\<rparr>
               in if \<not> HTTPServerEnabled cfg then (Inr app, [Opened DockerClient, Opened EtcdClient])
                  else (case NewServer (bound (ListenAddr (HTTP cfg))) (ListenAddr (HTTP cfg))
                          (HTTPEnabled (HTTP cfg)) (MetricsEnabled (Metrics cfg)) of
                      Inl err \<Rightarrow>
                        (Inl err, [Opened DockerClient, Opened EtcdClient,
                           Closed DockerClient, Closed EtcdClient])
                    | Inr srv \<Rightarrow>
                        (Inr (app\<lparr>httpServer := Some srv\<rparr>),
                         [Opened DockerClient, Opened EtcdClient, Opened HTTPListener]))))"


subsection \<open>Running and closing\<close>

text \<open>
  What reaches the running daemon: the wake-ups of the engine, and the outputs of the generator,
  whose observers are the methods of the status and of the metrics.
\<close>

datatype app_input = Woken wakeup | Observed gen_output

definition observe :: "gen_output \<Rightarrow> 'e EtcdRegistry engine \<Rightarrow> 'e EtcdRegistry engine" where
  "observe out e =
     (case out of
        ConnectionChange c \<Rightarrow> e\<lparr>health := map_option (\<lambda>s. SetDockerConnected s c) (health e)\<rparr>
      | DisconnectNotice \<Rightarrow>
          e\<lparr>metrics := map_option (\<lambda>(dry, ops). (dry, ops @ IncDockerDisconnect)) (metrics e)\<rparr>
      | _ \<Rightarrow> e)"

definition appStep ::
  "AppConfig \<Rightarrow> (Time \<Rightarrow> int) \<Rightarrow> app_input \<Rightarrow> 'e EtcdRegistry engine \<Rightarrow> 'e EtcdRegistry engine option"
where
  "appStep cfg zone i e =
     (case i of
        Woken w \<Rightarrow> wake cfg (etcdUpstream zone) w e
      | Observed out \<Rightarrow> Some (observe out e))"

text \<open>\<open>Run\<close> until its context is cancelled after the inputs; the generator's \<open>Subscribe\<close> cannot fail.\<close>

definition appRun ::
  "AppConfig \<Rightarrow> (Time \<Rightarrow> int) \<Rightarrow> app_input list \<Rightarrow> 'e application \<Rightarrow>
   (go_error option \<times> 'e application) option"
where
  "appRun cfg zone is a =
     map_option (\<lambda>e. (Some ContextCanceled,
         a\<lparr>engine := e\<lparr>registry := regStopHeartbeat (etcdUpstream zone) (registry e)\<rparr>\<rparr>))
       (foldM (\<lambda>i e x. appStep cfg zone x e) 0 (startHeartbeat cfg (etcdUpstream zone) (engine a)) is)"

text \<open>\<open>dockerErr\<close>, \<open>etcdErr\<close> and \<open>listener\<close> are what closing the three resources gives.\<close>

definition appClose ::
  "string option \<Rightarrow> string option \<Rightarrow> close_result \<Rightarrow> 'e application \<Rightarrow> string option \<times> action list"
where
  "appClose dockerErr etcdErr listener a =
     (let err0 = None;
          (err1, t1) = (if hasDockerClient a then
              (case dockerErr of None \<Rightarrow> err0 | Some e \<Rightarrow> joinErr err0 (''close docker client: '' @ e),
               [Closed DockerClient])
            else (err0, []));
          (err2, t2) = (if hasEtcdClient a then
              (case etcdErr of None \<Rightarrow> err1 | Some e \<Rightarrow> joinErr err1 (''close etcd client: '' @ e),
               [Closed EtcdClient])
            else (err1, []));
          (err3, t3) = (case httpServer a of
              None \<Rightarrow> (err2, [])
            | Some srv \<Rightarrow>
              (case closeServer listener of
                 None \<Rightarrow> err2 | Some e \<Rightarrow> joinErr err2 (''close HTTP server: '' @ e),
               [Closed HTTPListener]))
      in (err3, t1 @ t2 @ t3))"


subsection \<open>The command\<close>

text \<open>
  \<open>created\<close> is what the factory gives, \<open>run\<close> and \<open>close\<close> the methods of the application.  The close
  is deferred, and its error only logged.
\<close>

definition runWithDeps ::
  "(string + 'a) \<times> action list \<Rightarrow> ('a \<Rightarrow> (go_error option \<times> 'a) option) \<Rightarrow>
   ('a \<Rightarrow> string option \<times> action list) \<Rightarrow> (go_error option \<times> action list) option"
where
  "runWithDeps created run close =
     (case created of
        (Inl err, t) \<Rightarrow> Some (Some (Wrapped ''failed to create app: '' (Plain err)), t)
      | (Inr application, t) \<Rightarrow>
          (case run application of
             None \<Rightarrow> None
           | Some (err, application') \<Rightarrow>
               Some (case err of
                   None \<Rightarrow> None
                 | Some e \<Rightarrow> if \<not> isCanceled e then Some (Wrapped ''app run error: '' e) else None,
                 t @ snd (close application'))))"

text \<open>
  The root command: the configuration is loaded before the run, and \<open>Execute\<close> exits with 1 on any
  error.  \<open>loaded\<close> is what \<open>Load\<close> gives.
\<close>

datatype command_error = LoadFailed load_error | RunFailed go_error

definition rootCmd ::
  "load_error + Config \<Rightarrow> (Config \<Rightarrow> (go_error option \<times> action list) option) \<Rightarrow>
   (command_error option \<times> action list) option"
where
  "rootCmd loaded run =
     (case loaded of
        Inl err \<Rightarrow> Some (Some (LoadFailed err), [])
      | Inr cfg \<Rightarrow> map_option (\<lambda>(err, t). (map_option RunFailed err, t)) (run cfg))"

definition Execute :: "command_error option \<Rightarrow> int" where
  "Execute err = (if err \<noteq> None then 1 else 0)"

lemmas [go_eval] =
  rootCmd_def Execute_def joinErr_def defaultEtcdFactory_def floatSeconds_def readyThresholdOf_def genOpts_def newEngine_def
  NewWithFactories_def observe_def appStep_def appRun_def appClose_def runWithDeps_def


subsection \<open>Construction and release\<close>

lemma balanced_simps:
  "balanced []"
  "balanced [Opened DockerClient, Closed DockerClient]"
  "balanced [Opened DockerClient, Opened EtcdClient, Closed DockerClient, Closed EtcdClient]"
  "balanced [Opened DockerClient, Opened EtcdClient, Opened HTTPListener,
     Closed DockerClient, Closed EtcdClient, Closed HTTPListener]"
  by (simp_all add: balanced_def)

text \<open>The outcomes of the construction.\<close>

lemma NewWithFactories_cases:
  assumes "NewWithFactories dockerFactory etcdFactory rt bound cfg = (res, t)"
  obtains err where "res = Inl err" and "balanced t"
  | cl w srv where "etcdFactory (Etcd cfg) 2000000000 = Inr (cl, w)"
      and "res = Inr \<lparr>generator = NewDockerGenerator (genOpts cfg), engine = newEngine cfg rt cl w,
        httpServer = srv, hasDockerClient = True, hasEtcdClient = True\<rparr>"
      and "srv = None \<longleftrightarrow> \<not> HTTPServerEnabled cfg"
      and "t = [Opened DockerClient, Opened EtcdClient] @ (if srv = None then [] else [Opened HTTPListener])"
  using assms
  by (auto simp: NewWithFactories_def NewServer_def balanced_simps Let_def
      split: option.splits sum.splits if_splits)

lemma appRun_fields:
  assumes "appRun cfg zone is a = Some (err, a')"
  shows "err = Some ContextCanceled" and "httpServer a' = httpServer a"
    and "hasDockerClient a' = hasDockerClient a" and "hasEtcdClient a' = hasEtcdClient a"
    and "generator a' = generator a"
  using assms by (auto simp: appRun_def)

lemma appClose_trace:
  "snd (appClose dockerErr etcdErr listener a) =
     (if hasDockerClient a then [Closed DockerClient] else []) @
     (if hasEtcdClient a then [Closed EtcdClient] else []) @
     (if httpServer a = None then [] else [Closed HTTPListener])"
  by (auto simp: appClose_def Let_def split: option.split)

text \<open>Closing reports an error exactly when closing one of the resources fails.\<close>

lemma appClose_error:
  assumes "hasDockerClient a" and "hasEtcdClient a"
  shows "fst (appClose dockerErr etcdErr listener a) = None \<longleftrightarrow>
    dockerErr = None \<and> etcdErr = None \<and> (httpServer a = None \<or> closeServer listener = None)"
  using assms by (auto simp: appClose_def joinErr_def Let_def split: option.split)

text \<open>The command: the application of \<open>NewWithFactories\<close>, run and closed.\<close>

definition daemon ::
  "string option \<Rightarrow> (EtcdConfig \<Rightarrow> Duration \<Rightarrow> string + 'e etcdClient \<times> 'e) \<Rightarrow> 'e runtime \<Rightarrow>
   (string \<Rightarrow> string option) \<Rightarrow> Config \<Rightarrow> (Time \<Rightarrow> int) \<Rightarrow> app_input list \<Rightarrow>
   string option \<times> string option \<times> close_result \<Rightarrow> (go_error option \<times> action list) option"
where
  "daemon dockerFactory etcdFactory rt bound cfg zone is closing =
     runWithDeps (NewWithFactories dockerFactory etcdFactory rt bound cfg) (appRun (App cfg) zone is)
       (case closing of (dockerErr, etcdErr, listener) \<Rightarrow> appClose dockerErr etcdErr listener)"

theorem daemon_releases:
  assumes "daemon dockerFactory etcdFactory rt bound cfg zone is closing = Some (err, t)"
  shows "balanced t \<and>
    (err = None \<longleftrightarrow> (\<exists>a. fst (NewWithFactories dockerFactory etcdFactory rt bound cfg) = Inr a))"
proof -
  obtain res t0 where new: "NewWithFactories dockerFactory etcdFactory rt bound cfg = (res, t0)" by force
  obtain d x l where closing: "closing = (d, x, l)" by (rule prod_cases3)
  note d = assms [unfolded daemon_def new closing runWithDeps_def]
  show ?thesis
  proof (cases rule: NewWithFactories_cases [OF new])
    case (1 e)
    with d new show ?thesis by auto
  next
    case (2 cl w srv)
    then obtain a where a: "res = Inr a" "hasDockerClient a" "hasEtcdClient a" "httpServer a = srv" by simp
    then obtain err' a' where run: "appRun (App cfg) zone is a = Some (err', a')"
      and t: "t = t0 @ snd (appClose d x l a')" and "err = None"
      using d appRun_fields(1) [of "App cfg" zone "is" a] by (auto split: option.splits)
    have "balanced t"
      using 2(4) t a appRun_fields(2-4) [OF run] balanced_simps
      by (auto simp: appClose_trace balanced_def)
    with a new \<open>err = None\<close> show ?thesis by simp
  qed
qed


subsection \<open>The parts of a built application\<close>

lemma genOpts_options: "opt \<in> set (genOpts cfg) \<Longrightarrow> is_option opt"
  by (auto simp: genOpts_def is_option_def split: if_splits)

lemma genOpts_observers:
  "onConnectionChange (NewDockerGenerator (genOpts cfg)) \<longleftrightarrow> HTTPEnabled (HTTP cfg)"
  "onDisconnect (NewDockerGenerator (genOpts cfg)) \<longleftrightarrow> MetricsEnabled (Metrics cfg)"
  by (simp_all add: genOpts_def NewDockerGenerator_def WithEventBufferSize_def
      WithReconnectBackoff_def WithConnectionObserver_def WithDisconnectObserver_def Let_def)

text \<open>
  The generator is consistent, and reports connections to the status and disconnects to the metrics
  exactly when these exist.
\<close>

lemma built_generator:
  assumes "NewWithFactories dockerFactory etcdFactory rt bound cfg = (Inr a, t)"
  shows "gen_ok (generator a)"
    and "onConnectionChange (generator a) \<longleftrightarrow> health (engine a) \<noteq> None"
    and "onDisconnect (generator a) \<longleftrightarrow> metrics (engine a) \<noteq> None"
  by (rule NewWithFactories_cases [OF assms];
      auto simp: newEngine_def Let_def genOpts_observers intro!: NewDockerGenerator_ok genOpts_options)+

lemma built_engine:
  assumes "NewWithFactories dockerFactory etcdFactory rt bound cfg = (Inr a, t)"
  obtains cl w where "etcdFactory (Etcd cfg) 2000000000 = Inr (cl, w)" and "engine a = newEngine cfg rt cl w"
  by (rule NewWithFactories_cases [OF assms]) auto

text \<open>The threshold is three poll intervals, unless the product leaves 64 bits.\<close>

lemma readyThresholdOf_value:
  assumes "0 < poll" and "3 * poll * 1000000000 < 2 ^ 63"
  shows "sint (readyThresholdOf poll) = 3 * poll * 1000000000"
proof -
  have "readyThresholdOf poll = word_of_int (3 * poll * 1000000000)" by (simp add: readyThresholdOf_def)
  moreover have "sint (word_of_int (3 * poll * 1000000000) :: 64 word) = 3 * poll * 1000000000"
    by (rule sint_in_range) (use assms in linarith)+
  ultimately show ?thesis by metis
qed

lemma newEngine_health:
  "HTTPEnabled (HTTP cfg) \<Longrightarrow> health (newEngine cfg rt cl w) =
     Some (SetDryRun (NewStatus (sint (readyThresholdOf (PollInterval (App cfg))))) (DryRun (App cfg)))"
  by (simp add: newEngine_def Let_def)

lemma newEngine_contents:
  assumes "etcd_ok cl rt" and "prefix_ok (PathPrefix (Etcd cfg))"
    and "placed (PathPrefix (Etcd cfg)) (store cl w)"
  shows "etcd_inv (registry (newEngine cfg rt cl w))"
    and "etcd_zone (registry (newEngine cfg rt cl w)) = records_in (PathPrefix (Etcd cfg)) (store cl w)"
  using assms
  by (auto simp: newEngine_def NewEtcdRegistry_def SetMetrics_def Let_def etcd_inv_def etcd_zone_def
      contents_def)


subsection \<open>Readiness of the running daemon\<close>

text \<open>What an input tells the status.\<close>

fun reports :: "app_input \<Rightarrow> status_event list \<Rightarrow> bool" where
  "reports (Woken (Event ord now evt)) evs = (evs = [])"
| "reports (Woken (Ticker ords ord start finish)) evs = (\<exists>err. evs = [Pass finish err])"
| "reports (Observed out) evs = (evs = (case out of ConnectionChange c \<Rightarrow> [Connection c] | _ \<Rightarrow> []))"

lemma appStep_health:
  assumes "appStep cfg zone i e = Some e'"
  shows "\<exists>evs. reports i evs \<and> health e' = map_option (fold status_step evs) (health e)"
proof (cases i)
  case (Woken w)
  show ?thesis
  proof (cases w)
    case (Event ord now evt)
    with Woken assms show ?thesis by (cases "health e"; auto simp: appStep_def wake_def)
  next
    case (Ticker ords ord start finish)
    with Woken assms obtain err where
      "health e' = map_option (\<lambda>s. RecordReconcile finish s err) (health e)"
      by (auto simp: appStep_def wake_def tick_def split: option.splits outcome.splits)
    with Woken Ticker show ?thesis
      by (intro exI [of _ "[Pass finish err]"]) (cases "health e"; simp add: status_step_def)
  qed
next
  case (Observed out)
  with assms show ?thesis
    by (cases "health e"; cases out) (auto simp: appStep_def observe_def status_step_def)
qed

abbreviation appSteps ::
  "AppConfig \<Rightarrow> (Time \<Rightarrow> int) \<Rightarrow> nat \<Rightarrow> 'e EtcdRegistry engine \<Rightarrow> app_input list \<Rightarrow>
   'e EtcdRegistry engine option"
where
  "appSteps cfg zone \<equiv> foldM (\<lambda>i e x. appStep cfg zone x e)"

lemma appSteps_health:
  assumes "appSteps cfg zone n e is = Some e'"
  shows "\<exists>evss. list_all2 reports is evss \<and>
    health e' = map_option (fold status_step (concat evss)) (health e)"
  using assms
proof (induction "is" arbitrary: e n)
  case Nil
  then show ?case by (intro exI [of _ "[]"]) (simp add: id_def option.map_ident)
next
  case (Cons i "is")
  obtain e1 where 1: "appStep cfg zone i e = Some e1" and 2: "appSteps cfg zone (Suc n) e1 is = Some e'"
    using Cons.prems by (auto split: option.splits)
  obtain evs where "reports i evs" "health e1 = map_option (fold status_step evs) (health e)"
    using appStep_health [OF 1] by blast
  moreover obtain evss where "list_all2 reports is evss"
    "health e' = map_option (fold status_step (concat evss)) (health e1)"
    using Cons.IH [OF 2] by blast
  ultimately show ?case
    by (intro exI [of _ "evs # evss"]) (simp add: option.map_comp comp_def)
qed

lemma last_success_Pass: "last_success evs = Some t \<Longrightarrow> Pass t None \<in> set evs"
  by (induction evs rule: last_success.induct) (auto split: if_splits)

lemma reported_pass:
  assumes "list_all2 reports is evss" and "Pass t err \<in> set (concat evss)"
  shows "\<exists>ords ord start. Woken (Ticker ords ord start t) \<in> set is"
proof -
  obtain k where k: "k < length evss" "Pass t err \<in> set (evss ! k)"
    using assms(2) unfolding set_concat by (metis UN_E in_set_conv_nth)
  then have "reports (is ! k) (evss ! k)" "is ! k \<in> set is"
    using assms(1) by (auto simp: list_all2_conv_all_nth)
  with k(2) show ?thesis by (cases "(is ! k, evss ! k)" rule: reports.cases) (auto split: gen_output.splits, blast)
qed

definition connections :: "app_input list \<Rightarrow> bool list" where
  "connections is = List.map_filter
     (\<lambda>i. case i of Observed (ConnectionChange c) \<Rightarrow> Some c | _ \<Rightarrow> None) is"

lemma last_connection_append:
  "last_connection (evs @ evs') =
     (if \<exists>c. Connection c \<in> set evs then last_connection evs else last_connection evs')"
  by (induction evs rule: last_connection.induct) auto

lemma reported_connections:
  "list_all2 reports is evss \<Longrightarrow>
     List.map_filter (\<lambda>ev. case ev of Connection c \<Rightarrow> Some c | _ \<Rightarrow> None) (concat evss) = connections is"
  unfolding connections_def
proof (induction rule: list_all2_induct)
  case (Cons i "is" evs evss)
  from Cons(1,3) show ?case
    by (cases "(i, evs)" rule: reports.cases) (auto simp: map_filter_def split: gen_output.splits)
qed (simp add: map_filter_def)

lemma last_connection_last:
  "last_connection (rev evs) \<longleftrightarrow>
     (let cs = List.map_filter (\<lambda>ev. case ev of Connection c \<Rightarrow> Some c | _ \<Rightarrow> None) evs
      in cs \<noteq> [] \<and> last cs)"
proof (induction evs rule: rev_induct)
  case (snoc ev evs)
  then show ?case by (cases ev) (auto simp: map_filter_def Let_def)
qed (simp add: map_filter_def)

text \<open>
  \<^verbatim>\<open>/readyz\<close> of a built application answers 200 only if the daemon is not in dry-run mode, the last
  notice of the generator was a connection, and some tick within the threshold succeeded.
\<close>

theorem readyz_safe:
  assumes "NewWithFactories dockerFactory etcdFactory rt bound cfg = (Inr a, t)"
    and "HTTPEnabled (HTTP cfg)"
    and "appSteps (App cfg) zone 0 (startHeartbeat (App cfg) (etcdUpstream zone) (engine a)) is = Some e"
    and "Handler (health e) m now ''/readyz'' = Reply StatusOK ''ok''"
  shows "\<not> DryRun (App cfg)" and "connections is \<noteq> []" and "last (connections is)"
    and "\<exists>ords ord start finish. Woken (Ticker ords ord start finish) \<in> set is \<and>
      TimeSub now finish \<le> sint (readyThresholdOf (PollInterval (App cfg)))"
proof -
  let ?th = "sint (readyThresholdOf (PollInterval (App cfg)))"
  obtain cl w where eng: "engine a = newEngine cfg rt cl w"
    by (rule built_engine [OF assms(1)])
  have "health (startHeartbeat (App cfg) (etcdUpstream zone) (engine a)) =
      Some (SetDryRun (NewStatus ?th) (DryRun (App cfg)))"
    using newEngine_health [OF assms(2), of rt cl w] by (simp add: eng startHeartbeat_def)
  then obtain evss where evss: "list_all2 reports is evss"
    and h: "health e = Some (fold status_step (concat evss) (SetDryRun (NewStatus ?th) (DryRun (App cfg))))"
    using appSteps_health [OF assms(3)] by auto
  let ?s = "fold status_step (concat evss) (SetDryRun (NewStatus ?th) (DryRun (App cfg)))"
  have ready: "fst (Ready now ?s)"
    using assms(4) by (simp add: h Handler_routes readyz_ok)
  note hist = status_history [of ?s "concat evss" ?th "DryRun (App cfg)", OF refl]
  show "\<not> DryRun (App cfg)" using ready hist(5) by (simp add: Ready_iff)
  show "connections is \<noteq> []" "last (connections is)"
    using ready hist(1) reported_connections [OF evss]
    by (simp_all add: Ready_iff last_connection_last Let_def)
  obtain f where f: "last_success (rev (concat evss)) = Some f" "TimeSub now f \<le> ?th"
    using ready hist(3,4) by (auto simp: Ready_iff IsZero_def split: option.splits)
  with last_success_Pass have "Pass f None \<in> set (concat evss)" by force
  with reported_pass [OF evss] f(2)
  show "\<exists>ords ord start finish. Woken (Ticker ords ord start finish) \<in> set is \<and> TimeSub now finish \<le> ?th"
    by blast
qed


subsection \<open>Dry run of the daemon\<close>

lemma observe_registry [simp]: "registry (observe out e) = registry e" "memory (observe out e) = memory e"
  by (simp_all add: observe_def split: gen_output.split)

definition input_ok :: "app_input \<Rightarrow> bool" where
  "input_ok i = (case i of Woken w \<Rightarrow> wakeup_ok w | Observed out \<Rightarrow> True)"

lemma appSteps_dry:
  assumes "etcd_inv (registry e)" and "DryRun cfg" and "\<forall>i \<in> set is. input_ok i"
    and "appSteps cfg zone n e is = Some e'"
  shows "etcd_inv (registry e') \<and> etcd_zone (registry e') = etcd_zone (registry e)"
  using assms
proof (induction "is" arbitrary: e n)
  case (Cons i "is")
  obtain e1 where 1: "appStep cfg zone i e = Some e1" and 2: "appSteps cfg zone (Suc n) e1 is = Some e'"
    using Cons.prems(4) by (auto split: option.splits)
  have "etcd_inv (registry e1) \<and> etcd_zone (registry e1) = etcd_zone (registry e)"
  proof (cases i)
    case (Woken w)
    have "foldM (\<lambda>i e w. wake cfg (etcdUpstream zone) w e) 0 e [w] = Some e1"
      using 1 Woken by (simp add: appStep_def)
    from etcd.wakes_dry [OF Cons.prems(1,2) _ this] Cons.prems(3) Woken show ?thesis
      by (simp add: input_ok_def)
  next
    case (Observed out)
    with 1 Cons.prems(1) show ?thesis by (auto simp: appStep_def)
  qed
  with Cons.IH [OF _ _ _ 2] Cons.prems(2,3) show ?case by simp
qed simp

theorem dry_run_writes_nothing:
  assumes "NewWithFactories dockerFactory etcdFactory rt bound cfg = (Inr a, t)"
    and "etcd_inv (registry (engine a))" and "DryRun (App cfg)" and "\<forall>i \<in> set is. input_ok i"
    and "appRun (App cfg) zone is a = Some (err, a')"
  shows "etcd_zone (registry (engine a')) = etcd_zone (registry (engine a))"
proof -
  obtain e where e: "appSteps (App cfg) zone 0 (engine a) is = Some e"
    and a': "registry (engine a') = regStopHeartbeat (etcdUpstream zone) (registry e)"
    using assms(3,5) by (auto simp: appRun_def startHeartbeat_def)
  from appSteps_dry [OF assms(2-4) e] etcd.stop_keeps [of "registry e"] a' show ?thesis by simp
qed


subsection \<open>The connection to etcd\<close>

text \<open>
  With a validated configuration that has an https endpoint, the default factory never dials
  without TLS, and what it dials with names the configured endpoints and credentials.
\<close>

theorem default_factory_dials_securely:
  assumes "validate c = None" and "e \<in> set (Endpoints (Etcd c))" and "HasPrefix e ''https://''"
    and "defaultEtcdFactory (ClientTLS keyPair readFile appendCerts) dial (Etcd c) timeout = Inr res"
  shows "\<exists>tls. dial \<lparr>dialEndpoints = Endpoints (Etcd c), dialTimeout = timeout,
      dialUsername = Username (Etcd c), dialPassword = Password (Etcd c), dialTLS = Some tls\<rparr> = Inr res \<and>
    MinVersion tls = VersionTLS12 \<and> SkipVerify tls = InsecureSkipVerify (TLS (Etcd c))"
proof -
  obtain t where t: "ClientTLS keyPair readFile appendCerts (Etcd c) = Inr t"
    and dial: "dial \<lparr>dialEndpoints = Endpoints (Etcd c), dialTimeout = timeout,
      dialUsername = Username (Etcd c), dialPassword = Password (Etcd c), dialTLS = t\<rparr> = Inr res"
    using assms(4) by (auto simp: defaultEtcdFactory_def split: sum.splits)
  have "UsesTLS (Etcd c)" using validate_https [OF assms(1)] assms(2,3) by blast
  then obtain tls where "t = Some tls" using ClientTLS_encrypts [OF t] by auto
  with dial ClientTLS_fields(1,2) t show ?thesis by blast
qed

end
