(* ===== verification/Runs.thy ===== *)
theory Runs
  imports Wiring
begin

text \<open>
  Whole runs of the daemon over an etcd that keeps its promises: no input makes it hang or panic.
  The registry's wiring (client, run time and configuration) never changes, so what a tick needs
  of it holds at every tick; and the records it may write are storable if the containers' records
  are.
\<close>

subsection \<open>The wiring of the registry\<close>

definition wiring :: "'e EtcdRegistry \<Rightarrow> 'e etcdClient \<times> 'e runtime \<times> EtcdConfig" where
  "wiring er = (client er, env er, etcdCfg er)"

lemma wiring_simps [simp]:
  "wiring (incEtcdError er) = wiring er" "wiring (incLockFailure er) = wiring er"
  "call op er = (x, er') \<Longrightarrow> wiring er' = wiring er"
  by (auto simp: wiring_def incEtcdError_def incLockFailure_def call_def split: prod.splits)

lemma untouched_wiring: "untouched er er' \<Longrightarrow> wiring er' = wiring er"
  by (simp add: untouched_def same_view_def wiring_def)

lemma keeps_wiring: "keeps f \<Longrightarrow> etcd_inv er \<Longrightarrow> wiring (snd (f er)) = wiring er"
  by (simp add: keeps_def same_view_def wiring_def)

lemma deleteBatches_wiring: "wiring (snd (deleteBatches i keys firstErr er)) = wiring er"
proof (induction i keys firstErr er rule: deleteBatches.induct)
  case (1 i keys firstErr er)
  show ?case
  proof (cases "keys = []")
    case False
    let ?batch = "take batchSize keys"
    obtain res er1 where txn: "call (\<lambda>c. etcdTxn c [] (map OpDelete ?batch)) er = (res, er1)" by force
    note IH = 1 [OF False refl refl]
    show ?thesis
    proof (cases res)
      case (Inl err)
      with IH(1) txn show ?thesis
        using False by (subst deleteBatches.simps) (simp add: Let_def)
    next
      case (Inr b)
      with IH(2) txn show ?thesis
        using False by (subst deleteBatches.simps) (simp add: Let_def)
    qed
  qed (simp add: deleteBatches.simps)
qed

lemma Register_wiring: "Register lz d er = (err, er') \<Longrightarrow> wiring er' = wiring er"
  by (auto simp: Register_def getNextIndexedKey_def Let_def split: prod.splits sum.splits option.splits)

lemma deleteBatches_wiring':
  "deleteBatches i keys firstErr er = (err, er') \<Longrightarrow> wiring er' = wiring er"
  using deleteBatches_wiring [of i keys firstErr er] by simp

lemma Remove_wiring: "Remove d er = (err, er') \<Longrightarrow> wiring er' = wiring er"
  by (auto simp: Remove_def Let_def dest!: deleteBatches_wiring'
      split: prod.splits sum.splits if_splits)

text \<open>The interface holds with the wiring as part of the invariant.\<close>

definition wired :: "'e EtcdRegistry \<Rightarrow> 'e EtcdRegistry \<Rightarrow> bool" where
  "wired er0 er \<longleftrightarrow> etcd_inv er \<and> wiring er = wiring er0"

lemma wiring_same:
  "wiring er = wiring er0 \<longleftrightarrow> client er = client er0 \<and> env er = env er0 \<and> etcdCfg er = etcdCfg er0"
  by (simp add: wiring_def)

lemma keeps_wired: "keeps f \<Longrightarrow> wired er0 er \<Longrightarrow>
  wired er0 (snd (f er)) \<and> etcd_zone (snd (f er)) = etcd_zone er"
  using keeps_zone [of f er] keeps_wiring [of f er] by (simp add: wired_def)

lemma wired_upstream: "upstream_registry (etcdUpstream lz) (wired er0) etcd_zone erases (storable lz)"
proof (unfold_locales, goal_cases)
  case (1 er)
  then show ?case by (simp add: etcdUpstream_def keeps_wired List_keeps)
next
  case (2 er actual)
  then show ?case by (simp add: etcdUpstream_def List_zone wired_def)
next
  case (3 er q)
  then have "etcd_inv er" by (simp add: wired_def)
  from zone_record_ok [OF this 3(2)] show ?case .
next
  case (4 er)
  then show ?case by (simp add: etcdUpstream_def keeps_wired GetLiveHostnames_keeps)
next
  case (5 er)
  then show ?case by (simp add: etcdUpstream_def keeps_wired StartHeartbeat_keeps)
next
  case (6 er)
  then have "untouched er (StopHeartbeat er)" by (intro StopHeartbeat_keeps) (simp add: wired_def)
  with 6 show ?case by (simp add: etcdUpstream_def wired_def untouched_zone untouched_wiring)
next
  case (7 er d er')
  then show ?case using Register_effect [of er lz d None er'] by (simp add: etcdUpstream_def wired_def)
next
  case (8 er d err er')
  then show ?case
    using Register_effect [of er lz d err er'] Register_wiring [of lz d er err er']
    by (auto simp: etcdUpstream_def wired_def)
next
  case (9 er d er')
  then show ?case using Remove_effect [of er d None er'] by (simp add: etcdUpstream_def wired_def)
next
  case (10 er d err er')
  then show ?case
    using Remove_effect [of er d err er'] Remove_wiring [of d er err er']
    by (simp add: etcdUpstream_def wired_def)
next
  case 11
  then show ?case by (rule erases_self)
next
  case (12 er ks fn vars out vars' er')
  then have er: "etcd_inv er" and w: "wiring er = wiring er0"
    and run: "LockTransaction ks fn (vars, er) = Some (out, vars', er')"
    by (simp_all add: etcdUpstream_def wired_def)
  note views = untouched_zone untouched_wiring
  from LockTransaction_views [OF er run] show ?case
  proof (elim disjE exE conjE)
    fix er1 er2
    assume "untouched er er1" and fn: "fn (vars, er1) = (out, vars', er2)"
      and rel: "etcd_inv er2 \<and> out \<noteq> Panicked \<longrightarrow> untouched er2 er'"
    with w views [of er er1] have "wired er0 er1" "etcd_zone er1 = etcd_zone er"
      by (simp_all add: wired_def)
    moreover have "wired er0 er2 \<and> out \<noteq> Panicked \<longrightarrow> wired er0 er' \<and> etcd_zone er' = etcd_zone er2"
      using rel views [of er2 er'] by (simp add: wired_def)
    ultimately show ?thesis using fn by blast
  next
    fix e
    assume "out = Returned (Some e)" "vars' = vars" "untouched er er'"
    with w views [of er er'] show ?thesis by (simp add: wired_def)
  qed
qed

interpretation wired: upstream_registry "etcdUpstream lz" "wired er0" etcd_zone erases "storable lz"
  for lz er0
  by (rule wired_upstream)


subsection \<open>The tracked records\<close>

definition tracks :: "(RecordIntent \<Rightarrow> bool) \<Rightarrow> tracker \<Rightarrow> bool" where
  "tracks P t \<longleftrightarrow> (\<forall>cid ris n. t cid = Some (ris, n) \<longrightarrow> (\<forall>r \<in> set ris. P r))"

lemma tracks_wanted: "tracks P t \<Longrightarrow> r \<in> wanted t \<Longrightarrow> P r"
  unfolding tracks_def wanted_def by blast

lemma tracks_perform:
  "tracks P t \<Longrightarrow> (\<And>cid ris r. eff = Started cid ris \<Longrightarrow> r \<in> set ris \<Longrightarrow> P r) \<Longrightarrow>
   tracks P (perform eff t)"
  by (cases eff)
    (auto simp: tracks_def track_def untrack_def resync_def split: option.splits if_splits)

text \<open>The container of an event has only records that can be stored.\<close>

definition yields :: "(RecordIntent \<Rightarrow> bool) \<Rightarrow> AppConfig \<Rightarrow> ContainerEvent \<Rightarrow> bool" where
  "yields P cfg evt \<longleftrightarrow> (\<forall>ord. is_order ord \<longrightarrow> (\<forall>r \<in> set (GetContainerRecordIntents ord evt cfg). P r))"

lemma Started_yields:
  "effect_of ord cfg evt = Started cid ris \<Longrightarrow> is_order ord \<Longrightarrow> yields P cfg evt \<Longrightarrow> r \<in> set ris \<Longrightarrow> P r"
  by (auto simp: effect_of_def yields_def Let_def split: if_splits)


subsection \<open>Runs\<close>

definition run_inv :: "(Time \<Rightarrow> int) \<Rightarrow> 'e EtcdRegistry \<Rightarrow> 'e EtcdRegistry engine \<Rightarrow> bool" where
  "run_inv lz er0 e \<longleftrightarrow> wired er0 (registry e) \<and> mem_wf (memory e) \<and>
     tracks (storable lz) (mem_abs (memory e))"

definition input_storable :: "(Time \<Rightarrow> int) \<Rightarrow> AppConfig \<Rightarrow> app_input \<Rightarrow> bool" where
  "input_storable lz cfg i \<longleftrightarrow> input_ok i \<and>
     (case i of Woken (Event ord now evt) \<Rightarrow> yields (storable lz) cfg evt | _ \<Rightarrow> True)"

lemma tick_memory: "tick ords ord cfg reg start finish e = Some e' \<Longrightarrow> memory e' = memory e"
  by (auto simp: tick_def split: option.splits outcome.splits)

lemma tick_run:
  assumes "run_inv lz er0 e" and "orders_ok ords" and "is_order ord"
    and "clock_ok (client er0) (env er0) clk" and "retry_positive er0"
  shows "\<exists>e'. tick ords ord cfg (etcdUpstream lz) start finish e = Some e' \<and> run_inv lz er0 e'"
proof -
  have w: "wired er0 (registry e)" using assms(1) by (simp add: run_inv_def)
  then have "etcd_inv (registry e)" "clock_ok (client (registry e)) (env (registry e)) clk"
    "retry_positive (registry e)"
    using assms(4,5) by (simp_all add: wired_def wiring_same retry_positive_def)
  then obtain e' where tick: "tick ords ord cfg (etcdUpstream lz) start finish e = Some e'"
    using tick_returns [OF _ assms(2)] by blast
  have "wired er0 (registry e')"
  proof (cases "DryRun cfg")
    case True
    from wired.tick_dry [OF w assms(2) True tick] show ?thesis by simp
  next
    case False
    have "set (GetAllDesiredRecordIntents ord (memory e)) = wanted (mem_abs (memory e))"
      using mem.set_desired assms(1,3) by (simp add: run_inv_def)
    then have "\<forall>d \<in> set (GetAllDesiredRecordIntents ord (memory e)). storable lz d"
      using tracks_wanted assms(1) by (auto simp: run_inv_def)
    from wired.tick_effect [OF w assms(2) False this tick] show ?thesis by simp
  qed
  with tick tick_memory [OF tick] assms(1) show ?thesis by (simp add: run_inv_def)
qed

lemma appStep_run:
  assumes "run_inv lz er0 e" and "input_storable lz cfg i"
    and "clock_ok (client er0) (env er0) clk" and "retry_positive er0"
  shows "\<exists>e'. appStep cfg lz i e = Some e' \<and> run_inv lz er0 e'"
proof (cases i)
  case (Woken w)
  show ?thesis
  proof (cases w)
    case (Event ord now evt)
    with Woken assms(2) have ord: "is_order ord" and y: "yields (storable lz) cfg evt"
      by (simp_all add: input_storable_def input_ok_def wakeup_ok_def)
    have wf: "mem_wf (memory e)" and t: "tracks (storable lz) (mem_abs (memory e))"
      using assms(1) by (simp_all add: run_inv_def)
    note eff = handleEvent_effect [OF ord wf, of cfg now evt]
    have "tracks (storable lz) (mem_abs (handleEvent ord cfg now (memory e) evt))"
      unfolding eff(2) by (rule tracks_perform [OF t Started_yields [OF _ ord y]])
    with eff(1) Woken Event assms(1) show ?thesis by (simp add: appStep_def wake_def run_inv_def)
  next
    case (Ticker ords ord start finish)
    with Woken assms(2) have "orders_ok ords" "is_order ord"
      by (simp_all add: input_storable_def input_ok_def wakeup_ok_def)
    from tick_run [OF assms(1) this assms(3,4)] Woken Ticker show ?thesis
      by (simp add: appStep_def wake_def)
  qed
next
  case (Observed out)
  with assms(1) show ?thesis by (simp add: appStep_def run_inv_def)
qed

lemma appSteps_run:
  assumes "run_inv lz er0 e" and "\<forall>i \<in> set is. input_storable lz cfg i"
    and "clock_ok (client er0) (env er0) clk" and "retry_positive er0"
  shows "\<exists>e'. appSteps cfg lz n e is = Some e' \<and> run_inv lz er0 e'"
  using assms(1,2)
proof (induction "is" arbitrary: e n)
  case (Cons i "is")
  obtain e1 where "appStep cfg lz i e = Some e1" "run_inv lz er0 e1"
    using appStep_run [OF Cons.prems(1) _ assms(3,4), of cfg i] Cons.prems(2) by auto
  with Cons show ?case by simp
qed simp

text \<open>
  A built daemon processes whatever reaches it and stops only when it is cancelled: no tick hangs
  and none panics.
\<close>

theorem daemon_run_returns:
  assumes "NewWithFactories dockerFactory etcdFactory rt bound cfg = (Inr a, t)"
    and "etcd_inv (registry (engine a))"
    and "clock_ok (client (registry (engine a))) (env (registry (engine a))) clk"
    and "retry_positive (registry (engine a))"
    and "\<forall>i \<in> set is. input_storable lz (App cfg) i"
  shows "\<exists>a'. appRun (App cfg) lz is a = Some (Some ContextCanceled, a') \<and>
    etcd_inv (registry (engine a'))"
proof -
  let ?er = "registry (engine a)"
  let ?e = "startHeartbeat (App cfg) (etcdUpstream lz) (engine a)"
  have w: "wired ?er ?er" using assms(2) by (simp add: wired_def)
  have "memory ?e = NewMemoryState"
    by (rule built_engine [OF assms(1)]) (simp add: startHeartbeat_def newEngine_def Let_def)
  moreover have "wired ?er (registry ?e)"
    using w wired.start_keeps [OF w] by (simp add: startHeartbeat_def)
  moreover have "tracks (storable lz) (mem_abs NewMemoryState)"
    by (simp add: tracks_def mem_abs_def NewMemoryState_def)
  ultimately have "run_inv lz ?er ?e" by (simp add: run_inv_def mem_wf_New)
  then obtain e' where steps: "appSteps (App cfg) lz 0 ?e is = Some e'" and "run_inv lz ?er e'"
    using appSteps_run [OF _ assms(5,3,4)] by blast
  then have "wired ?er (registry e')" by (simp add: run_inv_def)
  with wired.stop_keeps [OF this] steps show ?thesis by (auto simp: appRun_def wired_def)
qed

end
