(* ===== verification/Etcd_Heartbeat.thy ===== *)
theory Etcd_Heartbeat
  imports Etcd_Zone
begin

text \<open>
  Heartbeats: a host that is not heartbeating learns of no live hosts at all, and never takes a
  live host for dead; what the key of a heartbeat says while it is kept up; and how the waits
  between the attempts to renew a lost lease grow.
\<close>

subsection \<open>The live hosts\<close>

lemma TrimPrefix_key: "TrimPrefix (heartbeatKey h) (HeartbeatKeyPrefix @ ''/'') = h"
proof -
  have "heartbeatKey h = (HeartbeatKeyPrefix @ ''/'') @ h" by (simp add: heartbeatKey_def)
  then show ?thesis by (simp only: TrimPrefix_append)
qed

lemma heartbeat_key_prefix: "HasPrefix key (HeartbeatKeyPrefix @ ''/'') \<longleftrightarrow> (\<exists>h. key = heartbeatKey h)"
  unfolding HasPrefix_iff heartbeatKey_def by simp

theorem GetLiveHostnames_result:
  assumes "etcd_inv er" and "GetLiveHostnames er = (Inr live, er')"
  shows "(live = None \<longleftrightarrow> \<not> hbActive er)"
    and "live = Some hosts \<Longrightarrow>
      set hosts = insert (ownHostname er) {h. h \<noteq> [] \<and> contents er (heartbeatKey h) \<noteq> None}"
proof -
  let ?get = "call (\<lambda>c. etcdGet c (HeartbeatKeyPrefix @ ''/'') [WithPrefix, WithKeysOnly])"
  obtain res er1 where get: "?get er = (res, er1)" by force
  show "live = None \<longleftrightarrow> \<not> hbActive er"
    using assms(2) get by (cases res) (auto simp: GetLiveHostnames_def Let_def split: if_splits)
  assume "live = Some hosts"
  with assms(2) get obtain kvs where res: "res = Inr kvs"
    and hosts: "hosts = filter (\<lambda>h. h \<noteq> [])
        (map (\<lambda>kv. TrimPrefix (fst kv) (HeartbeatKeyPrefix @ ''/'')) kvs) @ [ownHostname er]"
    by (cases res) (auto simp: GetLiveHostnames_def Let_def split: if_splits)
  let ?trim = "\<lambda>key. TrimPrefix key (HeartbeatKeyPrefix @ ''/'')"
  have "fst ` set kvs = heartbeatKey ` {h. contents er (heartbeatKey h) \<noteq> None}"
    using get_result(3) [OF assms(1) _ get [unfolded res]] heartbeat_key_prefix by auto
  then have "?trim ` fst ` set kvs = {h. contents er (heartbeatKey h) \<noteq> None}"
    by (simp add: image_image TrimPrefix_key)
  moreover have "set hosts = insert (ownHostname er) {h \<in> ?trim ` fst ` set kvs. h \<noteq> []}"
    by (auto simp: hosts)
  ultimately show "set hosts = insert (ownHostname er) {h. h \<noteq> [] \<and> contents er (heartbeatKey h) \<noteq> None}"
    by auto
qed

text \<open>Only a host that is heartbeating collects the records of others.\<close>

lemma hbActive_call: "call op er = (x, er') \<Longrightarrow> hbActive er' = hbActive er"
  by (auto simp: call_def split: prod.splits)

lemma List_hbActive: "List' er = (res, er') \<Longrightarrow> hbActive er' = hbActive er"
proof -
  assume list: "List' er = (res, er')"
  obtain got er1 where get: "call (\<lambda>c. etcdGet c (pathPrefix er) [WithPrefix, WithSerializable]) er =
      (got, er1)" by force
  with list have "hbActive er' = hbActive er1"
    by (cases got) (auto simp: List'_def Let_def incEtcdError_def)
  with hbActive_call [OF get] show ?thesis by simp
qed

theorem no_heartbeat_no_collection:
  assumes "\<not> hbActive er" and "List' er = (Inr actual, er1)" and "\<not> DryRun cfg"
    and "planned ords ord cfg s actual None filtered toAdd toRemove"
  shows "reconcilePass ords ord cfg (etcdUpstream lz) s (vars, er) =
    applyWrites (etcdUpstream lz) toAdd toRemove
      (skippedVars vars (GetAllDesiredRecordIntents ord s) filtered, er1)"
proof -
  have "GetLiveHostnames er1 = (Inr None, er1)"
    using List_hbActive [OF assms(2)] assms(1) by (simp add: GetLiveHostnames_def)
  then show ?thesis
    using reconcilePass_eq [of "etcdUpstream lz" er actual er1 "Inr None" er1 ords ord cfg s filtered
        toAdd toRemove vars] assms(2-4)
    by (simp add: etcdUpstream_def)
qed


subsection \<open>The key\<close>

text \<open>After a start that succeeds the key is there, under the lease that is kept alive.\<close>

lemma grant_publishes:
  assumes "etcd_inv er" and "grantAndKeepAlive (heartbeatKey h) er = (Inr ls, er')"
  shows "contents er' (heartbeatKey h) = Some (ownHostname er, Some ls)"
proof -
  obtain granted er1 where 1: "call (\<lambda>c. etcdGrant c (heartbeatTTL er)) er = (granted, er1)" by force
  obtain l where l: "granted = Inr l" using assms(2) 1 by (cases granted) (auto simp: grantAndKeepAlive_def)
  obtain p er2 where 2: "call (\<lambda>c. etcdPut c (heartbeatKey h) (ownHostname er) (Some l)) er1 = (p, er2)"
    by force
  obtain ka er3 where 3: "call (\<lambda>c. etcdKeepAlive c l) er2 = (ka, er3)" by force
  have p: "p = None" "ka = None" "ls = l" "er' = er3"
    using assms(2) 1 2 3 l by (cases p; cases ka; auto simp: grantAndKeepAlive_def)+
  note u1 = untouched_step [OF untouched_refl [OF assms(1)] 1 grant_keeps]
  note u2 = untouched_step [OF u1 2 heartbeat_put_keeps]
  have inv: "etcd_inv er1" "etcd_inv er2" using u1 u2 by (simp_all add: untouched_def)
  obtain w where put: "etcdPut (client er1) (heartbeatKey h) (ownHostname er) (Some l) (world er1) = (p, w)"
    and er2: "er2 = er1\<lparr>world := w\<rparr>"
    using 2 by (auto simp: call_def split: prod.splits)
  have "contents er2 = (contents er1)(heartbeatKey h \<mapsto> (ownHostname er, Some l))"
    using put_result [OF inv(1) put] p(1) er2 by (simp add: write_result_def contents_def)
  moreover have "leases_ok (client er2)" using inv(2) by (simp add: etcd_inv_def etcd_ok_def)
  then have "contents er3 = contents er2"
    using 3 by (auto simp: call_def contents_def leases_ok_def split: prod.splits dest!: spec [of _ l] spec [of _ "world er2"])
  ultimately show ?thesis using p by simp
qed

theorem StartHeartbeat_publishes:
  assumes "etcd_inv er" and "StartHeartbeat er = (err, er')"
  shows "err = None \<Longrightarrow> hbActive er' \<and>
      contents er' (heartbeatKey (ownHostname er)) = Some (ownHostname er, Some (hbLease er'))"
    and "err \<noteq> None \<Longrightarrow> hbActive er' = hbActive er"
proof -
  obtain res er1 where g: "grantAndKeepAlive (heartbeatKey (ownHostname er)) er = (res, er1)" by force
  show "hbActive er' \<and> contents er' (heartbeatKey (ownHostname er)) = Some (ownHostname er, Some (hbLease er'))"
    if none: "err = None"
  proof -
    obtain ls where "res = Inr ls" using assms(2) g none by (cases res) (auto simp: StartHeartbeat_def)
    with assms g grant_publishes [OF assms(1), of "ownHostname er" ls er1] show ?thesis
      by (auto simp: StartHeartbeat_def contents_def)
  qed
  have "hbActive (snd (grantAndKeepAlive key er)) = hbActive er" for key
    by (auto simp: grantAndKeepAlive_def bestEffortCleanup_def call_def Let_def
        split: prod.splits sum.splits option.splits)
  then have "hbActive er1 = hbActive er" using g by (metis snd_conv)
  then show "hbActive er' = hbActive er" if "err \<noteq> None"
    using assms(2) g that by (cases res) (auto simp: StartHeartbeat_def incEtcdError_def)
qed


subsection \<open>The waits\<close>

lemma retryBackoff_pow:
  "(retryBackoff ^^ n) initialBackoff = min (initialBackoff * 2 ^ n) maxBackoff"
proof (induction n)
  case (Suc n)
  then show ?case by (auto simp: retryBackoff_def min_def initialBackoff_def maxBackoff_def)
qed (simp add: initialBackoff_def maxBackoff_def)

theorem reestablish_waits:
  "reestablishHeartbeat key b rs er = (waits, res) \<Longrightarrow> k < length waits \<Longrightarrow>
   waits ! k = (retryBackoff ^^ k) b"
proof (induction key b rs er arbitrary: waits res k rule: reestablishHeartbeat.induct)
  case (2 key b r rs er)
  show ?case
  proof (cases "r = DoneBefore")
    case False
    obtain g er1 where g: "grantAndKeepAlive key er = (g, er1)" by force
    show ?thesis
    proof (cases g)
      case (Inl err)
      show ?thesis
      proof (cases "r = DoneWaiting")
        case wait: False
        obtain waits' res' er2 where rec: "reestablishHeartbeat key (retryBackoff b) rs (incEtcdError er1) =
            (waits', res', er2)" using prod_cases3 by blast
        have waits: "waits = b # waits'" using 2(2) False wait g Inl rec by auto
        with 2(3) 2(1) [OF False g [symmetric] Inl wait rec, of "k - 1"] show ?thesis
          by (cases k) (simp_all add: funpow_swap1)
      qed (use 2(2,3) False g Inl in auto)
    qed (use 2(2,3) False g in auto)
  qed (use 2(2,3) in auto)
qed simp

text \<open>Whether the lease is held again is what the result says.\<close>

lemma grant_hbActive: "hbActive (snd (grantAndKeepAlive key er)) = hbActive er"
  by (auto simp: grantAndKeepAlive_def bestEffortCleanup_def call_def Let_def
      split: prod.splits sum.splits option.splits)

theorem reestablish_active:
  "reestablishHeartbeat key b rs er = (waits, res, er') \<Longrightarrow> \<not> hbActive er \<Longrightarrow>
   hbActive er' \<longleftrightarrow> res = Some True"
proof (induction key b rs er arbitrary: waits res er' rule: reestablishHeartbeat.induct)
  case (2 key b r rs er)
  show ?case
  proof (cases "r = DoneBefore")
    case False
    obtain g er1 where g: "grantAndKeepAlive key er = (g, er1)" by force
    have act: "\<not> hbActive (incEtcdError er1)"
      using grant_hbActive [of key er] g 2(3) by (simp add: incEtcdError_def)
    show ?thesis
    proof (cases g)
      case (Inl err)
      show ?thesis
      proof (cases "r = DoneWaiting")
        case wait: False
        obtain waits' res' er2 where rec: "reestablishHeartbeat key (retryBackoff b) rs (incEtcdError er1) =
            (waits', res', er2)" using prod_cases3 by blast
        have "res = res'" "er' = er2" using 2(2) False wait g Inl rec by auto
        with 2(1) [OF False g [symmetric] Inl wait rec act] show ?thesis by simp
      qed (use 2(2) False g Inl act in auto)
    qed (use 2(2) False g in auto)
  qed (use 2(2,3) in auto)
qed simp

text \<open>
  While the lease is lost the host is not active; it is active again once a new lease is held.
\<close>

theorem maintain_active:
  "hbActive er \<Longrightarrow> closes = (False, rs) # closes' \<Longrightarrow>
   reestablishHeartbeat key initialBackoff rs (er\<lparr>hbActive := False\<rparr>) = (waits, res, er') \<Longrightarrow>
   maintainHeartbeat key closes er = (if res = Some True then maintainHeartbeat key closes' er' else er') \<and>
   (hbActive er' \<longleftrightarrow> res = Some True)"
  using reestablish_active [of key initialBackoff rs "er\<lparr>hbActive := False\<rparr>" waits res er']
  by (auto split: option.splits bool.splits)

end
