(* ===== verification/Cluster.thy ===== *)
theory Cluster
  imports Runs Etcd_Heartbeat
begin

text \<open>
  Several hosts that share one etcd.  Each runs its own engine; the ticks are serialised by the
  global lock, and what else the hosts do to the store (heartbeats, leases that end) leaves the
  records alone.  The zone stays free of conflicts, and once every host has ticked it holds exactly
  the records the hosts want.
\<close>

subsection \<open>A tick without an error\<close>

definition succeeded :: "'r engine \<Rightarrow> bool" where
  "succeeded e = (case health e of None \<Rightarrow> False | Some s \<Rightarrow> lastReconcileErr s = None)"

text \<open>
  Such a tick has done its whole plan, and if it learned of live hosts, it took no host whose
  heartbeat is in the store for dead.
\<close>

theorem tick_pass:
  assumes inv: "etcd_inv (registry e)" and "orders_ok ords" and "\<not> DryRun cfg"
    and "\<forall>d \<in> set (GetAllDesiredRecordIntents ord (memory e)). storable lz d"
    and "tick ords ord cfg (etcdUpstream lz) start finish e = Some e'" and "succeeded e'"
  obtains live where "etcd_inv (registry e')"
    and "pass_done erases ords ord cfg (memory e) live (etcd_zone (registry e)) (etcd_zone (registry e')) None"
    and "\<And>hosts h. live = Some hosts \<Longrightarrow> h \<noteq> [] \<Longrightarrow> contents (registry e) (heartbeatKey h) \<noteq> None \<Longrightarrow>
      h \<in> set hosts"
proof -
  let ?fn = "reconcilePass ords ord cfg (etcdUpstream lz) (memory e)"
  obtain err vars r where locked: "LockTransaction [''__global__''] ?fn (noVars, registry e) =
      Some (Returned err, vars, r)"
    and e': "registry e' = r" "health e' = map_option (\<lambda>s. RecordReconcile finish s err) (health e)"
    using assms(5) by (auto simp: tick_def etcdUpstream_def split: option.splits outcome.splits)
  have "err = None"
    using assms(6)
    by (cases "health e"; cases err) (auto simp: succeeded_def e'(2) RecordReconcile_def Let_def)
  from LockTransaction_locked [OF inv locked [unfolded this]]
  obtain er1 er2 where 1: "untouched (registry e) er1" and pass: "?fn (noVars, er1) = (Returned None, vars, er2)"
    and 2: "etcd_inv er2 \<Longrightarrow> untouched er2 r"
    and same: "\<And>k. k \<notin> lockPath ` set [''__global__''] \<Longrightarrow> contents er1 k = contents (registry e) k"
    by blast
  let ?live = "live_of (fst (GetLiveHostnames (snd (List' er1))))"
  have inv1: "etcd_inv er1" and zone1: "etcd_zone er1 = etcd_zone (registry e)"
    using untouched_zone [OF 1] 1 by (simp_all add: untouched_def)
  from etcd.pass_effect [OF inv1 assms(2,4,3) pass]
  have done': "etcd_inv er2"
    "pass_done erases ords ord cfg (memory e) ?live (etcd_zone (registry e)) (etcd_zone er2) None"
    by (simp_all add: zone1 etcdUpstream_def)
  then have "etcd_inv r" "etcd_zone r = etcd_zone er2" using untouched_zone [OF 2] by simp_all
  moreover have "h \<in> set hosts"
    if "?live = Some hosts" "h \<noteq> []" "contents (registry e) (heartbeatKey h) \<noteq> None" for hosts h
  proof -
    have "fst (GetLiveHostnames (snd (List' er1))) = Inr (Some hosts)"
      using that(1) by (simp add: live_of_def split: sum.splits)
    then obtain er3 where g: "GetLiveHostnames (snd (List' er1)) = (Inr (Some hosts), er3)"
      by (metis prod.collapse)
    have "etcd_inv (snd (List' er1))" using keeps_zone [OF List_keeps inv1] by simp
    note GetLiveHostnames_result(2) [OF this g refl]
    moreover have "contents (snd (List' er1)) (heartbeatKey h) = contents (registry e) (heartbeatKey h)"
      using same [of "heartbeatKey h"] heartbeatKey_not_lock by (simp add: List_contents [OF inv1])
    ultimately show ?thesis using that(2,3) by simp
  qed
  ultimately show thesis using that [of ?live] done' e'(1) by simp
qed

subsection \<open>Hosts that share a store\<close>

text \<open>The state of the store, and the engine of each host; the host's own view of the store is stale.\<close>

record 'e cluster =
  shared :: 'e
  engines :: "string \<Rightarrow> 'e EtcdRegistry engine"

definition seeing :: "'e \<Rightarrow> 'e EtcdRegistry \<Rightarrow> 'e EtcdRegistry" where
  "seeing w er = er\<lparr>world := w\<rparr>"

definition on_shared :: "'e cluster \<Rightarrow> string \<Rightarrow> 'e EtcdRegistry engine" where
  "on_shared c h = (engines c h)\<lparr>registry := seeing (shared c) (registry (engines c h))\<rparr>"

definition advance :: "'e cluster \<Rightarrow> string \<Rightarrow> 'e EtcdRegistry engine \<Rightarrow> 'e cluster" where
  "advance c h e = c\<lparr>shared := world (registry e), engines := (engines c)(h := e)\<rparr>"

text \<open>The background work of a host: what it does to its heartbeat.\<close>

datatype heartbeat_op = Start_Beat | Stop_Beat | Maintain_Beat "(bool \<times> retry list) list"

fun beat :: "heartbeat_op \<Rightarrow> 'e EtcdRegistry \<Rightarrow> 'e EtcdRegistry" where
  "beat Start_Beat er = snd (StartHeartbeat er)"
| "beat Stop_Beat er = StopHeartbeat er"
| "beat (Maintain_Beat closes) er = maintainHeartbeat (heartbeatKey (ownHostname er)) closes er"

text \<open>
  A step: a host ticks, with or without an error, or handles an event, or works on its heartbeat;
  or the store changes by itself (a lease ends, time passes), which no record depends on.
\<close>

datatype cluster_label = Ticked string bool | Handled string | Beat string | Elsewhere

inductive cluster_step ::
  "(Time \<Rightarrow> int) \<Rightarrow> 'e EtcdRegistry \<Rightarrow> (string \<Rightarrow> AppConfig) \<Rightarrow> 'e cluster \<Rightarrow> cluster_label \<Rightarrow> 'e cluster \<Rightarrow> bool"
  for lz er0 cfgs where
  ticked: "orders_ok ords \<Longrightarrow> is_order ord \<Longrightarrow>
    tick ords ord (cfgs h) (etcdUpstream lz) start finish (on_shared c h) = Some e \<Longrightarrow>
    cluster_step lz er0 cfgs c (Ticked h (succeeded e)) (advance c h e)"
| handled: "is_order ord \<Longrightarrow> yields (\<lambda>r. storable lz r \<and> plain_intent r) (cfgs h) evt \<Longrightarrow>
    e = (on_shared c h)\<lparr>memory := handleEvent ord (cfgs h) now (memory (engines c h)) evt\<rparr> \<Longrightarrow>
    cluster_step lz er0 cfgs c (Handled h) (advance c h e)"
| beaten: "e = (on_shared c h)\<lparr>registry := beat op (registry (on_shared c h))\<rparr> \<Longrightarrow>
    cluster_step lz er0 cfgs c (Beat h) (advance c h e)"
| elsewhere: "\<forall>k. HasPrefix k (pathPrefix er0) \<longrightarrow> store (client er0) w k = store (client er0) (shared c) k \<Longrightarrow>
    cluster_step lz er0 cfgs c Elsewhere (c\<lparr>shared := w\<rparr>)"

inductive_cases TickedE: "cluster_step lz er0 cfgs c (Ticked h ok) c'"

text \<open>Runs: the labels of their steps, in order.\<close>

inductive runs :: "('c \<Rightarrow> 'l \<Rightarrow> 'c \<Rightarrow> bool) \<Rightarrow> 'c \<Rightarrow> 'l list \<Rightarrow> 'c \<Rightarrow> bool" for step where
  stop: "runs step c [] c"
| more: "step c l c1 \<Longrightarrow> runs step c1 ls c2 \<Longrightarrow> runs step c (l # ls) c2"

lemma runs_inv:
  assumes "runs step c ls c'" and "I c"
    and "\<And>c l c'. step c l c' \<Longrightarrow> l \<in> set ls \<Longrightarrow> I c \<Longrightarrow> I c'"
  shows "I c'"
  using assms by (induction rule: runs.induct) auto

abbreviation zone_of :: "'e EtcdRegistry \<Rightarrow> 'e cluster \<Rightarrow> RecordIntent set" where
  "zone_of er0 c \<equiv> etcd_zone (seeing (shared c) er0)"

text \<open>The hosts run with the same client and configuration of etcd, each under its own name.\<close>

definition cluster_ok ::
  "(Time \<Rightarrow> int) \<Rightarrow> 'e EtcdRegistry \<Rightarrow> (string \<Rightarrow> AppConfig) \<Rightarrow> 'e cluster \<Rightarrow> bool"
where
  "cluster_ok lz er0 cfgs c \<longleftrightarrow> etcd_inv (seeing (shared c) er0) \<and>
     (\<forall>h. wiring (registry (engines c h)) = wiring er0 \<and> mem_wf (memory (engines c h)) \<and>
        tracks (\<lambda>r. storable lz r \<and> plain_intent r \<and> Hostname r = AppHostname (cfgs h))
          (mem_abs (memory (engines c h))))"

text \<open>The invariant depends on the wiring and the store only.\<close>

lemma seeing_simps [simp]: "world (seeing w er) = w" "client (seeing w er) = client er" "env (seeing w er) = env er"
  "etcdCfg (seeing w er) = etcdCfg er" "wiring (seeing w er) = wiring er"
  by (simp_all add: seeing_def wiring_def)

lemma wired_seeing:
  assumes "wiring er = wiring er0"
  shows "contents er = contents (seeing (world er) er0)" and "etcd_inv er = etcd_inv (seeing (world er) er0)"
    and "etcd_zone er = etcd_zone (seeing (world er) er0)"
  using assms by (simp_all add: wiring_def contents_def etcd_inv_def etcd_zone_def)

lemma on_shared_simps [simp]:
  "memory (on_shared c h) = memory (engines c h)" "health (on_shared c h) = health (engines c h)"
  "registry (on_shared c h) = seeing (shared c) (registry (engines c h))"
  by (simp_all add: on_shared_def)

lemma on_shared_ok:
  assumes "cluster_ok lz er0 cfgs c"
  shows "wired er0 (registry (on_shared c h))" and "etcd_zone (registry (on_shared c h)) = zone_of er0 c"
    and "contents (registry (on_shared c h)) = contents (seeing (shared c) er0)"
  using assms wired_seeing [of "seeing (shared c) (registry (engines c h))" er0]
  by (auto simp: cluster_ok_def wired_def)

lemma advance_ok:
  assumes "cluster_ok lz er0 cfgs c" and "wired er0 (registry e)" and "mem_wf (memory e)"
    and "tracks (\<lambda>r. storable lz r \<and> plain_intent r \<and> Hostname r = AppHostname (cfgs h)) (mem_abs (memory e))"
  shows "cluster_ok lz er0 cfgs (advance c h e)" and "zone_of er0 (advance c h e) = etcd_zone (registry e)"
  using assms wired_seeing [of "registry e" er0]
  by (auto simp: cluster_ok_def wired_def advance_def)


subsection \<open>What every step keeps\<close>

text \<open>The background work leaves the records alone.\<close>

lemma untouched_fields:
  "untouched er0 er \<Longrightarrow> untouched er0 (er\<lparr>hbActive := a\<rparr>)"
  "untouched er0 er \<Longrightarrow> untouched er0 (er\<lparr>hbLease := ls, hbActive := a\<rparr>)"
  "untouched er0 er \<Longrightarrow> untouched er0 (incEtcdError er)"
  by (erule untouched_view, simp add: same_view_def contents_def incEtcdError_def)+

lemma untouched_reestablish:
  "untouched er0 er \<Longrightarrow> untouched er0 (snd (snd (reestablishHeartbeat (heartbeatKey h) b rs er)))"
proof (induction rs arbitrary: b er)
  case (Cons r rs)
  obtain g er1 where g: "grantAndKeepAlive (heartbeatKey h) er = (g, er1)" by force
  with untouched_grantAndKeepAlive [OF Cons.prems, of h] have u: "untouched er0 er1" by simp
  note next_round = Cons.IH [OF untouched_fields(3) [OF u], of "retryBackoff b"]
  from g u next_round Cons.prems show ?case
    by (cases g) (auto simp: untouched_fields split_beta Let_def)
qed simp

lemma untouched_maintain:
  "untouched er0 er \<Longrightarrow> untouched er0 (maintainHeartbeat (heartbeatKey h) closes er)"
proof (induction closes arbitrary: er)
  case (Cons close closes)
  obtain ctxDone rs where close: "close = (ctxDone, rs)" by force
  obtain waits res er1 where r: "reestablishHeartbeat (heartbeatKey h) initialBackoff rs (er\<lparr>hbActive := False\<rparr>) =
      (waits, res, er1)" using prod_cases3 by blast
  have "untouched er0 er1"
    using untouched_reestablish [OF untouched_fields(1) [OF Cons.prems], of h initialBackoff rs False] r by simp
  with Cons close r show ?case by (auto split: option.split bool.split)
qed simp

lemma beat_untouched: "etcd_inv er \<Longrightarrow> untouched er (beat op er)"
proof (cases op)
  case Start_Beat
  assume "etcd_inv er"
  with Start_Beat show ?thesis
    using keepsD [OF StartHeartbeat_keeps, of er "fst (StartHeartbeat er)" "snd (StartHeartbeat er)"]
    by (simp add: untouched_def)
qed (simp_all add: StopHeartbeat_keeps untouched_maintain untouched_refl)

text \<open>What a host tracks is its own and can be stored.\<close>

abbreviation local_ok :: "(Time \<Rightarrow> int) \<Rightarrow> AppConfig \<Rightarrow> RecordIntent \<Rightarrow> bool" where
  "local_ok lz cfg \<equiv> \<lambda>r. storable lz r \<and> plain_intent r \<and> Hostname r = AppHostname cfg"

lemma handleEvent_local:
  assumes "is_order ord" and "yields (\<lambda>r. storable lz r \<and> plain_intent r) cfg evt" and "mem_wf s"
    and "tracks (local_ok lz cfg) (mem_abs s)"
  shows "tracks (local_ok lz cfg) (mem_abs (handleEvent ord cfg now s evt))"
proof -
  have "local_ok lz cfg r" if "effect_of ord cfg evt = Started cid ris" "r \<in> set ris" for cid ris r
    using Started_yields [OF that(1) assms(1,2) that(2)] own_intents_effect [OF that(1)] that(2)
    by (simp add: own_intents_def)
  from tracks_perform [OF assms(4) this] show ?thesis
    by (simp add: handleEvent_effect(2) [OF assms(1,3)])
qed

lemma cluster_okD:
  assumes "cluster_ok lz er0 cfgs c"
  shows "mem_wf (memory (engines c h))" and "tracks (local_ok lz (cfgs h)) (mem_abs (memory (engines c h)))"
    and "is_order ord \<Longrightarrow> d \<in> set (GetAllDesiredRecordIntents ord (memory (engines c h))) \<Longrightarrow> local_ok lz (cfgs h) d"
proof -
  show wf: "mem_wf (memory (engines c h))"
    and t: "tracks (local_ok lz (cfgs h)) (mem_abs (memory (engines c h)))"
    using assms by (simp_all add: cluster_ok_def)
  assume "is_order ord" and "d \<in> set (GetAllDesiredRecordIntents ord (memory (engines c h)))"
  then show "local_ok lz (cfgs h) d"
    using mem.set_desired [OF _ wf, of ord] tracks_wanted [OF t, of d] by simp
qed

theorem cluster_step_ok:
  assumes "cluster_step lz er0 cfgs c l c'" and ok: "cluster_ok lz er0 cfgs c"
  shows "cluster_ok lz er0 cfgs c'"
    and "(\<nexists>h ok. l = Ticked h ok) \<Longrightarrow> zone_of er0 c' = zone_of er0 c"
proof -
  have "cluster_ok lz er0 cfgs c' \<and> ((\<nexists>h ok. l = Ticked h ok) \<longrightarrow> zone_of er0 c' = zone_of er0 c)"
    using assms(1)
  proof cases
    case (ticked ords ord h start finish e)
    note w = on_shared_ok(1) [OF ok, of h]
    have "wired er0 (registry e)"
    proof (cases "DryRun (cfgs h)")
      case True
      from wired.tick_dry [OF w ticked(3) True ticked(5)] show ?thesis by simp
    next
      case False
      have "\<forall>d \<in> set (GetAllDesiredRecordIntents ord (memory (on_shared c h))). storable lz d"
        using cluster_okD(3) [OF ok ticked(4)] by simp
      from wired.tick_effect [OF w ticked(3) False this ticked(5)] show ?thesis by simp
    qed
    moreover have "memory e = memory (engines c h)" using tick_memory [OF ticked(5)] by simp
    ultimately show ?thesis using advance_ok(1) [OF ok, of e h] cluster_okD(1,2) [OF ok] ticked(1,2) by simp
  next
    case (handled ord h evt e now)
    have "mem_wf (memory e)" "tracks (local_ok lz (cfgs h)) (mem_abs (memory e))"
      using handleEvent_effect(1) [OF handled(3) cluster_okD(1) [OF ok]]
        handleEvent_local [OF handled(3,4) cluster_okD(1,2) [OF ok]] by (simp_all add: handled(5))
    moreover have "registry e = registry (on_shared c h)" by (simp add: handled(5))
    ultimately show ?thesis
      using advance_ok [OF ok, of e h] on_shared_ok(1,2) [OF ok, of h] handled(1,2) by simp
  next
    case (beaten e op h)
    note w = on_shared_ok(1) [OF ok, of h]
    then have "untouched (registry (on_shared c h)) (registry e)"
      unfolding beaten(3) by (simp add: beat_untouched wired_def)
    from untouched_zone [OF this] untouched_wiring [OF this] w
    have "wired er0 (registry e)" "etcd_zone (registry e) = zone_of er0 c"
      using on_shared_ok(2) [OF ok, of h] by (simp_all add: wired_def)
    then show ?thesis
      using advance_ok [OF ok, of e h] cluster_okD(1,2) [OF ok] beaten by simp
  next
    case (elsewhere w)
    then have "same_view (seeing (shared c) er0) (seeing w er0)"
      by (simp add: same_view_def contents_def)
    from same_view_keeps [OF this] ok elsewhere(1,2) show ?thesis by (simp add: cluster_ok_def)
  qed
  then show "cluster_ok lz er0 cfgs c'"
    and "(\<nexists>h ok. l = Ticked h ok) \<Longrightarrow> zone_of er0 c' = zone_of er0 c" by blast+
qed

subsection \<open>The zone stays free of conflicts\<close>

text \<open>A tick without an error, of a host that writes.\<close>

lemma Ticked_pass:
  assumes ok: "cluster_ok lz er0 cfgs c" and "cluster_step lz er0 cfgs c (Ticked h True) c'"
    and "\<not> DryRun (cfgs h)"
  obtains ords ord live actual filtered add rem where "orders_ok ords" and "is_order ord"
    and "set actual = zone_of er0 c"
    and "planned ords ord (cfgs h) (memory (engines c h)) actual live filtered add rem"
    and "zone_of er0 c' = pass_result erases (set actual) add rem"
    and "\<And>hosts k. live = Some hosts \<Longrightarrow> k \<noteq> [] \<Longrightarrow> contents (seeing (shared c) er0) (heartbeatKey k) \<noteq> None \<Longrightarrow>
      k \<in> set hosts"
proof -
  from assms(2) obtain ords ord start finish e where orders: "orders_ok ords" "is_order ord"
    and tick: "tick ords ord (cfgs h) (etcdUpstream lz) start finish (on_shared c h) = Some e"
    and e: "succeeded e" "c' = advance c h e"
    by (auto elim: TickedE)
  have w: "wired er0 (registry (on_shared c h))" by (rule on_shared_ok(1) [OF ok])
  then have inv: "etcd_inv (registry (on_shared c h))" by (simp add: wired_def)
  have st: "\<forall>d \<in> set (GetAllDesiredRecordIntents ord (memory (on_shared c h))). storable lz d"
    using cluster_okD(3) [OF ok orders(2)] by simp
  obtain live where pass: "pass_done erases ords ord (cfgs h) (memory (on_shared c h)) live
      (etcd_zone (registry (on_shared c h))) (etcd_zone (registry e)) None"
    and live: "\<And>hosts k. live = Some hosts \<Longrightarrow> k \<noteq> [] \<Longrightarrow>
      contents (registry (on_shared c h)) (heartbeatKey k) \<noteq> None \<Longrightarrow> k \<in> set hosts"
    using tick_pass [OF inv orders(1) assms(3) st tick e(1)] by metis
  have "wired er0 (registry e)" using wired.tick_effect [OF w orders(1) assms(3) st tick] by simp
  moreover have "memory e = memory (engines c h)" using tick_memory [OF tick] by simp
  ultimately have "zone_of er0 c' = etcd_zone (registry e)"
    using advance_ok(2) [OF ok, of e h] cluster_okD(1,2) [OF ok] e(2) by simp
  moreover obtain actual filtered add rem where Z: "set actual = zone_of er0 c"
    and plan: "planned ords ord (cfgs h) (memory (engines c h)) actual live filtered add rem"
    and "etcd_zone (registry e) = pass_result erases (zone_of er0 c) add rem"
    using pass unfolding pass_done_def on_shared_ok(2) [OF ok] on_shared_simps(1) by blast
  ultimately have "zone_of er0 c' = pass_result erases (set actual) add rem" by simp
  note result = Z plan this
  show thesis
    by (rule that [OF orders result]) (rule live [unfolded on_shared_ok(3) [OF ok]])
qed

lemma Ticked_dry:
  assumes ok: "cluster_ok lz er0 cfgs c" and "cluster_step lz er0 cfgs c (Ticked h b) c'"
    and dry: "DryRun (cfgs h)"
  shows "zone_of er0 c' = zone_of er0 c"
proof -
  from assms(2) obtain ords ord start finish e where orders: "orders_ok ords" "is_order ord"
    and tick: "tick ords ord (cfgs h) (etcdUpstream lz) start finish (on_shared c h) = Some e"
    and c': "c' = advance c h e"
    by (auto elim: TickedE)
  from wired.tick_dry [OF on_shared_ok(1) [OF ok] orders(1) dry tick]
  have "wired er0 (registry e)" "etcd_zone (registry e) = zone_of er0 c"
    by (simp_all add: on_shared_ok(2) [OF ok, simplified])
  moreover have "memory e = memory (engines c h)" using tick_memory [OF tick] by simp
  ultimately show ?thesis using advance_ok(2) [OF ok, of e h] cluster_okD(1,2) [OF ok] c' by simp
qed

text \<open>What a pass adds are tracked records.\<close>

lemma planned_kept:
  assumes "planned ords ord cfg s actual live filtered add rem" and "orders_ok ords"
  shows "set filtered = {r. kept (GetAllDesiredRecordIntents ord s) r}" and "set add \<subseteq> set filtered"
    and "ReconcileAndValidate ords filtered actual cfg live = Some (add, rem)"
  using assms FilterRecordIntents_kept [OF assms(2), of "GetAllDesiredRecordIntents ord s"]
    reconcile_adds_desired(1) [OF assms(2), of filtered actual cfg live add rem]
  by (auto simp: planned_def)

definition zone_fine :: "RecordIntent set \<Rightarrow> bool" where
  "zone_fine Z \<longleftrightarrow> zone_ok Z \<and> (\<forall>q \<in> Z. plain_intent q)"

lemma Ticked_fine:
  assumes ok: "cluster_ok lz er0 cfgs c" and step: "cluster_step lz er0 cfgs c (Ticked h True) c'"
    and fine: "zone_fine (zone_of er0 c)"
  shows "zone_fine (zone_of er0 c')"
proof (cases "DryRun (cfgs h)")
  case False
  obtain ords ord live actual filtered add rem
    where orders: "orders_ok ords" "is_order ord" and Z: "set actual = zone_of er0 c"
    and plan: "planned ords ord (cfgs h) (memory (engines c h)) actual live filtered add rem"
    and Z': "zone_of er0 c' = pass_result erases (set actual) add rem"
    using Ticked_pass [OF ok step False] by metis
  have "zone_ok (set actual)" "\<forall>q \<in> set actual. plain_intent q"
    using fine by (simp_all add: zone_fine_def Z)
  from pass_zone_ok [OF orders(1) this plan] have "zone_ok (zone_of er0 c')" by (simp add: Z')
  moreover have "plain_intent d" if "d \<in> set add" for d
  proof -
    have "kept (GetAllDesiredRecordIntents ord (memory (engines c h))) d"
      using that planned_kept(1,2) [OF plan orders(1)] by blast
    from cluster_okD(3) [OF ok orders(2) kept_mem [OF this]] show ?thesis by simp
  qed
  ultimately show ?thesis using fine by (auto simp: zone_fine_def Z' Z pass_result_def)
qed (use Ticked_dry [OF ok step] fine in simp)

theorem run_zone_fine:
  assumes "runs (cluster_step lz er0 cfgs) c ls c'" and "\<forall>h. Ticked h False \<notin> set ls"
    and "cluster_ok lz er0 cfgs c" and "zone_fine (zone_of er0 c)"
  shows "cluster_ok lz er0 cfgs c' \<and> zone_fine (zone_of er0 c')"
proof (rule runs_inv [OF assms(1)])
  show "cluster_ok lz er0 cfgs c \<and> zone_fine (zone_of er0 c)" using assms(3,4) by simp
  fix c l c'
  assume step: "cluster_step lz er0 cfgs c l c'" and l: "l \<in> set ls"
    and ok: "cluster_ok lz er0 cfgs c \<and> zone_fine (zone_of er0 c)"
  note keep = cluster_step_ok [OF step] ok
  show "cluster_ok lz er0 cfgs c' \<and> zone_fine (zone_of er0 c')"
  proof (cases "\<exists>h b. l = Ticked h b")
    case True
    then obtain h b where "l = Ticked h b" by blast
    moreover from this l assms(2) have b by (cases b) auto
    ultimately show ?thesis using Ticked_fine [of lz er0 cfgs c h c'] step keep by simp
  qed (use keep in auto)
qed

subsection \<open>The hosts reach what they want\<close>

text \<open>The records a host is after: those of its containers that survive the filter.\<close>

definition tracked_list :: "'e cluster \<Rightarrow> string \<Rightarrow> RecordIntent list" where
  "tracked_list c h = GetAllDesiredRecordIntents (\<lambda>ks. ks) (memory (engines c h))"

definition aims :: "'e cluster \<Rightarrow> string \<Rightarrow> RecordIntent set" where
  "aims c h = {r. kept (tracked_list c h) r}"

text \<open>
  The hosts \<open>H\<close> get along: the zone has no conflict and only records of these hosts, no host wants a
  record that is incompatible with one of another host, the wanted records are addresses, none is
  tied with a rival, and no name lies below another one with the same data.
\<close>

definition harmonious :: "'e EtcdRegistry \<Rightarrow> string set \<Rightarrow> 'e cluster \<Rightarrow> bool" where
  "harmonious er0 H c \<longleftrightarrow>
     (let Z = zone_of er0 c; A = Z \<union> (\<Union>h \<in> H. aims c h) in
      zone_fine Z \<and> (\<forall>q \<in> Z. Hostname q \<in> H) \<and> erases_own_name A \<and>
      (\<forall>h \<in> H. untied (tracked_list c h) \<and>
         (\<forall>d \<in> aims c h. IsAddress (Rec d) \<and> (\<forall>q \<in> A. Hostname q \<noteq> h \<longrightarrow> compatible (Rec d) (Rec q)))))"

definition named :: "(string \<Rightarrow> AppConfig) \<Rightarrow> string set \<Rightarrow> bool" where
  "named cfgs H \<longleftrightarrow> (\<forall>h \<in> H. h \<noteq> [] \<and> AppHostname (cfgs h) = h \<and> \<not> DryRun (cfgs h))"

text \<open>
  A calm step: no event is handled, and a tick is one of \<open>H\<close> that ends without an error while every
  host of \<open>H\<close> has its heartbeat in the store.
\<close>

definition calm ::
  "(Time \<Rightarrow> int) \<Rightarrow> 'e EtcdRegistry \<Rightarrow> (string \<Rightarrow> AppConfig) \<Rightarrow> string set \<Rightarrow>
   'e cluster \<Rightarrow> cluster_label \<Rightarrow> 'e cluster \<Rightarrow> bool"
where
  "calm lz er0 cfgs H c l c' \<longleftrightarrow> cluster_step lz er0 cfgs c l c' \<and>
     (case l of
        Ticked h ok \<Rightarrow> ok \<and> h \<in> H \<and>
          (\<forall>k \<in> H. contents (seeing (shared c) er0) (heartbeatKey k) \<noteq> None)
      | Handled h \<Rightarrow> False | _ \<Rightarrow> True)"

lemma calm_runs: "runs (calm lz er0 cfgs H) c ls c' \<Longrightarrow> runs (cluster_step lz er0 cfgs) c ls c'"
  by (induction rule: runs.induct) (auto simp: calm_def intro: runs.intros)

lemma harmoniousD:
  assumes "harmonious er0 H c"
  shows "zone_fine (zone_of er0 c)" and "q \<in> zone_of er0 c \<Longrightarrow> Hostname q \<in> H"
    and "erases_own_name (zone_of er0 c \<union> (\<Union>h \<in> H. aims c h))" and "h \<in> H \<Longrightarrow> untied (tracked_list c h)"
    and "h \<in> H \<Longrightarrow> d \<in> aims c h \<Longrightarrow> IsAddress (Rec d)"
    and "h \<in> H \<Longrightarrow> d \<in> aims c h \<Longrightarrow> q \<in> zone_of er0 c \<union> (\<Union>h \<in> H. aims c h) \<Longrightarrow> Hostname q \<noteq> h \<Longrightarrow>
      compatible (Rec d) (Rec q)"
  using assms by (auto simp: harmonious_def Let_def)

text \<open>The map order of a tick does not matter for what the host is after.\<close>

lemma aims_order:
  assumes "cluster_ok lz er0 cfgs c" and "untied (tracked_list c h)" and "is_order ord"
  shows "{r. kept (GetAllDesiredRecordIntents ord (memory (engines c h))) r} = aims c h"
proof -
  have "set (GetAllDesiredRecordIntents ord (memory (engines c h))) = set (tracked_list c h)"
    using mem.set_desired [OF _ cluster_okD(1) [OF assms(1)]] assms(3)
    by (simp add: tracked_list_def is_order_def)
  from kept_set [OF assms(2) this] show ?thesis by (simp add: aims_def)
qed

lemma aims_own: "cluster_ok lz er0 cfgs c \<Longrightarrow> r \<in> aims c h \<Longrightarrow> local_ok lz (cfgs h) r"
  using cluster_okD(3) [of lz er0 cfgs c "\<lambda>ks. ks" r h] kept_mem [of "tracked_list c h" r]
  by (simp add: aims_def tracked_list_def is_order_def)

text \<open>How far the cluster is when the hosts \<open>T\<close> have ticked.\<close>

abbreviation of_host :: "string \<Rightarrow> RecordIntent set \<Rightarrow> RecordIntent set" where
  "of_host h Z \<equiv> {q \<in> Z. Hostname q = h}"

definition progress ::
  "(Time \<Rightarrow> int) \<Rightarrow> 'e EtcdRegistry \<Rightarrow> (string \<Rightarrow> AppConfig) \<Rightarrow> string set \<Rightarrow> 'e cluster \<Rightarrow>
   string set \<Rightarrow> 'e cluster \<Rightarrow> bool"
where
  "progress lz er0 cfgs H c0 T c \<longleftrightarrow> cluster_ok lz er0 cfgs c \<and>
     (\<forall>h. memory (engines c h) = memory (engines c0 h)) \<and> zone_fine (zone_of er0 c) \<and>
     zone_of er0 c \<subseteq> zone_of er0 c0 \<union> (\<Union>h \<in> H. aims c0 h) \<and>
     (\<forall>h \<in> T. Intent_Key ` of_host h (zone_of er0 c) = Intent_Key ` aims c0 h)"

lemma calm_memory:
  "calm lz er0 cfgs H c l c' \<Longrightarrow> memory (engines c' h) = memory (engines c h)"
  by (auto simp: calm_def advance_def elim!: cluster_step.cases dest!: tick_memory)

lemma calm_quiet:
  assumes "progress lz er0 cfgs H c0 T c" and "calm lz er0 cfgs H c l c'" and "\<nexists>h b. l = Ticked h b"
  shows "progress lz er0 cfgs H c0 T c'"
proof -
  have "cluster_step lz er0 cfgs c l c'" "cluster_ok lz er0 cfgs c"
    using assms(1,2) by (simp_all add: calm_def progress_def)
  from cluster_step_ok [OF this] assms(3) calm_memory [OF assms(2)] assms(1)
  show ?thesis by (simp add: progress_def)
qed

text \<open>The tick of a host finds itself apart from the others.\<close>

lemma tick_apart:
  assumes prog: "progress lz er0 cfgs H c0 T c" and harm: "harmonious er0 H c0" and nm: "named cfgs H"
    and h: "h \<in> H" and Z: "set actual = zone_of er0 c" and target: "set target = aims c0 h"
    and live: "\<And>hosts k. live = Some hosts \<Longrightarrow> k \<in> H \<Longrightarrow> k \<in> set hosts"
    and ok0: "cluster_ok lz er0 cfgs c0"
  shows "apart (cfgs h) live actual target"
proof -
  note harm' = harmoniousD [OF harm]
  have sub: "set actual \<subseteq> zone_of er0 c0 \<union> (\<Union>h \<in> H. aims c0 h)" and fine: "zone_fine (set actual)"
    using prog by (simp_all add: progress_def Z)
  have host: "AppHostname (cfgs k) = k" if "k \<in> H" for k using nm that by (simp add: named_def)
  have "zone_ok (set target)" unfolding target aims_def by (rule zone_ok_kept)
  moreover have "erases_own_name (set actual)" by (rule erases_own_name_mono [OF harm'(3) sub])
  moreover have "foreign_ok (cfgs h) live (set target) q" if q: "q \<in> set actual" for q
  proof -
    have in_H: "Hostname q \<in> H"
    proof (cases "q \<in> zone_of er0 c0")
      case False
      then obtain k where "k \<in> H" "q \<in> aims c0 k" using sub q by blast
      with aims_own [OF ok0 this(2)] host show ?thesis by simp
    qed (rule harm'(2))
    have "q \<in> zone_of er0 c0 \<union> (\<Union>h \<in> H. aims c0 h)" using sub q by blast
    with harm'(6) [OF h] in_H live show ?thesis
      unfolding foreign_ok_def host [OF h] target by blast
  qed
  moreover have "plain_intent d \<and> IsAddress (Rec d) \<and> Hostname d = AppHostname (cfgs h)"
    if "d \<in> set target" for d
    using that aims_own [OF ok0] harm'(5) [OF h] by (simp add: target)
  ultimately show ?thesis using fine by (simp add: apart_def zone_fine_def)
qed

lemma calm_tick:
  assumes prog: "progress lz er0 cfgs H c0 T c" and harm: "harmonious er0 H c0" and nm: "named cfgs H"
    and ok0: "cluster_ok lz er0 cfgs c0" and calm: "calm lz er0 cfgs H c (Ticked h b) c'"
  shows "progress lz er0 cfgs H c0 (insert h T) c'"
proof -
  have h: "h \<in> H" and step: "cluster_step lz er0 cfgs c (Ticked h True) c'"
    and beats: "\<forall>k \<in> H. contents (seeing (shared c) er0) (heartbeatKey k) \<noteq> None"
    using calm by (auto simp: calm_def)
  have ok: "cluster_ok lz er0 cfgs c" and fine: "zone_fine (zone_of er0 c)"
    and sub: "zone_of er0 c \<subseteq> zone_of er0 c0 \<union> (\<Union>h \<in> H. aims c0 h)"
    and mem: "memory (engines c k) = memory (engines c0 k)" for k
    using prog by (simp_all add: progress_def)
  have cfg: "AppHostname (cfgs h) = h" "\<not> DryRun (cfgs h)" "\<And>k. k \<in> H \<Longrightarrow> k \<noteq> []"
    using nm h by (simp_all add: named_def)
  obtain ords ord live actual filtered add rem where orders: "orders_ok ords" "is_order ord"
    and Z: "set actual = zone_of er0 c"
    and plan: "planned ords ord (cfgs h) (memory (engines c h)) actual live filtered add rem"
    and Z': "zone_of er0 c' = pass_result erases (set actual) add rem"
    and live: "\<And>hosts k. live = Some hosts \<Longrightarrow> k \<noteq> [] \<Longrightarrow> contents (seeing (shared c) er0) (heartbeatKey k) \<noteq> None \<Longrightarrow>
      k \<in> set hosts"
    using Ticked_pass [OF ok step cfg(2)] by metis
  note plan' = planned_kept [OF plan orders(1)]
  have target: "set filtered = aims c0 h"
    using aims_order [OF ok0 harmoniousD(4) [OF harm h] orders(2)] plan'(1) by (simp add: mem)
  have "apart (cfgs h) live actual filtered"
    by (rule tick_apart [OF prog harm nm h Z target _ ok0]) (use live beats cfg(3) in blast)
  note pass = apart_pass [OF this orders(1) plan'(3), unfolded cfg(1), folded Z', unfolded target Z]
  have before: "Intent_Key ` of_host k (zone_of er0 c) = Intent_Key ` aims c0 k" if "k \<in> T" for k
    using prog that by (simp add: progress_def)
  have "Intent_Key ` of_host k (zone_of er0 c') = Intent_Key ` aims c0 k" if "k \<in> insert h T" for k
  proof (cases "k = h")
    case False
    then have "of_host k (zone_of er0 c') = of_host k (zone_of er0 c)" using pass(2) by blast
    with before [of k] that False show ?thesis by simp
  qed (simp add: pass(1))
  moreover have "zone_of er0 c' \<subseteq> zone_of er0 c0 \<union> (\<Union>h \<in> H. aims c0 h)"
    using sub plan'(2) h unfolding Z' Z target pass_result_def by blast
  moreover have "zone_fine (zone_of er0 c')" by (rule Ticked_fine [OF ok step fine])
  moreover have "cluster_ok lz er0 cfgs c'" by (rule cluster_step_ok(1) [OF step ok])
  ultimately show ?thesis using calm_memory [OF calm] mem by (simp add: progress_def)
qed

theorem calm_progress:
  assumes "runs (calm lz er0 cfgs H) c ls c'" and "progress lz er0 cfgs H c0 T c"
    and "harmonious er0 H c0" and "named cfgs H" and "cluster_ok lz er0 cfgs c0"
  shows "progress lz er0 cfgs H c0 (T \<union> {h. Ticked h True \<in> set ls}) c'"
  using assms(1,2)
proof (induction arbitrary: T rule: runs.induct)
  case (more c l c1 ls c2)
  show ?case
  proof (cases "\<exists>h b. l = Ticked h b")
    case True
    then obtain h b where l: "l = Ticked h b" by blast
    then have b using more.hyps(1) by (simp add: calm_def)
    have "progress lz er0 cfgs H c0 (insert h T) c1"
      by (rule calm_tick [OF more.prems assms(3-5) more.hyps(1) [unfolded l]])
    moreover have "insert h T \<union> {k. Ticked k True \<in> set ls} = T \<union> {k. Ticked k True \<in> set (l # ls)}"
      using l \<open>b\<close> by auto
    ultimately show ?thesis using more.IH [of "insert h T"] by simp
  next
    case False
    then have "{k. Ticked k True \<in> set ls} = {k. Ticked k True \<in> set (l # ls)}" by auto
    with more.IH [OF calm_quiet [OF more.prems more.hyps(1) False]] show ?thesis by simp
  qed
qed simp

theorem cluster_reaches:
  assumes "runs (calm lz er0 cfgs H) c ls c'" and "harmonious er0 H c" and "named cfgs H"
    and "cluster_ok lz er0 cfgs c" and "\<forall>h \<in> H. Ticked h True \<in> set ls"
  shows "Intent_Key ` zone_of er0 c' = (\<Union>h \<in> H. Intent_Key ` aims c h)"
proof -
  have "progress lz er0 cfgs H c {} c"
    using assms(2,4) by (simp add: progress_def harmoniousD(1))
  note final = calm_progress [OF assms(1) this assms(2-4)]
  have sub: "zone_of er0 c' \<subseteq> zone_of er0 c \<union> (\<Union>h \<in> H. aims c h)"
    using final by (simp add: progress_def)
  have keys: "Intent_Key ` of_host h (zone_of er0 c') = Intent_Key ` aims c h" if "h \<in> H" for h
    using final assms(5) that by (simp add: progress_def)
  have "Hostname q \<in> H" if q: "q \<in> zone_of er0 c'" for q
  proof (cases "q \<in> zone_of er0 c")
    case False
    then obtain k where k: "k \<in> H" "q \<in> aims c k" using sub q by blast
    then have "AppHostname (cfgs k) = k" using assms(3) by (simp add: named_def)
    with aims_own [OF assms(4) k(2)] k(1) show ?thesis by simp
  qed (rule harmoniousD(2) [OF assms(2)])
  then have "zone_of er0 c' = (\<Union>h \<in> H. of_host h (zone_of er0 c'))" by blast
  then have "Intent_Key ` zone_of er0 c' = (\<Union>h \<in> H. Intent_Key ` of_host h (zone_of er0 c'))"
    by (metis image_UN)
  with keys show ?thesis by simp
qed

end
