(* ===== verification/Watch.thy ===== *)
theory Watch
  imports Engine Events
begin

text \<open>
  The event generator feeding the engine: what a connection cycle does to the tracked containers.
  A container that a cycle lists is tracked afterwards with the records its labels give; one that
  two cycles in a row do not list is forgotten.  Messages about other containers, however many,
  change neither.
\<close>

subsection \<open>Effects of a stretch of events\<close>

definition effects :: "AppConfig \<Rightarrow> (map_order \<times> Time \<times> ContainerEvent) list \<Rightarrow> effect list" where
  "effects cfg evs = map (\<lambda>(ord, now, evt). effect_of ord cfg evt) evs"

lemma effects_append: "effects cfg (xs @ ys) = effects cfg xs @ effects cfg ys"
  by (simp add: effects_def)

text \<open>The events that reach the engine, each with the map order and the time of its handling.\<close>

definition feeds :: "(map_order \<times> Time \<times> ContainerEvent) list \<Rightarrow> ContainerEvent list \<Rightarrow> bool" where
  "feeds evs out \<longleftrightarrow> map (snd \<circ> snd) evs = out \<and> (\<forall>(ord, now, evt) \<in> set evs. is_order ord)"

lemma feeds_Nil [simp]: "feeds [] out \<longleftrightarrow> out = []"
  by (auto simp: feeds_def)

lemma feeds_append: "feeds evs (xs @ ys) \<longleftrightarrow> (\<exists>as bs. evs = as @ bs \<and> feeds as xs \<and> feeds bs ys)"
proof
  assume f: "feeds evs (xs @ ys)"
  then obtain as bs where "evs = as @ bs" "map (snd \<circ> snd) as = xs" "map (snd \<circ> snd) bs = ys"
    unfolding feeds_def map_eq_append_conv by blast
  with f show "\<exists>as bs. evs = as @ bs \<and> feeds as xs \<and> feeds bs ys"
    by (intro exI [of _ as] exI [of _ bs]) (auto simp: feeds_def)
qed (auto simp: feeds_def)

lemma feeds_Cons:
  "feeds evs (x # xs) \<longleftrightarrow> (\<exists>ord now as. evs = (ord, now, x) # as \<and> is_order ord \<and> feeds as xs)"
  by (auto simp: feeds_def map_eq_Cons_conv)

lemma feeds_mem: "feeds evs out \<Longrightarrow> (ord, now, evt) \<in> set evs \<Longrightarrow> evt \<in> set out"
  by (force simp: feeds_def)

lemma runEvents_feeds:
  "mem_wf s \<Longrightarrow> feeds evs out \<Longrightarrow>
   mem_abs (runEvents cfg evs s) = fold perform (effects cfg evs) (mem_abs s)"
  using runEvents_effects by (simp add: effects_def feeds_def)


lemma performs_other:
  "(\<And>eff. eff \<in> set effs \<Longrightarrow> \<not> concerns cid eff) \<Longrightarrow> fold perform effs t cid = t cid"
  by (induction effs arbitrary: t) (simp_all add: perform_other)


subsection \<open>Forgetting\<close>

definition misses :: "string \<Rightarrow> effect \<Rightarrow> bool" where
  "misses cid eff = (case eff of Resynced R \<Rightarrow> cid \<notin> R | Started c ris \<Rightarrow> c \<noteq> cid | _ \<Rightarrow> True)"

definition resyncs :: "effect list \<Rightarrow> nat" where
  "resyncs effs = length (filter (\<lambda>eff. case eff of Resynced R \<Rightarrow> True | _ \<Rightarrow> False) effs)"

lemma resyncs_append [simp]: "resyncs (xs @ ys) = resyncs xs + resyncs ys"
  by (simp add: resyncs_def)

text \<open>Every resync that misses a container counts, and the second one drops it.\<close>

lemma missed_count:
  assumes "\<forall>eff \<in> set effs. misses cid eff"
  shows "case fold perform effs t cid of
      None \<Rightarrow> True
    | Some (ris, n) \<Rightarrow> resyncs effs = 0 \<or> resyncs effs \<le> n \<and> n < resyncPruneThreshold"
  using assms
proof (induction effs rule: rev_induct)
  case Nil
  show ?case by (simp add: resyncs_def split: option.split)
next
  case (snoc eff effs)
  then show ?case
    by (cases eff)
      (auto simp: misses_def resyncs_def track_def untrack_def resync_def split: option.splits if_splits)
qed

lemma missed_twice:
  assumes "\<forall>eff \<in> set effs. misses cid eff" and "resyncs effs \<ge> resyncPruneThreshold"
  shows "fold perform effs t cid = None"
  using missed_count [OF assms(1), of t] assms(2)
  by (auto simp: resyncPruneThreshold_def split: option.splits prod.splits)

text \<open>
  The messages of a cycle as far as Docker's filter lets them through, none of them about the
  container.
\<close>

definition filtered_message :: "Message \<Rightarrow> bool" where
  "filtered_message m \<longleftrightarrow> msgStatus m \<in> {EventTypeContainerStarted, EventTypeContainerStopped, EventTypeContainerDied}"

definition silent :: "string \<Rightarrow> cycle \<Rightarrow> bool" where
  "silent cid c \<longleftrightarrow> (\<forall>m \<in> set (received (inputs c)). filtered_message m \<and> msgID m \<noteq> cid)"

lemma message_event:
  "evt \<in> set (convertible msgs) \<Longrightarrow> \<exists>m \<in> set msgs. fromEventsMessage m = Inr evt"
  by (induction msgs) (auto split: sum.splits)

lemma message_effect:
  assumes "fromEventsMessage m = Inr evt" and "filtered_message m" and "msgID m \<noteq> cid"
  shows "\<not> concerns cid (effect_of ord cfg evt)"
  using assms
  by (auto simp: fromEventsMessage_def filtered_message_def effect_of_def Let_def concerns_def
      event_type_defs split: if_splits)

lemma messages_effects:
  assumes "silent cid c" and "feeds evs (convertible (received (inputs c)))"
    and "eff \<in> set (effects cfg evs)"
  shows "\<not> concerns cid eff"
proof -
  obtain ord now evt where "(ord, now, evt) \<in> set evs" and eff: "eff = effect_of ord cfg evt"
    using assms(3) by (auto simp: effects_def)
  then have "evt \<in> set (convertible (received (inputs c)))" using feeds_mem [OF assms(2)] by simp
  then obtain m where "m \<in> set (received (inputs c))" "fromEventsMessage m = Inr evt"
    using message_event by blast
  with assms(1) eff message_effect show ?thesis by (simp add: silent_def)
qed

text \<open>The events of the listed containers.\<close>

lemma summary_effect:
  "effect_of ord cfg (fromContainerSummary c) =
   (let intents = GetContainerRecordIntents ord (fromContainerSummary c) cfg in
    if sumID c = [] \<or> intents = [] then Ignored else Started (sumID c) intents)"
  by (simp add: effect_of_def fromContainerSummary_def event_type_defs Let_def)

lemma resync_effect: "effect_of ord cfg (resyncEvent ids) = Resynced (set ids)"
  by (simp add: effect_of_def resyncEvent_def Let_def)

lemma summaries_effects:
  assumes "feeds evs (map fromContainerSummary cs)" and "eff \<in> set (effects cfg evs)"
  shows "eff = Ignored \<or> (\<exists>c \<in> set cs. \<exists>ris. eff = Started (sumID c) ris)"
proof -
  obtain ord now evt where "(ord, now, evt) \<in> set evs" and eff: "eff = effect_of ord cfg evt"
    using assms(2) by (auto simp: effects_def)
  then obtain c where "c \<in> set cs" "evt = fromContainerSummary c" using feeds_mem [OF assms(1)] by fastforce
  then show ?thesis using eff by (auto simp: summary_effect Let_def)
qed

text \<open>The parts of the events of a cycle.\<close>

lemma cycle_parts:
  assumes "listed c = Inr cs" and "feeds evs (cycle_events c)"
  obtains as ord now bs where "evs = as @ (ord, now, resyncEvent (map sumID cs)) # bs"
    and "feeds as (map fromContainerSummary cs)" and "is_order ord"
    and "feeds bs (convertible (received (inputs c)))"
  using assms by (auto simp: cycle_events_def feeds_append feeds_Cons)

theorem unlisted_misses:
  assumes "listed c = Inr cs" and "feeds evs (cycle_events c)" and "cid \<notin> sumID ` set cs"
    and "silent cid c"
  shows "\<forall>eff \<in> set (effects cfg evs). misses cid eff" and "resyncs (effects cfg evs) \<ge> 1"
proof -
  obtain as ord now bs where evs: "evs = as @ (ord, now, resyncEvent (map sumID cs)) # bs"
    and as: "feeds as (map fromContainerSummary cs)" and "is_order ord"
    and bs: "feeds bs (convertible (received (inputs c)))"
    by (rule cycle_parts [OF assms(1,2)])
  have effs: "effects cfg evs = effects cfg as @ Resynced (sumID ` set cs) # effects cfg bs"
    by (simp add: evs effects_def resync_effect)
  have "misses cid eff" if "eff \<in> set (effects cfg as)" for eff
    using summaries_effects [OF as that] assms(3) by (auto simp: misses_def)
  moreover have "misses cid eff" if "eff \<in> set (effects cfg bs)" for eff
    using messages_effects [OF assms(4) bs that] by (auto simp: misses_def concerns_def split: effect.splits)
  ultimately show "\<forall>eff \<in> set (effects cfg evs). misses cid eff"
    using assms(3) by (auto simp: effs misses_def)
  show "resyncs (effects cfg evs) \<ge> 1" by (simp add: effs resyncs_def)
qed

theorem reconnect_forgets:
  assumes "mem_wf s" and "listed c1 = Inr cs1" and "listed c2 = Inr cs2"
    and "cid \<notin> sumID ` set cs1" and "cid \<notin> sumID ` set cs2"
    and "silent cid c1" and "silent cid c2"
    and "feeds evs (cycle_events c1 @ cycle_events c2)"
  shows "mem_abs (runEvents cfg evs s) cid = None"
proof -
  obtain as bs where evs: "evs = as @ bs" and 1: "feeds as (cycle_events c1)" and 2: "feeds bs (cycle_events c2)"
    using assms(8) by (auto simp: feeds_append)
  have "\<forall>eff \<in> set (effects cfg evs). misses cid eff"
    using unlisted_misses(1) [OF assms(2) 1 assms(4,6)] unlisted_misses(1) [OF assms(3) 2 assms(5,7)]
    by (auto simp: evs effects_append)
  moreover have "resyncs (effects cfg evs) \<ge> resyncPruneThreshold"
    using unlisted_misses(2) [OF assms(2) 1 assms(4,6), of cfg] unlisted_misses(2) [OF assms(3) 2 assms(5,7), of cfg]
    by (simp add: evs effects_append resyncPruneThreshold_def)
  ultimately show ?thesis
    using missed_twice runEvents_feeds [OF assms(1,8)] by simp
qed


subsection \<open>Tracking\<close>

text \<open>A listed container with records is tracked with exactly these, once the resync is handled.\<close>

theorem reconnect_tracks:
  assumes "mem_wf s" and "listed c = Inr cs" and "sm \<in> set cs" and "distinct (map sumID cs)"
    and "sumID sm \<noteq> []" and "silent (sumID sm) c" and "feeds evs (cycle_events c)"
    and "\<forall>ord. is_order ord \<longrightarrow> GetContainerRecordIntents ord (fromContainerSummary sm) cfg \<noteq> []"
  shows "\<exists>ord. is_order ord \<and> mem_abs (runEvents cfg evs s) (sumID sm) =
    Some (GetContainerRecordIntents ord (fromContainerSummary sm) cfg, 0)"
proof -
  let ?cid = "sumID sm"
  obtain as ord now bs where evs: "evs = as @ (ord, now, resyncEvent (map sumID cs)) # bs"
    and as: "feeds as (map fromContainerSummary cs)" and "is_order ord"
    and bs: "feeds bs (convertible (received (inputs c)))"
    by (rule cycle_parts [OF assms(2,7)])
  obtain xs ys where cs: "cs = xs @ sm # ys" using split_list [OF assms(3)] by blast
  then obtain as1 o1 n1 as2 where split: "as = as1 @ (o1, n1, fromContainerSummary sm) # as2"
    and "feeds as1 (map fromContainerSummary xs)" and o1: "is_order o1"
    and as2: "feeds as2 (map fromContainerSummary ys)"
    using as by (auto simp: feeds_append feeds_Cons)
  let ?ris = "GetContainerRecordIntents o1 (fromContainerSummary sm) cfg"
  have start: "effect_of o1 cfg (fromContainerSummary sm) = Started ?cid ?ris"
    using assms(5,8) o1 by (simp add: summary_effect)
  let ?rest = "effects cfg as2 @ Resynced (sumID ` set cs) # effects cfg bs"
  have eff: "effects cfg evs = effects cfg as1 @ Started ?cid ?ris # ?rest"
    by (simp add: evs split effects_def start resync_effect)
  let ?t = "perform (Started ?cid ?ris) (fold perform (effects cfg as1) (mem_abs s))"
  have new: "\<forall>c \<in> set ys. sumID c \<noteq> ?cid" using assms(4) cs by (auto simp: image_iff)
  have other: "\<not> concerns ?cid eff" if "eff \<in> set (effects cfg as2)" for eff
    using summaries_effects [OF as2 that] new by (auto simp: concerns_def)
  have "?t ?cid = Some (?ris, 0)" by (simp add: track_def)
  with performs_other [OF other] have "fold perform (effects cfg as2) ?t ?cid = Some (?ris, 0)" by metis
  then have "perform (Resynced (sumID ` set cs)) (fold perform (effects cfg as2) ?t) ?cid = Some (?ris, 0)"
    using assms(3) by (simp add: resync_def)
  with performs_other [OF messages_effects [OF assms(6) bs]]
  have "fold perform ?rest ?t ?cid = Some (?ris, 0)" by simp
  then have "mem_abs (runEvents cfg evs s) ?cid = Some (?ris, 0)"
    using runEvents_feeds [OF assms(1,7)] by (simp add: eff)
  with o1 show ?thesis by blast
qed

end
