(* ===== verification/Settings.thy ===== *)
theory Settings
  imports Config_Load
begin

text \<open>
  Where the settings come from: the flags that \<^verbatim>\<open>cmd/docker-coredns-sync/root.go\<close> binds, the
  defaults and the environment of \<^verbatim>\<open>initConfig\<close>, and the decoding by the struct tags of
  \<^verbatim>\<open>config.go\<close>.  Flags, environment and file are merged by a library; \<open>get\<close> is its result: what
  a key is set to.
\<close>

datatype setting =
    Str string
  | Integer int
  | Boolean bool
  | Uint "32 word"
  | Float rat
  | Strs "string list"

subsection \<open>Flags, defaults and environment\<close>

text \<open>The flag, the key it is bound to, and its own default.\<close>

definition boundFlags :: "(string \<times> string \<times> setting) list" where
  "boundFlags =
     [(''config'', ''config'', Str []),
      (''app.docker-label-prefix'', ''app.docker_label_prefix'', Str []),
      (''app.host-ipv4'', ''app.host_ipv4'', Str []),
      (''app.host-ipv6'', ''app.host_ipv6'', Str []),
      (''app.hostname'', ''app.hostname'', Str []),
      (''app.poll-interval'', ''app.poll_interval'', Integer 0),
      (''app.dry-run'', ''app.dry_run'', Boolean False),
      (''app.record-ttl'', ''app.record_ttl'', Uint 0),
      (''app.heartbeat-ttl'', ''app.heartbeat_ttl'', Integer 0),
      (''etcd-endpoints'', ''etcd.endpoints'', Strs [''http://localhost:2379'']),
      (''etcd.path-prefix'', ''etcd.path_prefix'', Str []),
      (''etcd.username'', ''etcd.username'', Str []),
      (''etcd.tls.ca-file'', ''etcd.tls.ca_file'', Str []),
      (''etcd.tls.cert-file'', ''etcd.tls.cert_file'', Str []),
      (''etcd.tls.key-file'', ''etcd.tls.key_file'', Str []),
      (''etcd.tls.insecure-skip-verify'', ''etcd.tls.insecure_skip_verify'', Boolean False),
      (''etcd.lock-ttl'', ''etcd.lock_ttl'', Float 0),
      (''etcd.lock-timeout'', ''etcd.lock_timeout'', Float 0),
      (''etcd.lock-retry-interval'', ''etcd.lock_retry_interval'', Float 0),
      (''log.level'', ''log.level'', Str []),
      (''http.enabled'', ''http.enabled'', Boolean False),
      (''http.listen-addr'', ''http.listen_addr'', Str []),
      (''metrics.enabled'', ''metrics.enabled'', Boolean False)]"

definition defaults :: "(string \<times> setting) list" where
  "defaults =
     [(''app.docker_label_prefix'', Str ''coredns''),
      (''app.host_ipv4'', Str []),
      (''app.host_ipv6'', Str []),
      (''app.hostname'', Str []),
      (''app.poll_interval'', Integer 5),
      (''app.dry_run'', Boolean False),
      (''app.record_ttl'', Integer 0),
      (''app.heartbeat_ttl'', Integer 30),
      (''etcd.endpoints'', Strs [''http://localhost:2379'']),
      (''etcd.path_prefix'', Str ''/skydns''),
      (''etcd.lock_ttl'', Float 5),
      (''etcd.lock_timeout'', Float 2),
      (''etcd.lock_retry_interval'', Float (1 / 10)),
      (''log.level'', Str ''INFO''),
      (''etcd.username'', Str []),
      (''etcd.password'', Str []),
      (''etcd.tls.ca_file'', Str []),
      (''etcd.tls.cert_file'', Str []),
      (''etcd.tls.key_file'', Str []),
      (''etcd.tls.insecure_skip_verify'', Boolean False),
      (''http.enabled'', Boolean False),
      (''http.listen_addr'', Str '':8080''),
      (''metrics.enabled'', Boolean False),
      (''docker.event_buffer_size'', Integer 100),
      (''docker.reconnect_initial_backoff'', Float 1),
      (''docker.reconnect_max_backoff'', Float 30)]"

text \<open>The variable that \<^verbatim>\<open>AutomaticEnv\<close> reads for a key.\<close>

definition envName :: "string \<Rightarrow> string" where
  "envName key =
     ''DOCKER_COREDNS_SYNC_'' @ ToUpper (map (\<lambda>c. if c = CHR ''.'' then CHR ''_'' else c) key)"

text \<open>
  Where \<^verbatim>\<open>initConfig\<close> looks for the file: the one of the flag, or a name, a type and directories.  The user's
  directory is a clean path, to which \<^verbatim>\<open>filepath.Join\<close> appends.
\<close>

datatype config_source = ConfigFile string | SearchIn string string "string list"

definition configSource :: "string \<Rightarrow> string option \<Rightarrow> config_source" where
  "configSource cfgFile userConfigDir =
     (if cfgFile \<noteq> [] then ConfigFile cfgFile
      else SearchIn ''config'' ''yaml'' ((case userConfigDir of None \<Rightarrow> [] | Some dir \<Rightarrow> [dir @ ''/docker-coredns-sync'']) @
        [''/etc/docker-coredns-sync'', ''/config'', ''.'']))"

text \<open>What reading the file gives; a missing one is no error.\<close>

datatype read_result = ReadOk | FileNotFound | ReadFailed string

definition initConfig :: "(config_source \<Rightarrow> read_result) \<Rightarrow> string \<Rightarrow> string option \<Rightarrow> string option" where
  "initConfig readIn cfgFile userConfigDir =
     (case readIn (configSource cfgFile userConfigDir) of
        ReadFailed err \<Rightarrow> Some (''error reading config file: '' @ err)
      | _ \<Rightarrow> None)"


subsection \<open>Decoding\<close>

text \<open>An absent key leaves the zero value; a setting of another type is an error (\<open>None\<close>).\<close>

definition strAt :: "(string \<Rightarrow> setting option) \<Rightarrow> string \<Rightarrow> string option" where
  "strAt get k = (case get k of None \<Rightarrow> Some [] | Some (Str s) \<Rightarrow> Some s | _ \<Rightarrow> None)"

definition intAt :: "(string \<Rightarrow> setting option) \<Rightarrow> string \<Rightarrow> int option" where
  "intAt get k = (case get k of None \<Rightarrow> Some 0 | Some (Integer i) \<Rightarrow> Some i | _ \<Rightarrow> None)"

definition boolAt :: "(string \<Rightarrow> setting option) \<Rightarrow> string \<Rightarrow> bool option" where
  "boolAt get k = (case get k of None \<Rightarrow> Some False | Some (Boolean b) \<Rightarrow> Some b | _ \<Rightarrow> None)"

text \<open>An integer in range converts to the unsigned type.\<close>

definition uintAt :: "(string \<Rightarrow> setting option) \<Rightarrow> string \<Rightarrow> 32 word option" where
  "uintAt get k = (case get k of None \<Rightarrow> Some 0 | Some (Uint w) \<Rightarrow> Some w
     | Some (Integer i) \<Rightarrow> if 0 \<le> i \<and> i < 2 ^ 32 then Some (word_of_int i) else None | _ \<Rightarrow> None)"

definition floatAt :: "(string \<Rightarrow> setting option) \<Rightarrow> string \<Rightarrow> rat option" where
  "floatAt get k = (case get k of None \<Rightarrow> Some 0 | Some (Float x) \<Rightarrow> Some x
     | Some (Integer i) \<Rightarrow> Some (of_int i) | _ \<Rightarrow> None)"

definition strsAt :: "(string \<Rightarrow> setting option) \<Rightarrow> string \<Rightarrow> string list option" where
  "strsAt get k = (case get k of None \<Rightarrow> Some [] | Some (Strs ss) \<Rightarrow> Some ss | _ \<Rightarrow> None)"

abbreviation (input) andThen :: "'a option \<Rightarrow> ('a \<Rightarrow> 'b option) \<Rightarrow> 'b option" where
  "andThen x f \<equiv> Option.bind x f"

definition decodeApp :: "(string \<Rightarrow> setting option) \<Rightarrow> AppConfig option" where
  "decodeApp get =
     andThen (strAt get ''app.docker_label_prefix'') (\<lambda>prefix.
     andThen (strAt get ''app.host_ipv4'') (\<lambda>v4.
     andThen (strAt get ''app.host_ipv6'') (\<lambda>v6.
     andThen (strAt get ''app.hostname'') (\<lambda>host.
     andThen (intAt get ''app.poll_interval'') (\<lambda>poll.
     andThen (boolAt get ''app.dry_run'') (\<lambda>dry.
     andThen (uintAt get ''app.record_ttl'') (\<lambda>ttl.
     andThen (intAt get ''app.heartbeat_ttl'') (\<lambda>hb.
       Some \<lparr>DockerLabelPrefix = prefix, HostIPv4 = v4, HostIPv6 = v6, AppHostname = host,
         PollInterval = poll, DryRun = dry, RecordTTL = ttl, HeartbeatTTL = hb\<rparr>))))))))"

definition decodeTLS :: "(string \<Rightarrow> setting option) \<Rightarrow> EtcdTLSConfig option" where
  "decodeTLS get =
     andThen (strAt get ''etcd.tls.ca_file'') (\<lambda>ca.
     andThen (strAt get ''etcd.tls.cert_file'') (\<lambda>cert.
     andThen (strAt get ''etcd.tls.key_file'') (\<lambda>key.
     andThen (boolAt get ''etcd.tls.insecure_skip_verify'') (\<lambda>skip.
       Some \<lparr>CAFile = ca, CertFile = cert, KeyFile = key, InsecureSkipVerify = skip\<rparr>))))"

definition decodeEtcd :: "(string \<Rightarrow> setting option) \<Rightarrow> EtcdConfig option" where
  "decodeEtcd get =
     andThen (strsAt get ''etcd.endpoints'') (\<lambda>eps.
     andThen (strAt get ''etcd.path_prefix'') (\<lambda>pp.
     andThen (strAt get ''etcd.username'') (\<lambda>user.
     andThen (strAt get ''etcd.password'') (\<lambda>pw.
     andThen (decodeTLS get) (\<lambda>tls.
     andThen (floatAt get ''etcd.lock_ttl'') (\<lambda>ttl.
     andThen (floatAt get ''etcd.lock_timeout'') (\<lambda>timeout.
     andThen (floatAt get ''etcd.lock_retry_interval'') (\<lambda>retry.
       Some \<lparr>Endpoints = eps, PathPrefix = pp, Username = user, Password = pw, TLS = tls,
         LockTTL = ttl, LockTimeout = timeout, LockRetryInterval = retry\<rparr>))))))))"

definition decodeConfig :: "(string \<Rightarrow> setting option) \<Rightarrow> Config option" where
  "decodeConfig get =
     andThen (decodeApp get) (\<lambda>app.
     andThen (decodeEtcd get) (\<lambda>etcd.
     andThen (strAt get ''log.level'') (\<lambda>level.
     andThen (boolAt get ''http.enabled'') (\<lambda>http.
     andThen (strAt get ''http.listen_addr'') (\<lambda>addr.
     andThen (boolAt get ''metrics.enabled'') (\<lambda>metrics.
     andThen (intAt get ''docker.event_buffer_size'') (\<lambda>buf.
     andThen (floatAt get ''docker.reconnect_initial_backoff'') (\<lambda>initial.
     andThen (floatAt get ''docker.reconnect_max_backoff'') (\<lambda>maxB.
       Some \<lparr>App = app, Etcd = etcd, Logging = \<lparr>Level = level\<rparr>,
         HTTP = \<lparr>HTTPEnabled = http, ListenAddr = addr\<rparr>, Metrics = \<lparr>MetricsEnabled = metrics\<rparr>,
         Docker = \<lparr>EventBufferSize = buf, ReconnectInitialBackoff = initial,
           ReconnectMaxBackoff = maxB\<rparr>\<rparr>)))))))))"

lemmas [go_eval] =
  boundFlags_def defaults_def envName_def configSource_def initConfig_def strAt_def intAt_def
  boolAt_def uintAt_def floatAt_def strsAt_def decodeApp_def decodeTLS_def decodeEtcd_def
  decodeConfig_def


subsection \<open>Consistency\<close>

text \<open>With nothing set but the defaults, the configuration is the default one.\<close>

theorem decode_defaults: "decodeConfig (map_of defaults) = Some defaultConfig"
  by code_simp

text \<open>Setting the hostname alone, on top of the defaults, gives a configuration that loads.\<close>

theorem load_with_hostname:
  assumes "host \<noteq> []" and "get = (map_of defaults)(''app.hostname'' \<mapsto> Str host)"
    and "decodeConfig get = Some cfg"
  shows "Load None (Inr cfg) = Inr cfg \<and> AppHostname (App cfg) = host"
proof -
  have "decodeConfig get = Some (defaultConfig\<lparr>App := App defaultConfig\<lparr>AppHostname := host\<rparr>\<rparr>)"
    unfolding assms(2) by code_simp
  then have cfg: "cfg = defaultConfig\<lparr>App := App defaultConfig\<lparr>AppHostname := host\<rparr>\<rparr>"
    using assms(3) by simp
  have "validate cfg = None"
    using assms(1) unfolding cfg by (simp add: defaultConfig_def go_eval)
  then show ?thesis by (simp add: Load_def cfg)
qed

text \<open>No key has two defaults, no flag two bindings, and every flag but the file's sets a known key.\<close>

lemma settings_consistent:
  "distinct (map fst defaults)" "distinct (map fst boundFlags)"
  "distinct (map (fst \<circ> snd) boundFlags)"
  "\<forall>(flag, key, v) \<in> set boundFlags. key = ''config'' \<or> map_of defaults key \<noteq> None"
  by code_simp+

text \<open>The README lists a setting \<open>app.allowed_record_types\<close>, which neither has a default nor a flag.\<close>

lemma no_allowed_record_types:
  "''app.allowed_record_types'' \<notin> fst ` set defaults"
  "''app.allowed_record_types'' \<notin> (fst \<circ> snd) ` set boundFlags"
  by code_simp+

text \<open>The password has no flag: it would show in the list of processes.\<close>

lemma no_password_flag: "''etcd.password'' \<notin> (fst \<circ> snd) ` set boundFlags"
  by code_simp

end
