(* ===== verification/Logger.thy ===== *)
theory Logger
  imports Config
begin

text \<open>
  \<^verbatim>\<open>internal/logger/logger.go\<close>: the level and the host of the logger.  The log library's
  \<^verbatim>\<open>ParseLevel\<close> and the operating system's host name are arguments; what is logged is output.
\<close>

record 'level loggerSettings =
  globalLevel :: 'level
  logService :: string
  logHost :: string

definition SetupLogger ::
  "(string \<Rightarrow> 'level option) \<Rightarrow> 'level \<Rightarrow> string option \<Rightarrow> LoggingConfig \<Rightarrow> 'level loggerSettings"
where
  "SetupLogger parseLevel infoLevel osHostname cfg =
     (let levelStr = ToLower (Level cfg);
          level = (case parseLevel levelStr of None \<Rightarrow> infoLevel | Some l \<Rightarrow> l);
          hostname = (case osHostname of None \<Rightarrow> ''unknown-host'' | Some h \<Rightarrow> h)
      in \<lparr>globalLevel = level, logService = ''docker_coredns_sync'', logHost = hostname\<rparr>)"

lemmas [go_eval] = SetupLogger_def

text \<open>A configured level that the library knows is the one that is used.\<close>

lemma SetupLogger_level:
  "parseLevel (ToLower (Level cfg)) = Some l \<Longrightarrow>
   globalLevel (SetupLogger parseLevel infoLevel osHostname cfg) = l"
  by (simp add: SetupLogger_def Let_def)

end
