(* ===== verification/Samples.thy ===== *)
theory Samples
  imports Memory_Client Cluster Watch Settings Logger
begin

text \<open>
  Concrete inputs for the properties: records, a host with one container, an empty etcd over
  \<open>Memory_Client\<close>, the engine before and after its first tick, a configured daemon, and two hosts that share an etcd.
\<close>

subsection \<open>Records\<close>

definition sampleCfg :: "string \<Rightarrow> AppConfig" where
  "sampleCfg host =
     \<lparr>DockerLabelPrefix = ''coredns'', HostIPv4 = ''10.0.0.9'', HostIPv6 = [], AppHostname = host,
      PollInterval = 5, DryRun = False, RecordTTL = 300, HeartbeatTTL = 30\<rparr>"

definition sampleIntent ::
  "string \<Rightarrow> Time \<Rightarrow> bool \<Rightarrow> RecordKind \<Rightarrow> string \<Rightarrow> string \<Rightarrow> RecordIntent"
where
  "sampleIntent host created force kind name value =
     \<lparr>ContainerId = ''c-'' @ host, ContainerName = ''web'', Created = created, Hostname = host,
      Force = force, TTL = 300, Rec = \<lparr>Name = name, Kind = kind, Value = value\<rparr>\<rparr>"

definition webA :: RecordIntent where
  "webA = sampleIntent ''h1'' 100 False RecordA ''web.example.com'' ''10.0.0.1''"

definition webA2 :: RecordIntent where
  "webA2 = sampleIntent ''h2'' 200 False RecordA ''web.example.com'' ''10.0.0.2''"

definition webAlias :: RecordIntent where
  "webAlias = sampleIntent ''h2'' 50 False RecordCNAME ''web.example.com'' ''app.example.com''"

lemmas sample_defs = sampleCfg_def sampleIntent_def webA_def webA2_def webAlias_def

lemma sample_ok:
  "record_ok (Rec webA)" "record_ok (Rec webA2)" "record_ok (Rec webAlias)"
  by (simp_all add: sample_defs record_ok_def go_eval)

lemma sample_zone: "zone_ok {webA, webA2}" "zone_ok {webA}" "zone_ok {webA2}" "zone_ok {}"
  by (auto simp: zone_ok_def compatible_def sample_defs kind_simps)


subsection \<open>A registry and an engine\<close>

definition sampleEtcd :: EtcdConfig where
  "sampleEtcd = Etcd defaultConfig"

definition emptyKv :: kv_state where
  "emptyKv = \<lparr>kvs = [], leases = 1, clock = 1000, up = True\<rparr>"

definition sampleReg :: "kv_state EtcdRegistry" where
  "sampleReg = NewEtcdRegistry memClient memRuntime sampleEtcd ''h1'' 30 emptyKv"

definition sampleEngine :: "kv_state EtcdRegistry engine" where
  "sampleEngine =
     \<lparr>memory = Upsert NewMemoryState 0 ''c-h1'' ''web'' 100 [webA] StatusRunning,
      registry = sampleReg, health = Some (NewStatus 15000000000), metrics = None\<rparr>"

definition inOrder :: range_orders where "inOrder = (\<lambda>s i ks. ks)"

lemma inOrder_ok [simp]: "orders_ok inOrder" "is_order (\<lambda>ks. ks)"
  by (simp_all add: inOrder_def orders_ok_def is_order_def)

definition utc :: "Time \<Rightarrow> int" where "utc t = 0"

definition sampleTick :: "Time \<Rightarrow> kv_state EtcdRegistry engine \<Rightarrow> kv_state EtcdRegistry engine option" where
  "sampleTick t e = tick inOrder (\<lambda>ks. ks) (sampleCfg ''h1'') (etcdUpstream utc) t (t + 1) e"

definition sampleEngine1 :: "kv_state EtcdRegistry engine" where
  "sampleEngine1 = (case sampleTick 5 sampleEngine of Some e \<Rightarrow> e | None \<Rightarrow> sampleEngine)"

lemma sample_env: "etcd_ok (client sampleReg) (env sampleReg)"
  "clock_ok (client sampleReg) (env sampleReg) clock"
  using mem_ok mem_clock by (simp_all add: sampleReg_def NewEtcdRegistry_def)

lemma sample_prefix: "prefix_ok (pathPrefix sampleReg)"
  by code_simp

lemma sample_empty: "contents sampleReg = Map.empty"
  by (simp add: contents_def sampleReg_def NewEtcdRegistry_def emptyKv_def)

lemma sample_inv: "etcd_inv sampleReg"
  using sample_env(1) sample_prefix by (simp add: etcd_inv_def sample_empty placed_def recordAt_def)

lemma sample_etcd_zone: "etcd_zone sampleReg = {}"
  by (simp add: etcd_zone_def sample_empty records_in_def recordAt_def)

lemma sample_retry: "retry_positive sampleReg"
  by code_simp

lemma sampleEngine_parts: "registry sampleEngine = sampleReg"
  by (simp add: sampleEngine_def)

lemma sample_desired: "GetAllDesiredRecordIntents (\<lambda>ks. ks) (memory sampleEngine) = [webA]"
  by code_simp

lemma sample_storable: "storable utc webA"
proof -
  have "TimeMarshalJSON (utc (Created webA)) (Created webA) \<noteq> None" by code_simp
  then show ?thesis
    using sample_ok(1) by (simp add: storable_def ascii_def utc_def sample_defs kind_simps kind_defs code_def)
qed

lemma sample_plain: "plain_intent webA"
  using sample_ok(1) by (simp add: plain_intent_def plain_def sample_defs)

lemma sample_run:
  "(case sampleTick 5 sampleEngine of None \<Rightarrow> False
    | Some e \<Rightarrow> (case health e of None \<Rightarrow> False | Some s \<Rightarrow> lastReconcileErr s = None))"
  by code_simp

lemma sample_tick:
  obtains s where "sampleTick 5 sampleEngine = Some sampleEngine1" and "health sampleEngine1 = Some s"
    and "lastReconcileErr s = None"
  using sample_run by (auto simp: sampleEngine1_def split: option.splits)

lemma sample_run_inv: "run_inv utc sampleReg sampleEngine"
proof -
  have "mem_wf (memory sampleEngine)" unfolding sampleEngine_def by (simp add: wf_intros mem_wf_New)
  moreover have "tracks (storable utc) (mem_abs (memory sampleEngine))"
  proof -
    have "tracks (storable utc) (mem_abs NewMemoryState)"
      by (simp add: tracks_def mem_abs_def NewMemoryState_def)
    then have "tracks (storable utc) (track ''c-h1'' [webA] StatusRunning (mem_abs NewMemoryState))"
      using sample_storable by (auto simp: tracks_def track_def split: if_splits)
    then show ?thesis by (simp add: sampleEngine_def mem.abs_upsert [OF mem_wf_New])
  qed
  ultimately show ?thesis by (simp add: run_inv_def wired_def sample_inv sampleEngine_parts)
qed

lemma sample_tick_again:
  obtains e where "sampleTick 9 sampleEngine1 = Some e"
proof -
  have "sampleTick 5 sampleEngine = Some sampleEngine1" by (rule sample_tick)
  then have "run_inv utc sampleReg sampleEngine1"
    using tick_run [OF sample_run_inv inOrder_ok sample_env(2) sample_retry,
        of "sampleCfg ''h1''" 5 "5 + 1"]
    unfolding sampleTick_def by simp
  from tick_run [OF this inOrder_ok sample_env(2) sample_retry] that show ?thesis
    unfolding sampleTick_def by blast
qed


subsection \<open>A record and one at the name above it\<close>

definition aboveWebA :: RecordIntent where
  "aboveWebA = sampleIntent ''h1'' 100 False RecordA ''example.com'' ''10.0.0.1''"

definition regA :: "kv_state EtcdRegistry" where
  "regA = snd (Register utc webA sampleReg)"

lemma sample_register: "Register utc webA sampleReg = (None, regA)"
proof -
  have "fst (Register utc webA sampleReg) = None" by code_simp
  then show ?thesis by (simp add: regA_def prod_eq_iff)
qed

text \<open>A client that is up removes without an error.\<close>

lemma mem_fold_up: "up (fold mem_apply ops w) = up w"
  by (induction ops arbitrary: w) (auto simp: mem_apply_def split: etcd_op.splits)

lemma mem_deletes:
  "client er = memClient \<Longrightarrow> up (world er) \<Longrightarrow> fst (deleteBatches i keys None er) = None"
proof (induction i keys "None :: string option" er rule: deleteBatches.induct)
  case (1 i keys er)
  show ?case
  proof (cases "keys = []")
    case False
    let ?er = "er\<lparr>world := fold mem_apply (map OpDelete (take batchSize keys)) (world er)\<rparr>"
    have "call (\<lambda>c. etcdTxn c [] (map OpDelete (take batchSize keys))) er = (Inr True, ?er)"
      using 1(3,4) by (simp add: call_def)
    with 1(2) [OF False refl refl this [symmetric] refl] 1(3,4) False show ?thesis
      by (subst deleteBatches.simps) (simp add: mem_fold_up Let_def)
  qed (simp add: deleteBatches.simps)
qed

lemma mem_removes:
  assumes "client er = memClient" and "up (world er)" and "length (kvs (world er)) < 1000"
  shows "fst (Remove d er) = None"
proof -
  let ?k = "keyBaseForFQDN (PathPrefix (etcdCfg er)) (Name (Rec d))"
  have "length (filter (\<lambda>(key, v, l). HasPrefix key ?k) (AList.clearjunk (kvs (world er)))) < 1000"
    using assms(3) length_clearjunk [of "kvs (world er)"]
    by (meson le_less_trans length_filter_le)
  then obtain hits where "call (\<lambda>c. etcdGet c ?k [WithPrefix]) er = (Inr hits, er)"
    using assms(1,2) by (auto simp: call_def mem_get_def Let_def)
  then show ?thesis using mem_deletes assms(1,2) by (simp add: Remove_def Let_def)
qed

lemma sample_remove: obtains er where "Remove d regA = (None, er)"
proof -
  have "client regA = memClient"
    using Register_wiring [OF sample_register] by (simp add: wiring_def sampleReg_def NewEtcdRegistry_def)
  moreover have "up (world regA) \<and> length (kvs (world regA)) < 1000" by code_simp
  ultimately have "fst (Remove d regA) = None" using mem_removes by blast
  with that show ?thesis by (metis prod.collapse)
qed

lemma regA_zone: "etcd_inv regA" "etcd_zone regA = {webA}"
  using Register_effect [OF sample_inv sample_storable sample_register]
  by (auto simp: sample_etcd_zone)

subsection \<open>Registries with a foreign lock, a heartbeat, or no connection\<close>

definition lockedReg :: "kv_state EtcdRegistry" where
  "lockedReg = sampleReg\<lparr>world := emptyKv\<lparr>kvs := [(''/locks/__global__'', ''h2'', Some 9)]\<rparr>\<rparr>"

lemma lockedReg_parts: "client lockedReg = client sampleReg" "env lockedReg = env sampleReg"
  "etcdCfg lockedReg = etcdCfg sampleReg"
  "contents lockedReg = [''/locks/__global__'' \<mapsto> (''h2'', Some 9)]"
  by (simp_all add: lockedReg_def contents_def sampleReg_def NewEtcdRegistry_def emptyKv_def)

lemma lockedReg_ok:
  "etcd_inv lockedReg" "contents lockedReg (lockPath ''__global__'') \<noteq> None"
proof -
  have outside: "\<not> HasPrefix ''/locks/__global__'' (PathPrefix (etcdCfg sampleReg))" by code_simp
  show "etcd_inv lockedReg"
    using sample_env(1) sample_prefix outside
    by (auto simp: etcd_inv_def lockedReg_parts placed_def recordAt_def split: if_splits option.splits)
  show "contents lockedReg (lockPath ''__global__'') \<noteq> None"
    by (simp add: lockedReg_parts lockPath_def)
qed

lemma sample_locked:
  obtains out vars' er' where "LockTransaction [''__global__''] fn (vars, lockedReg) = Some (out, vars', er')"
proof -
  have "clock_ok (client lockedReg) (env lockedReg) clock" "retry_positive lockedReg"
    using sample_env(2) sample_retry by (simp_all add: lockedReg_parts retry_positive_def)
  from LockTransaction_returns [OF lockedReg_ok(1) this] that show ?thesis by (metis prod_cases3)
qed

definition heartReg :: "kv_state EtcdRegistry" where
  "heartReg = snd (StartHeartbeat sampleReg)"

lemma heartReg_inv: "etcd_inv heartReg"
  unfolding heartReg_def using keeps_zone [OF StartHeartbeat_keeps sample_inv] by simp

lemma heartReg_live: obtains hosts er where "GetLiveHostnames heartReg = (Inr (Some hosts), er)"
proof -
  have "fst (GetLiveHostnames heartReg) = Inr (Some [''h1'', ''h1''])" by code_simp
  with that show ?thesis by (metis prod.collapse)
qed

definition downReg :: "kv_state EtcdRegistry" where
  "downReg = sampleReg\<lparr>world := emptyKv\<lparr>up := False\<rparr>\<rparr>"

lemma downReg_waits: obtains waits res where
  "reestablishHeartbeat ''k'' initialBackoff [Waited, Waited] downReg = (waits, res)" and "length waits = 2"
proof -
  have "length (fst (reestablishHeartbeat ''k'' initialBackoff [Waited, Waited] downReg)) = 2" by code_simp
  with that show ?thesis by (metis prod.collapse)
qed


subsection \<open>A daemon\<close>

definition sampleConfig :: "bool \<Rightarrow> Config" where
  "sampleConfig dry = defaultConfig
     \<lparr>App := App defaultConfig\<lparr>AppHostname := ''h1'', DryRun := dry\<rparr>,
      HTTP := \<lparr>HTTPEnabled = True, ListenAddr = '':8080''\<rparr>\<rparr>"

definition sampleBuild :: "bool \<Rightarrow> (string + kv_state application) \<times> action list" where
  "sampleBuild dry = NewWithFactories None (\<lambda>cfg timeout. Inr (memClient, emptyKv)) memRuntime (\<lambda>addr. None)
     (sampleConfig dry)"

definition sampleApp :: "bool \<Rightarrow> kv_state application" where
  "sampleApp dry =
     \<lparr>generator = NewDockerGenerator (genOpts (sampleConfig dry)),
      engine = newEngine (sampleConfig dry) memRuntime memClient emptyKv,
      httpServer = Some \<lparr>serverAddr = '':8080'', serverStatus = True, serverMetrics = False\<rparr>,
      hasDockerClient = True, hasEtcdClient = True\<rparr>"

lemma sample_build:
  "sampleBuild dry = (Inr (sampleApp dry), [Opened DockerClient, Opened EtcdClient, Opened HTTPListener])"
  by (simp add: sampleBuild_def sampleApp_def NewWithFactories_def NewServer_def sampleConfig_def
      defaultConfig_def HTTPServerEnabled_def Let_def)

lemma sampleConfig_simps [simp]:
  "DryRun (App (sampleConfig dry)) = dry" "HTTPEnabled (HTTP (sampleConfig dry))"
  "AppHostname (App (sampleConfig dry)) = ''h1''" "Etcd (sampleConfig dry) = sampleEtcd"
  "PollInterval (App (sampleConfig dry)) = 5" "HeartbeatTTL (App (sampleConfig dry)) = 30"
  "MetricsEnabled (Metrics (sampleConfig dry)) = False"
  by (simp_all add: sampleConfig_def defaultConfig_def sampleEtcd_def)

lemma sampleApp_registry: "registry (engine (sampleApp dry)) = sampleReg"
  by (simp add: sampleApp_def newEngine_def sampleReg_def Let_def)

text \<open>A resync yields no records.\<close>

lemma resync_yields: "yields P cfg (resyncEvent ids)"
  by (simp add: yields_def GetContainerRecordIntents_def resyncEvent_def ParseLabels_def ToLower_def Let_def)

lemma resync_input: "is_order ord \<Longrightarrow> input_storable lz cfg (Woken (Event ord now (resyncEvent ids)))"
  by (simp add: input_storable_def input_ok_def wakeup_ok_def resync_yields)

lemma tick_input:
  "is_order ord \<Longrightarrow> orders_ok ords \<Longrightarrow> input_storable lz cfg (Woken (Ticker ords ord start finish))"
  by (simp add: input_storable_def input_ok_def wakeup_ok_def)

definition sampleInputs :: "app_input list" where
  "sampleInputs =
     [Observed (ConnectionChange True), Woken (Ticker inOrder (\<lambda>ks. ks) 5 6)]"

lemma sample_ready:
  obtains e where "appSteps (App (sampleConfig False)) utc 0
      (startHeartbeat (App (sampleConfig False)) (etcdUpstream utc) (engine (sampleApp False))) sampleInputs =
      Some e" and "Handler (health e) False 20 ''/readyz'' = Reply StatusOK ''ok''"
proof -
  have "case appSteps (App (sampleConfig False)) utc 0
      (startHeartbeat (App (sampleConfig False)) (etcdUpstream utc) (engine (sampleApp False))) sampleInputs of
      Some e \<Rightarrow> Handler (health e) False 20 ''/readyz'' = Reply StatusOK ''ok'' | None \<Rightarrow> False"
    by code_simp
  with that show ?thesis by (auto split: option.splits)
qed


subsection \<open>Connection cycles\<close>

definition sampleCycle :: "Summary list \<Rightarrow> cycle" where
  "sampleCycle cs = \<lparr>listed = Inr cs, accepted = 10, connectNow = 1, inputs = []\<rparr>"

definition sampleSummary :: Summary where
  "sampleSummary = \<lparr>sumID = ''c9'', sumNames = [''/web''], sumCreated = 100,
     sumLabels = [(''coredns.enabled'', ''true''), (''coredns.A.name'', ''web.example.com'')]\<rparr>"

lemma sampleSummary_yields:
  assumes "is_order ord"
  shows "GetContainerRecordIntents ord (fromContainerSummary sampleSummary) (sampleCfg ''h1'') \<noteq> []"
proof -
  have two: "xs = [a, b] \<or> xs = [b, a]" if "mset xs = {#a, b#}" for xs and a b :: string
  proof -
    have "size (mset xs) = 2" by (simp only: that) simp
    then obtain c d where "xs = [c, d]" by (auto simp: length_Suc_conv numeral_2_eq_2)
    with that show ?thesis by (auto simp: add_eq_conv_ex)
  qed
  have one: "ord [a] = [a]" for a
    using assms unfolding is_order_def by (metis mset_single_iff mset_single_iff_right)
  have "ord [''coredns.enabled'', ''coredns.A.name''] = [''coredns.enabled'', ''coredns.A.name''] \<or>
      ord [''coredns.enabled'', ''coredns.A.name''] = [''coredns.A.name'', ''coredns.enabled'']"
    by (rule two) (use assms in \<open>simp add: is_order_def\<close>)
  then show ?thesis
    by (elim disjE) (simp_all add: sampleSummary_def sampleCfg_def range_map_def range_vals_def one go_eval)
qed

definition lostAttempt :: attempt where
  "lostAttempt =
     \<lparr>attCycle = sampleCycle []\<lparr>inputs := [EventsClosed]\<rparr>, attCancelled = False, attNow = 2, attRand = (\<lambda>n. 0), attSlept = True\<rparr>"


subsection \<open>Two hosts\<close>

text \<open>Both hosts are heartbeating; the containers of the first want a record, the second has none.\<close>

definition beatKv :: kv_state where
  "beatKv = emptyKv\<lparr>kvs := [(heartbeatKey ''h1'', ''h1'', Some 1), (heartbeatKey ''h2'', ''h2'', Some 2)], leases := 3\<rparr>"

definition sampleHost :: "string \<Rightarrow> kv_state EtcdRegistry engine" where
  "sampleHost h =
     \<lparr>memory = (if h = ''h1'' then memory sampleEngine else NewMemoryState),
      registry = sampleReg\<lparr>ownHostname := h, hbActive := True\<rparr>, health = Some (NewStatus 15000000000),
      metrics = None\<rparr>"

definition sampleCluster :: "kv_state cluster" where
  "sampleCluster = \<lparr>shared = beatKv, engines = sampleHost\<rparr>"

definition hostTick :: "string \<Rightarrow> kv_state cluster \<Rightarrow> kv_state EtcdRegistry engine option" where
  "hostTick h c = tick inOrder (\<lambda>ks. ks) (sampleCfg h) (etcdUpstream utc) 5 6 (on_shared c h)"

definition beating :: "kv_state cluster \<Rightarrow> bool" where
  "beating c \<longleftrightarrow> contents (seeing (shared c) sampleReg) (heartbeatKey ''h1'') \<noteq> None \<and>
     contents (seeing (shared c) sampleReg) (heartbeatKey ''h2'') \<noteq> None"

lemma sampleCluster_ticks:
  "case hostTick ''h2'' sampleCluster of None \<Rightarrow> False
   | Some e \<Rightarrow> succeeded e \<and> beating sampleCluster \<and> beating (advance sampleCluster ''h2'' e) \<and>
       (case hostTick ''h1'' (advance sampleCluster ''h2'' e) of None \<Rightarrow> False | Some e' \<Rightarrow> succeeded e')"
  by code_simp

lemma beating_all:
  "beating c \<Longrightarrow> \<forall>k \<in> {''h1'', ''h2''}. contents (seeing (shared c) sampleReg) (heartbeatKey k) \<noteq> None"
  by (simp add: beating_def)

lemma hostTick_calm:
  assumes "hostTick h c = Some e" and "succeeded e" and "h \<in> {''h1'', ''h2''}" and "beating c"
  shows "calm utc sampleReg sampleCfg {''h1'', ''h2''} c (Ticked h True) (advance c h e)"
proof -
  have "cluster_step utc sampleReg sampleCfg c (Ticked h (succeeded e)) (advance c h e)"
    by (rule cluster_step.ticked [OF inOrder_ok]) (rule assms(1) [unfolded hostTick_def])
  with assms(2,3) beating_all [OF assms(4)] show ?thesis by (simp add: calm_def)
qed

lemma sampleCluster_run:
  obtains c' where "runs (calm utc sampleReg sampleCfg {''h1'', ''h2''}) sampleCluster
    [Ticked ''h2'' True, Ticked ''h1'' True] c'"
proof -
  obtain e where e: "hostTick ''h2'' sampleCluster = Some e" "succeeded e" "beating sampleCluster"
      "beating (advance sampleCluster ''h2'' e)"
    and "case hostTick ''h1'' (advance sampleCluster ''h2'' e) of None \<Rightarrow> False | Some e' \<Rightarrow> succeeded e'"
    using sampleCluster_ticks by (auto split: option.splits)
  then obtain e' where e': "hostTick ''h1'' (advance sampleCluster ''h2'' e) = Some e'" "succeeded e'"
    by (auto split: option.splits)
  let ?S = "calm utc sampleReg sampleCfg {''h1'', ''h2''}"
  let ?c1 = "advance sampleCluster ''h2'' e"
  let ?c2 = "advance ?c1 ''h1'' e'"
  have 1: "?S sampleCluster (Ticked ''h2'' True) ?c1" by (rule hostTick_calm [OF e(1,2) _ e(3)]) simp
  have 2: "?S ?c1 (Ticked ''h1'' True) ?c2" by (rule hostTick_calm [OF e' _ e(4)]) simp
  have "runs ?S ?c2 [] ?c2" by (rule runs.stop)
  with 2 have "runs ?S ?c1 [Ticked ''h1'' True] ?c2" by (rule runs.more [where step = ?S])
  with 1 have "runs ?S sampleCluster [Ticked ''h2'' True, Ticked ''h1'' True] ?c2"
    by (rule runs.more [where step = ?S])
  then show thesis by (rule that)
qed

lemma beatKv_contents:
  "contents (seeing beatKv sampleReg) =
     [heartbeatKey ''h1'' \<mapsto> (''h1'', Some 1), heartbeatKey ''h2'' \<mapsto> (''h2'', Some 2)]"
  by (auto simp: contents_def seeing_def sampleReg_def NewEtcdRegistry_def beatKv_def emptyKv_def
      heartbeatKey_def fun_eq_iff)

lemma sampleCluster_zone:
  "etcd_inv (seeing (shared sampleCluster) sampleReg)" "zone_of sampleReg sampleCluster = {}"
proof -
  have out: "\<not> HasPrefix (heartbeatKey h) (PathPrefix (etcdCfg sampleReg))" for h
    using heartbeat_key_outside [OF sample_inv] by blast
  have at: "recordAt (PathPrefix (etcdCfg sampleReg)) (contents (seeing beatKv sampleReg)) k = None" for k
    using out by (auto simp: recordAt_def beatKv_contents)
  show "etcd_inv (seeing (shared sampleCluster) sampleReg)"
    using sample_env(1) sample_prefix out at
    by (auto simp: etcd_inv_def sampleCluster_def placed_def beatKv_contents split: if_splits)
  show "zone_of sampleReg sampleCluster = {}"
    by (simp add: etcd_zone_def records_in_def sampleCluster_def at)
qed

lemma sampleCluster_tracks:
  "mem_wf (memory (sampleHost h))"
  "mem_abs (memory (sampleHost h)) =
     (if h = ''h1'' then track ''c-h1'' [webA] StatusRunning (mem_abs NewMemoryState) else mem_abs NewMemoryState)"
  by (simp_all add: sampleHost_def sampleEngine_def wf_intros mem_wf_New mem.abs_upsert)

lemma sampleCluster_ok: "cluster_ok utc sampleReg sampleCfg sampleCluster"
proof -
  have "wiring (registry (sampleHost h)) = wiring sampleReg" for h by (simp add: sampleHost_def wiring_def)
  moreover have "tracks (local_ok utc (sampleCfg h)) (mem_abs NewMemoryState)" for h
    by (simp add: tracks_def mem_abs_def NewMemoryState_def)
  moreover from this [of "''h1''"] have "tracks (local_ok utc (sampleCfg ''h1''))
      (track ''c-h1'' [webA] StatusRunning (mem_abs NewMemoryState))"
    using sample_storable sample_plain by (auto simp: tracks_def track_def sample_defs split: if_splits)
  ultimately show ?thesis
    using sampleCluster_zone(1) by (simp add: cluster_ok_def sampleCluster_def sampleCluster_tracks)
qed

lemma sampleCluster_lists: "tracked_list sampleCluster h = (if h = ''h1'' then [webA] else [])"
proof -
  have "GetAllDesiredRecordIntents (\<lambda>ks. ks) NewMemoryState = []" by code_simp
  then show ?thesis using sample_desired by (simp add: tracked_list_def sampleCluster_def sampleHost_def)
qed

lemma sampleCluster_aims: "aims sampleCluster h = (if h = ''h1'' then {webA} else {})"
proof -
  have "known (Rec webA)" by (simp add: sample_defs known_def kind_simps)
  then have "{r. kept [webA] r} = {webA}" using kept_zone [of "[webA]"] sample_zone(2) by auto
  moreover have "{r. kept [] r} = {}" using kept_mem [of "[]"] by auto
  ultimately show ?thesis by (simp add: aims_def sampleCluster_lists)
qed

lemma sampleCluster_harmonious: "harmonious sampleReg {''h1'', ''h2''} sampleCluster"
proof -
  have "IsAddress (Rec webA)" "Hostname webA = ''h1''" by (simp_all add: sample_defs kind_simps)
  then show ?thesis
    by (auto simp: harmonious_def zone_fine_def sampleCluster_zone(2) sampleCluster_aims
        sampleCluster_lists sample_zone erases_own_name_def untied_def)
qed

lemma sampleCluster_named: "named sampleCfg {''h1'', ''h2''}"
  by (simp add: named_def sampleCfg_def)

end
