(* ===== verification/Spec2Isabelle.thy ===== *)
theory Spec2Isabelle
  imports Samples
begin

text \<open>
  docker-coredns-sync watches the containers of a Docker host and keeps DNS records for them in etcd,
  where CoreDNS serves them; several hosts share one etcd.  The container labels say which records a
  container wants.  This development models the Go program under \<^verbatim>\<open>internal/\<close> and
  \<^verbatim>\<open>cmd/\<close> and states what each part guarantees and what their composition does.

  \<^bold>\<open>How the parts interact.\<close>  The generator (\<open>Events\<close>) turns the Docker event stream
  into container events; the engine (\<open>Engine\<close>) handles each by building the record intents of the
  container (\<open>Labels\<close>, \<open>Record_Builder\<close>) and storing them in the container state (\<open>State\<close>).  On
  every tick the engine takes the lock, lists the registry, filters the desired intents
  (\<open>Intent_Filter\<close>), plans additions and removals (\<open>Reconciliation\<close>, with \<open>Priority\<close> and
  \<open>Validation\<close>), and applies them to etcd (\<open>Etcd_Registry\<close>).  The outcome goes to the status
  (\<open>Status\<close>) behind the health endpoint (\<open>Http_Server\<close>) and to the metrics (\<open>Metrics\<close>).
  \<open>Wiring\<close> builds, runs and closes the whole.

  \<^bold>\<open>Theories and code.\<close>
  \<^item> \<open>Prelude\<close>: association lists as Go maps, map orders, loops that may panic.  \<open>GoStrings\<close>,
    \<open>GoRegexp\<close>, \<open>GoNet\<close>, \<open>Go_Time\<close>, \<open>Go_Json\<close>: what the program uses of the standard library.
  \<^item> \<open>Util\<close>: \<^verbatim>\<open>util/slice_funcs.go\<close>, \<^verbatim>\<open>default_map.go\<close>.  \<open>Domain\<close>: \<^verbatim>\<open>domain/\<close>.
    \<open>State\<close>: \<^verbatim>\<open>state/\<close>, refined to an abstract tracker (a map from containers to records with a
    count of missed resyncs).
  \<^item> \<open>Config\<close>, \<open>Config_Load\<close>, \<open>Settings\<close>: \<^verbatim>\<open>config/config.go\<close> (records and \<open>validate\<close>; \<open>Load\<close> and
    \<open>ClientTLS\<close>; defaults, \<open>initConfig\<close>, decoding) and the flags of \<^verbatim>\<open>cmd/\<close>.  \<open>Logger\<close>:
    \<^verbatim>\<open>logger/logger.go\<close>.
  \<^item> \<open>Labels\<close>, \<open>Record_Builder\<close>, \<open>Nested_Maps\<close>, \<open>Validation\<close>, \<open>Priority\<close>, \<open>Intent_Filter\<close>,
    \<open>Reconciliation\<close>: the files of \<^verbatim>\<open>core/\<close> with these names; the last two split
    \<^verbatim>\<open>reconciliation.go\<close>.
  \<^item> \<open>Engine\<close>: \<^verbatim>\<open>core/engine.go\<close> and \<^verbatim>\<open>core/interface.go\<close>, with the locale
    \<open>upstream_registry\<close> of what the engine relies on; \<open>Watch\<close>: generator and engine together.
  \<^item> \<open>Etcd_Path\<close>, \<open>Etcd_Wire\<close>, \<open>Etcd_Registry\<close>: \<^verbatim>\<open>registry/\<close>.  \<open>Etcd_Store\<close>, \<open>Etcd_Zone\<close>: what
    the operations do to the stored records, and the interpretation of the locale.  \<open>Etcd_Lock\<close>:
    exclusion, release and termination of \<open>LockTransaction\<close>.  \<open>Etcd_Heartbeat\<close>: liveness keys.
    \<open>Etcd_Engine\<close>: the tick over etcd.
  \<^item> \<open>Events\<close>: \<^verbatim>\<open>event/\<close>.  \<open>Status\<close>, \<open>Http_Server\<close>: \<^verbatim>\<open>httpserver/\<close>.  \<open>Metrics\<close>:
    \<^verbatim>\<open>metrics/metrics.go\<close>.
  \<^item> \<open>Wiring\<close>: \<^verbatim>\<open>app/app.go\<close>, and \<open>runWithDeps\<close>, the root command and \<open>Execute\<close> of
    \<^verbatim>\<open>cmd/docker-coredns-sync/root.go\<close>; \<open>Runs\<close>: whole runs of the daemon; \<open>Cluster\<close>: several
    hosts over one etcd, as a step relation.  \<open>Memory_Client\<close>: an etcd client in memory, which meets the
    assumptions; \<open>Samples\<close>: the concrete inputs of the witnesses.

  \<^bold>\<open>Conventions.\<close>  A struct is a record, an error its message or a constructor, a panic or a
  call that never returns \<open>None\<close>.  \<^verbatim>\<open>range\<close> over a map takes the order as an argument, and the
  theorems hold for all orders.  Instants are integers of nanoseconds since the epoch; a
  duration that is computed with is a 64-bit word.  The two goroutines of \<open>Run\<close> share the container
  state only, whose operations are atomic, so a run is a sequence of whole events and whole ticks.

  \<^bold>\<open>Third-party code.\<close>  The etcd client, the context and the clock are records of functions
  (\<open>etcdClient\<close>, \<open>runtime\<close>).  \<open>etcd_ok\<close> states etcd's documented behaviour: a prefix read
  returns the current keys; a write that fails has happened or not; a transaction is atomic; a
  revoked lease takes its keys along.  It leaves open which calls fail.  Leases do not expire
  during a call, and no other host writes during one: the theorems about a call speak of the store
  it starts with, and \<open>held_lock_excludes\<close> of what keeps other ticks out.  \<open>Cluster\<close> therefore
  takes a tick as one step; leases end, and the other hosts act, between the steps.  \<open>clock_ok\<close> states that
  the clock does not run backwards and that a sleep lasts at least as long as asked.  The results of
  the Docker client, of reading settings and TLS material, and of binding the listener are arguments.

  \<^bold>\<open>What the theorems show.\<close>  The properties 1 to 10 set the reconciler against its
  abstract decision (\<open>reconciled\<close>): the freedom of conflicts of the records (\<open>zone_ok\<close>), what is
  added and removed, and two flaws (loops of aliases added together, forced records that alternate).
  The properties 11 to 15 are about the tick over etcd, which refines the plan and converges, about
  the hosts of a cluster, which keep \<open>zone_ok\<close> and converge together, and about the daemon, which
  never gets stuck; 16 to 21 about registering, removing, reading back, locks and liveness (and,
  beside them, the waits between heartbeat retries); 22 to 24 about dry run, readiness and the
  release of resources; 25 to 28 about the filter and 29 about validation.  The tracker, the
  connection cycles and the backoff follow in 30 to 36, and labels, intents, keys and the separation
  of the key prefixes in 37 to 40.

  \<^bold>\<open>Bounds and fuel.\<close>  The JSON parser takes two units of fuel per byte (\<open>parse_fuel\<close>:
  more changes nothing).  \<open>acquireLoop\<close> is a \<open>partial_function\<close>; with \<open>clock_ok\<close> and a retry
  interval of at least a nanosecond it returns (\<open>LockTransaction_returns\<close>).  All other loops
  terminate by structure or by a measure.

  \<^bold>\<open>Not modelled.\<close>  Log output.  How flags, environment and file are merged and converted,
  and the parsing of the command line: viper and cobra.  \<^verbatim>\<open>Metrics.Handler\<close> and the collectors
  themselves: a library; the model is the sequence of calls on them.  Of \<^verbatim>\<open>Server.Start\<close> the model is
  what its goroutines report, and of the signal goroutine that the run is cancelled: serving and
  signals are the standard library's.  Stale reads of etcd (the registry asks for serializable
  ones), the expiry of leases in the middle of a call, and writes of other hosts in the middle of a
  call.  NaN and infinite settings.
\<close>

section \<open>Reconciliation\<close>

text \<open>
  C1: On a conflict-free zone and conflict-free valid desired records, the reconciler computes the
  abstract decision: the records to add are exactly those of \<open>reconciled\<close> and the removals have
  exactly its keys, whatever orders the maps are visited in.
\<close>

theorem reconcile_refines:
  assumes "orders_ok ords" and "zone_ok (set actual)" and "zone_ok (set desired)"
    and "\<forall>d \<in> set desired. record_ok (Rec d)"
  shows "\<exists>add rem. ReconcileAndValidate ords desired actual cfg live = Some (add, rem) \<and>
    (set add, Intent_Key ` set rem) = reconciled desired actual cfg live"
  using assms by (intro reconciled_refines zone_keys_inj) auto

theorem reconcile_refines_witness:
  "\<exists>add rem. ReconcileAndValidate (\<lambda>s i ks. ks) [webA, webA2] [webA2] (sampleCfg ''h1'') None =
       Some (add, rem) \<and>
     (set add, Intent_Key ` set rem) = reconciled [webA, webA2] [webA2] (sampleCfg ''h1'') None"
  by (rule reconcile_refines) (simp_all add: sample_zone sample_ok)

text \<open>
  C2: A whole pass (filter, then reconcile) never panics, and applying its result to a
  conflict-free zone leaves a conflict-free zone, for arbitrary desired records: no name ends up
  with an alias beside addresses, two aliases, or a duplicate address.
\<close>

theorem pass_keeps_zone_ok:
  assumes "orders_ok ords" and "zone_ok (set actual)"
  shows "\<exists>filtered add rem. FilterRecordIntents ords desired = Some filtered \<and>
    ReconcileAndValidate ords filtered actual cfg live = Some (add, rem) \<and>
    zone_ok (set (applied actual add rem))"
proof -
  obtain filtered where f: "FilterRecordIntents ords desired = Some filtered"
    and "set filtered = {r. kept desired r}"
    using FilterRecordIntents_kept [OF assms(1)] by blast
  then have zone: "zone_ok (set filtered)" by (simp add: zone_ok_kept)
  obtain add rem where "ReconcileAndValidate ords filtered actual cfg live = Some (add, rem)"
    using ReconcileAndValidate_maps [OF assms(1)] by blast
  with f zone_ok_applied [OF assms zone] show ?thesis by blast
qed

theorem pass_keeps_zone_ok_witness:
  "\<exists>filtered add rem. FilterRecordIntents (\<lambda>s i ks. rev ks) [webA, webA2, webAlias] = Some filtered \<and>
     ReconcileAndValidate (\<lambda>s i ks. rev ks) filtered [webA2] (sampleCfg ''h1'') None = Some (add, rem) \<and>
     zone_ok (set (applied [webA2] add rem))"
  by (rule pass_keeps_zone_ok) (simp_all add: sample_zone orders_ok_def)

text \<open>
  C3: The reconciler removes nothing without a reason.  Every removed record is in the registry,
  and it is a stale record of this host, an orphan of a host known to be dead, or in conflict with
  a desired record that is forced or older than a record of the evicted one's slot.
\<close>

theorem removals_justified:
  assumes "orders_ok ords"
    and "ReconcileAndValidate ords desired actual cfg live = Some (add, rem)" and "r \<in> set rem"
  shows "r \<in> set actual \<and>
    (Intent_Key r \<notin> Intent_Key ` set desired \<and>
       (Hostname r = AppHostname cfg \<or> (\<exists>hs. live = Some hs \<and> Hostname r \<notin> set hs)) \<or>
     (\<exists>d \<in> set desired. may_evict (stays desired cfg live actual) d r))"
proof -
  obtain a rm where eq: "ReconcileAndValidate ords desired actual cfg live =
      Some (range_vals (ords Adds 0) a, range_vals (ords Removes 0) rm)"
    and rm: "rm_sound (removable desired cfg live) actual (stays desired cfg live actual) desired rm"
    by (rule ReconcileAndValidate_maps [OF assms(1)])
  with assms obtain k where "map_of rm k = Some r"
    by (auto simp: set_range_vals_map_of rm_sound_def)
  with rm have "r \<in> set actual \<and> (removable desired cfg live r \<or>
      (\<exists>d \<in> set desired. may_evict (stays desired cfg live actual) d r))"
    by (simp add: rm_sound_def)
  then show ?thesis by (simp add: removable_def)
qed

theorem removals_justified_witness:
  "webA2 \<in> set [webA2] \<and>
    (Intent_Key webA2 \<notin> Intent_Key ` set [] \<and>
       (Hostname webA2 = AppHostname (sampleCfg ''h2'') \<or>
        (\<exists>hs. (None :: string list option) = Some hs \<and> Hostname webA2 \<notin> set hs)) \<or>
     (\<exists>d \<in> set []. may_evict (stays [] (sampleCfg ''h2'') None [webA2]) d webA2))"
  by (rule removals_justified [of "\<lambda>s i ks. ks" _ _ _ _ "[]" "[webA2]"])
    (simp_all add: sample_defs go_eval)

text \<open>
  C4: In the steady state nothing happens.  When every desired record has an equal one in a
  conflict-free registry, this host owns no record there beyond them, and every other owner is
  alive (or liveness is unknown), both result lists are empty.
\<close>

theorem steady_state:
  assumes "orders_ok ords" and "zone_ok (set actual)" and "zone_ok (set desired)"
    and "\<forall>d \<in> set desired. record_ok (Rec d) \<and> (\<exists>r \<in> set actual. Intent_Equal r d)"
    and "\<forall>r \<in> set actual. Intent_Key r \<in> Intent_Key ` set desired \<or>
      (Hostname r \<noteq> AppHostname cfg \<and> (\<forall>hs. live = Some hs \<longrightarrow> Hostname r \<in> set hs))"
  shows "ReconcileAndValidate ords desired actual cfg live = Some ([], [])"
proof -
  have "settled (stays desired cfg live actual) d" if "d \<in> set desired" for d
    using assms(4) that settledI by (fastforce simp: record_ok_def known_def kind_simps)
  moreover have "\<not> removable desired cfg live r" if "r \<in> set actual" for r
    using assms(5) that by (auto simp: removable_def)
  ultimately have "reconciled desired actual cfg live = ({}, {})" by (intro reconciled_steady)
  with reconciled_run [OF assms(1-3), of cfg live] assms(4) show ?thesis by auto
qed

theorem steady_state_witness:
  "ReconcileAndValidate (\<lambda>s i ks. ks) [webA] [webA2, webA] (sampleCfg ''h1'') (Some [''h1'', ''h2'']) =
     Some ([], [])"
proof (rule steady_state)
  show "zone_ok (set [webA2, webA])" using sample_zone(1) by (simp add: insert_commute)
  show "\<forall>d \<in> set [webA]. record_ok (Rec d) \<and> (\<exists>r \<in> set [webA2, webA]. Intent_Equal r d)"
    using sample_ok by (simp add: Intent_Equal_def Record_Equal_eq)
qed (simp_all add: sample_zone, simp add: sample_defs)

text \<open>
  C5: A desired address record is added exactly when it is desired, the registry does not hold it
  yet, and it is forced or older than every staying record it is in conflict with.
\<close>

theorem addresses_added_exactly:
  assumes "orders_ok ords" and "zone_ok (set actual)" and "zone_ok (set desired)"
    and "\<forall>d \<in> set desired. record_ok (Rec d)"
    and "ReconcileAndValidate ords desired actual cfg live = Some (add, rem)" and "IsAddress (Rec d)"
  shows "d \<in> set add \<longleftrightarrow> d \<in> set desired \<and> \<not> settled (stays desired cfg live actual) d \<and>
    wins (stays desired cfg live actual) d"
  using reconciled_run [OF assms(1-3), of cfg live] assms(4-6)
    reconciled_address [OF address_not_cname, of d desired actual cfg live] by auto

theorem addresses_added_exactly_witness:
  "\<exists>add rem. ReconcileAndValidate (\<lambda>s i ks. ks) [webA] [] (sampleCfg ''h1'') None = Some (add, rem) \<and>
     (webA \<in> set add \<longleftrightarrow> webA \<in> set [webA] \<and> \<not> settled (stays [webA] (sampleCfg ''h1'') None []) webA \<and>
       wins (stays [webA] (sampleCfg ''h1'') None []) webA)"
proof -
  have "ReconcileAndValidate (\<lambda>s i ks. ks) [webA] [] (sampleCfg ''h1'') None = Some ([webA], [])"
    by code_simp
  moreover from this have "webA \<in> set [webA] \<longleftrightarrow>
      webA \<in> set [webA] \<and> \<not> settled (stays [webA] (sampleCfg ''h1'') None []) webA \<and>
      wins (stays [webA] (sampleCfg ''h1'') None []) webA"
    by (rule addresses_added_exactly [rotated 4])
      (simp_all add: sample_zone sample_ok, simp add: sample_defs kind_simps)
  ultimately show ?thesis by blast
qed

text \<open>
  C6: A desired alias that the registry does not hold, that beats all staying records it is in
  conflict with, and whose chain through the remaining aliases ends, is added.
\<close>

theorem alias_added:
  assumes "orders_ok ords" and "zone_ok (set actual)" and "zone_ok (set desired)"
    and "\<forall>d \<in> set desired. record_ok (Rec d)"
    and "ReconcileAndValidate ords desired actual cfg live = Some (add, rem)"
    and "d \<in> set desired" and "\<not> settled (stays desired cfg live actual) d"
    and "wins (stays desired cfg live actual) d"
    and "ends (alias_map d (filter (\<lambda>r. \<not> removable desired cfg live r \<and>
      r \<notin> competitors (stays desired cfg live actual) d) actual)) (Name (Rec d))"
  shows "d \<in> set add"
  using reconciled_run [OF assms(1-3), of cfg live] assms(4,5)
    reconciled_alias [OF assms(2,6-8)] assms(9) by (auto simp: closes_loop_def)

theorem alias_added_witness:
  "\<exists>add rem. ReconcileAndValidate (\<lambda>s i ks. ks) [webAlias] [webA2] (sampleCfg ''h2'') None =
     Some (add, rem) \<and> webAlias \<in> set add"
proof -
  have key: "Intent_Key webA2 \<noteq> Intent_Key webAlias" by code_simp
  obtain add rem where run: "ReconcileAndValidate (\<lambda>s i ks. ks) [webAlias] [webA2]
      (sampleCfg ''h2'') None = Some (add, rem)"
    using ReconcileAndValidate_maps [OF orders_ok_id] by blast
  have none: "stays [webAlias] (sampleCfg ''h2'') None [webA2] = {}"
    using key by (auto simp: stays_def removable_def sampleCfg_def webA2_def sampleIntent_def)
  have "webAlias \<in> set add"
    by (rule alias_added [OF orders_ok_id _ _ _ run])
      (simp_all add: sample_zone sample_ok none settled_def wins_def competitors_def zone_ok_def,
       simp add: sample_defs alias_map_def forward_of_def ends_simps kind_defs removable_def
         Intent_Key_def Record_Key_def fmt_bool_def)
  with run show ?thesis by blast
qed

text \<open>
  C7: Garbage collection is complete: every stale record of this host, and every record of a host
  known to be dead, leaves the registry in the same pass (its key is among the removed).
\<close>

theorem stale_removed:
  assumes "orders_ok ords"
    and "ReconcileAndValidate ords desired actual cfg live = Some (add, rem)"
    and "r \<in> set actual" and "removable desired cfg live r"
  shows "Intent_Key r \<in> Intent_Key ` set rem"
proof -
  obtain a rm where eq: "ReconcileAndValidate ords desired actual cfg live =
      Some (range_vals (ords Adds 0) a, range_vals (ords Removes 0) rm)"
    and rm: "rm_sound (removable desired cfg live) actual (stays desired cfg live actual) desired rm"
    by (rule ReconcileAndValidate_maps [OF assms(1)])
  with assms(3,4) obtain q where "map_of rm (Intent_Key r) = Some q" "Intent_Key q = Intent_Key r"
    unfolding rm_sound_def by blast
  with eq rm assms(1,2) have "q \<in> set rem" by (auto simp: set_range_vals_map_of rm_sound_def)
  with \<open>Intent_Key q = Intent_Key r\<close> show ?thesis by (metis imageI)
qed

theorem stale_removed_witness:
  "\<exists>add rem. ReconcileAndValidate (\<lambda>s i ks. ks) [] [webA2] (sampleCfg ''h1'') (Some [''h1'']) =
     Some (add, rem) \<and> Intent_Key webA2 \<in> Intent_Key ` set rem"
proof -
  obtain add rem where run: "ReconcileAndValidate (\<lambda>s i ks. ks) [] [webA2] (sampleCfg ''h1'')
      (Some [''h1'']) = Some (add, rem)"
    using ReconcileAndValidate_maps [OF orders_ok_id] by blast
  have "Intent_Key webA2 \<in> Intent_Key ` set rem"
    by (rule stale_removed [OF orders_ok_id run]) (simp_all add: removable_def sample_defs)
  with run show ?thesis by blast
qed

text \<open>
  C8: A pass that adds a single record keeps a loop-free zone loop-free: every chain of aliases
  still ends.
\<close>

theorem single_addition_keeps_chains:
  assumes "orders_ok ords" and "zone_ok (set actual)" and "zone_ok (set desired)"
    and "\<forall>d \<in> set desired. record_ok (Rec d)" and "loop_free actual"
    and "ReconcileAndValidate ords desired actual cfg live = Some ([d], rem)"
  shows "loop_free (applied actual [d] rem)"
  using assms by (intro single_addition_loop_free) auto

theorem single_addition_keeps_chains_witness:
  "loop_free (applied [] [webA] [])"
proof (rule single_addition_keeps_chains)
  show "ReconcileAndValidate (\<lambda>s i ks. ks) [webA] [] (sampleCfg ''h1'') None = Some ([webA], [])"
    by code_simp
  show "loop_free []" by (simp add: loop_free_def forward_of_def ends_simps)
qed (simp_all add: sample_zone sample_ok)




text \<open>
  C10: Two live hosts that force the same address record replace each other's record on every
  pass: each one's pass over the other's zone leaves exactly its own record.
\<close>

theorem forced_hosts_alternate:
  assumes "orders_ok ords" and "Force d" and "Force r" and "IsAddress (Rec d)"
    and "record_ok (Rec d)" and "Rec r = Rec d" and "Hostname r \<noteq> Hostname d"
    and "AppHostname cfg = Hostname d" and "AppHostname cfg' = Hostname r"
    and "\<forall>hs. live = Some hs \<longrightarrow> Hostname r \<in> set hs \<and> Hostname d \<in> set hs"
  shows "(\<exists>add rem. ReconcileAndValidate ords [d] [r] cfg live = Some (add, rem) \<and>
      set (applied [r] add rem) = {d}) \<and>
    (\<exists>add rem. ReconcileAndValidate ords [r] [d] cfg' live = Some (add, rem) \<and>
      set (applied [d] add rem) = {r})"
  using assms by (intro conjI forced_takes_over) auto

theorem forced_hosts_alternate_witness:
  "(\<exists>add rem. ReconcileAndValidate (\<lambda>s i ks. ks) [webA\<lparr>Force := True\<rparr>]
       [webA\<lparr>Force := True, Hostname := ''h2''\<rparr>] (sampleCfg ''h1'') None = Some (add, rem) \<and>
      set (applied [webA\<lparr>Force := True, Hostname := ''h2''\<rparr>] add rem) = {webA\<lparr>Force := True\<rparr>}) \<and>
   (\<exists>add rem. ReconcileAndValidate (\<lambda>s i ks. ks) [webA\<lparr>Force := True, Hostname := ''h2''\<rparr>]
       [webA\<lparr>Force := True\<rparr>] (sampleCfg ''h2'') None = Some (add, rem) \<and>
      set (applied [webA\<lparr>Force := True\<rparr>] add rem) = {webA\<lparr>Force := True, Hostname := ''h2''\<rparr>})"
  by (rule forced_hosts_alternate) (use sample_ok(1) in \<open>simp_all add: sample_defs kind_simps\<close>)


section \<open>The tick over etcd\<close>





text \<open>The same of one tick of one host.\<close>

theorem tick_keeps_zone_ok:
  assumes "etcd_inv (registry e)" and "orders_ok ords" and "\<not> DryRun cfg"
    and "\<forall>d \<in> set (GetAllDesiredRecordIntents ord (memory e)). storable lz d"
    and "tick ords ord cfg (etcdUpstream lz) start finish e = Some e'"
    and "health e' = Some s" and "lastReconcileErr s = None"
    and "zone_ok (etcd_zone (registry e))" and "\<forall>q \<in> etcd_zone (registry e). plain_intent q"
  shows "zone_ok (etcd_zone (registry e'))"
  by (rule tick_zone_ok [OF assms])

theorem tick_keeps_zone_ok_witness: "zone_ok (etcd_zone (registry sampleEngine1))"
proof (rule sample_tick)
  fix s
  assume "sampleTick 5 sampleEngine = Some sampleEngine1" and "health sampleEngine1 = Some s"
    and "lastReconcileErr s = None"
  note tick = this(1) [unfolded sampleTick_def] this(2,3)
  show ?thesis
    by (rule tick_keeps_zone_ok [OF _ _ _ _ tick])
      (simp_all add: sampleEngine_parts sample_inv sample_desired sample_storable sampleCfg_def
        sample_etcd_zone sample_zone)
qed





text \<open>
  C15: A built daemon that is fed orders and storable records processes every sequence of inputs and
  returns when it is cancelled: no tick hangs on the lock and none panics.
\<close>

theorem daemon_never_stuck:
  assumes "NewWithFactories dockerFactory etcdFactory rt bound cfg = (Inr a, t)"
    and "etcd_inv (registry (engine a))"
    and "clock_ok (client (registry (engine a))) (env (registry (engine a))) clk"
    and "retry_positive (registry (engine a))"
    and "\<forall>i \<in> set is. input_storable lz (App cfg) i"
  shows "\<exists>a'. appRun (App cfg) lz is a = Some (Some ContextCanceled, a') \<and>
    etcd_inv (registry (engine a'))"
  by (rule daemon_run_returns [OF assms])

theorem daemon_never_stuck_witness:
  "\<exists>a'. appRun (App (sampleConfig False)) utc
       [Observed (ConnectionChange True), Woken (Ticker inOrder (\<lambda>ks. ks) 5 6),
        Woken (Event rev 7 (resyncEvent [])), Woken (Ticker inOrder rev 8 9)] (sampleApp False) =
     Some (Some ContextCanceled, a') \<and> etcd_inv (registry (engine a'))"
  by (rule daemon_never_stuck [OF sample_build [unfolded sampleBuild_def]])
    (auto simp: sampleApp_registry sample_inv sample_retry resync_input tick_input
      input_storable_def [of _ _ "Observed _"] input_ok_def intro: sample_env(2))


section \<open>Records in etcd\<close>



text \<open>
  C17: \<open>Remove\<close> deletes exactly the records below the name that match the given one, when it
  succeeds; when it fails, it has deleted some of these and nothing else.
\<close>

theorem remove_exact:
  assumes "etcd_inv er" and "record_ok (Rec d)" and "Remove d er = (err, er')"
  shows "etcd_inv er' \<and> etcd_zone er' \<subseteq> etcd_zone er \<and>
    {q \<in> etcd_zone er. \<not> erases d q} \<subseteq> etcd_zone er' \<and>
    (err = None \<longrightarrow> etcd_zone er' = {q \<in> etcd_zone er. \<not> erases d q})"
  by (rule Remove_effect [OF assms])

theorem remove_exact_witness:
  "\<exists>er. Remove webA regA = (None, er) \<and> etcd_zone er = {}"
proof -
  obtain er where er: "Remove webA regA = (None, er)" by (rule sample_remove)
  have "erases webA webA" by (rule erases_self) (simp add: Intent_Equal_def Record_Equal_def)
  with remove_exact [OF regA_zone(1) sample_ok(1) er] er show ?thesis
    by (auto simp: regA_zone(2))
qed

text \<open>
  C18: Removing a record also removes a record of any name below it that has the same value, kind and
  owner: the deletion ranges over the whole subtree of the name, and does not compare names.
\<close>

theorem removal_reaches_subdomains:
  assumes "etcd_inv er" and "record_ok (Rec d)" and "Remove d er = (None, er')"
    and "Name (Rec q) = sub @ ''.'' @ Name (Rec d)"
    and "Kind (Rec q) = Kind (Rec d)" and "Value (Rec q) = Value (Rec d)"
    and "Hostname q = Hostname d" and "ContainerId q = ContainerId d"
    and "ContainerName q = ContainerName d"
  shows "q \<notin> etcd_zone er'"
proof -
  have "HasSuffix (Name (Rec q)) (''.'' @ Name (Rec d))"
    unfolding assms(4) HasSuffix_iff by blast
  then have "erases d q" using assms(5-9) by (simp add: erases_def under_def recordMatches_def wireOf_def)
  then show ?thesis using Remove_effect [OF assms(1-3)] by simp
qed

theorem removal_reaches_subdomains_witness:
  "\<exists>er. Remove aboveWebA regA = (None, er) \<and> webA \<in> etcd_zone regA \<and> webA \<notin> etcd_zone er"
proof -
  obtain er where er: "Remove aboveWebA regA = (None, er)" by (rule sample_remove)
  have "record_ok (Rec aboveWebA)" by (simp add: aboveWebA_def sample_defs record_ok_def go_eval)
  from removal_reaches_subdomains [OF regA_zone(1) this er, of webA "''web''"] er show ?thesis
    by (simp add: regA_zone(2) aboveWebA_def sample_defs)
qed

text \<open>
  C19: A record survives its encoding: the value that \<open>Register\<close> writes, read back from the key it is
  written to, gives the same intent, with its creation time, for every prefix and index.
\<close>

theorem record_roundtrip:
  assumes "storable lz ri" and "marshalEtcdValue lz ri = Some raw"
  shows "unmarshalEtcdValue (indexedKey (keyBaseForFQDN prefix (Name (Rec ri))) i) raw prefix = Inr ri"
proof -
  have "isValidHostname (Name (Rec ri))" using assms(1) by (simp add: storable_def record_ok_def)
  from wire_roundtrip [OF assms fqdn_of_indexedKey [OF this]] show ?thesis .
qed

theorem record_roundtrip_witness:
  "\<exists>raw. marshalEtcdValue utc webA = Some raw \<and>
     unmarshalEtcdValue (indexedKey (keyBaseForFQDN ''/skydns/'' (Name (Rec webA))) 3) raw ''/skydns/'' =
       Inr webA"
  using record_roundtrip [OF sample_storable, of _ "''/skydns/''" 3] marshal_defined [OF sample_storable]
  by blast

text \<open>
  C20: Mutual exclusion: while a lock's key exists, a transaction that needs it changes no variable and
  returns an error, whatever it would do.
\<close>

theorem held_lock_excludes:
  assumes "etcd_inv er" and "key \<in> set keys" and "contents er (lockPath key) \<noteq> None"
    and "LockTransaction keys fn (vars, er) = Some (out, vars', er')"
  shows "\<exists>err. out = Returned (Some err) \<and> vars' = vars"
  by (rule LockTransaction_held [OF assms])

theorem held_lock_excludes_witness:
  "\<exists>out vars' er'.
     LockTransaction [''__global__''] (\<lambda>(v, er). (Returned None, v + 1, er)) (0 :: int, lockedReg) =
       Some (out, vars', er') \<and> (\<exists>err. out = Returned (Some err) \<and> vars' = 0)"
proof -
  obtain out vars' er' where run: "LockTransaction [''__global__'']
      (\<lambda>(v, er). (Returned None, v + 1, er)) (0 :: int, lockedReg) = Some (out, vars', er')"
    by (rule sample_locked)
  from held_lock_excludes [OF lockedReg_ok(1) _ lockedReg_ok(2) run] run show ?thesis by auto
qed

text \<open>
  C21: The live hosts are unknown exactly while the own heartbeat is not established, which disables
  cross-host collection; otherwise they are this host and the hosts with a heartbeat key.
\<close>

theorem live_hosts_exact:
  assumes "etcd_inv er" and "GetLiveHostnames er = (Inr live, er')"
  shows "(live = None \<longleftrightarrow> \<not> hbActive er) \<and>
    (\<forall>hosts. live = Some hosts \<longrightarrow>
       set hosts = insert (ownHostname er) {h. h \<noteq> [] \<and> contents er (heartbeatKey h) \<noteq> None})"
  using GetLiveHostnames_result [OF assms] by blast

theorem live_hosts_exact_witness:
  "\<exists>hosts er. GetLiveHostnames heartReg = (Inr (Some hosts), er) \<and>
     set hosts = insert (ownHostname heartReg) {h. h \<noteq> [] \<and> contents heartReg (heartbeatKey h) \<noteq> None}"
proof -
  obtain hosts er where live: "GetLiveHostnames heartReg = (Inr (Some hosts), er)" by (rule heartReg_live)
  then have "set hosts =
      insert (ownHostname heartReg) {h. h \<noteq> [] \<and> contents heartReg (heartbeatKey h) \<noteq> None}"
    using live_hosts_exact [OF heartReg_inv live] by simp
  with live show ?thesis by (intro exI conjI)
qed

text \<open>
  While the heartbeat is lost, the k-th wait before the next attempt is twice the one before, from
  one second up to thirty.
\<close>

theorem heartbeat_waits:
  assumes "reestablishHeartbeat key initialBackoff rs er = (waits, res)" and "k < length waits"
  shows "waits ! k = min (1000000000 * 2 ^ k) 30000000000"
  using reestablish_waits [OF assms] retryBackoff_pow [of k] by (simp add: initialBackoff_def maxBackoff_def)

theorem heartbeat_waits_witness:
  "\<exists>waits res. reestablishHeartbeat ''k'' initialBackoff [Waited, Waited] downReg = (waits, res) \<and>
     waits ! 1 = min (1000000000 * 2 ^ 1) 30000000000"
proof -
  obtain waits res where w: "reestablishHeartbeat ''k'' initialBackoff [Waited, Waited] downReg = (waits, res)"
    and "length waits = 2"
    by (rule downReg_waits)
  with heartbeat_waits [OF w, of 1] show ?thesis by simp
qed


section \<open>The daemon\<close>

text \<open>
  C22: In dry-run mode the daemon changes no record: whatever it receives, the records in etcd are the
  same when it is cancelled.
\<close>

theorem dry_run_is_read_only:
  assumes "NewWithFactories dockerFactory etcdFactory rt bound cfg = (Inr a, t)"
    and "etcd_inv (registry (engine a))" and "DryRun (App cfg)" and "\<forall>i \<in> set is. input_ok i"
    and "appRun (App cfg) lz is a = Some (err, a')"
  shows "etcd_zone (registry (engine a')) = etcd_zone (registry (engine a))"
  by (rule dry_run_writes_nothing [OF assms])

theorem dry_run_is_read_only_witness:
  "\<exists>err a'. appRun (App (sampleConfig True)) utc
       [Woken (Event rev 7 (resyncEvent [])), Woken (Ticker inOrder rev 8 9)] (sampleApp True) =
     Some (err, a') \<and>
   etcd_zone (registry (engine a')) = etcd_zone (registry (engine (sampleApp True)))"
proof -
  let ?is = "[Woken (Event rev 7 (resyncEvent [])), Woken (Ticker inOrder rev 8 9)]"
  have ok: "\<forall>i \<in> set ?is. input_storable utc (App (sampleConfig True)) i"
    by (simp add: resync_input tick_input)
  have inv: "etcd_inv (registry (engine (sampleApp True)))" by (simp add: sampleApp_registry sample_inv)
  obtain err a' where run: "appRun (App (sampleConfig True)) utc ?is (sampleApp True) = Some (err, a')"
    using daemon_run_returns [OF sample_build [unfolded sampleBuild_def] inv _ _ ok, of clock]
      sample_env(2) sample_retry
    by (auto simp: sampleApp_registry)
  have "\<forall>i \<in> set ?is. input_ok i" using ok by (simp add: input_storable_def)
  from dry_run_is_read_only [OF sample_build [unfolded sampleBuild_def] inv _ this run] run
  show ?thesis by simp
qed






section \<open>The filter over the desired records\<close>

text \<open>
  C25: The filter never panics and returns exactly the records that \<open>kept\<close> describes: the winner
  of each slot, minus the losers of the contest between a name's alias and its addresses; the map
  orders have no influence.
\<close>

theorem filter_exact:
  assumes "orders_ok ords"
  shows "\<exists>out. FilterRecordIntents ords ris = Some out \<and> set out = {r. kept ris r}"
  by (rule FilterRecordIntents_kept [OF assms])

theorem filter_exact_witness:
  "\<exists>out. FilterRecordIntents (\<lambda>s i ks. rev ks) [webA, webAlias, webA2] = Some out \<and>
     set out = {r. kept [webA, webAlias, webA2] r}"
  by (rule filter_exact) (simp add: orders_ok_def)

text \<open>
  C26: The filter drops no record without cause: every dropped record of a supported kind is in
  conflict with one that stays and that has at least its priority.
\<close>

theorem filter_drops_losers:
  assumes "orders_ok ords" and "FilterRecordIntents ords ris = Some out" and "r \<in> set ris"
    and "known (Rec r)" and "r \<notin> set out"
  shows "\<exists>q \<in> set out. \<not> compatible (Rec q) (Rec r) \<and> rank q \<le> rank r"
  using FilterRecordIntents_kept [OF assms(1), of ris] assms(2-5) dropped_beaten [of r ris] by auto

theorem filter_drops_losers_witness:
  "\<exists>out. FilterRecordIntents (\<lambda>s i ks. ks) [webA, webAlias] = Some out \<and>
     (\<exists>q \<in> set out. \<not> compatible (Rec q) (Rec webA) \<and> rank q \<le> rank webA)"
proof -
  have run: "FilterRecordIntents (\<lambda>s i ks. ks) [webA, webAlias] = Some [webAlias]"
    by code_simp
  have "\<exists>q \<in> set [webAlias]. \<not> compatible (Rec q) (Rec webA) \<and> rank q \<le> rank webA"
    by (rule filter_drops_losers [OF orders_ok_id run])
      (simp_all add: sample_defs known_def kind_simps)
  with run show ?thesis by blast
qed

text \<open>
  C27: The filter returns a conflict-free list, and a conflict-free list of supported kinds passes
  unchanged; so filtering twice is filtering once.
\<close>

theorem filter_idempotent:
  assumes "orders_ok ords" and "orders_ok ords'" and "FilterRecordIntents ords ris = Some out"
  shows "zone_ok (set out) \<and> (\<exists>out'. FilterRecordIntents ords' out = Some out' \<and> set out' = set out)"
proof -
  have out: "set out = {r. kept ris r}"
    using FilterRecordIntents_kept [OF assms(1), of ris] assms(3) by simp
  then have zone: "zone_ok (set out)" by (simp add: zone_ok_kept)
  have "{r. kept out r} = set out" using kept_zone [OF zone] kept_known out by auto
  with FilterRecordIntents_kept [OF assms(2), of out] zone show ?thesis by auto
qed

theorem filter_idempotent_witness:
  "zone_ok (set [webAlias]) \<and>
   (\<exists>out'. FilterRecordIntents (\<lambda>s i ks. rev ks) [webAlias] = Some out' \<and> set out' = set [webAlias])"
proof (rule filter_idempotent)
  show "FilterRecordIntents (\<lambda>s i ks. ks) [webA, webAlias] = Some [webAlias]"
    by code_simp
qed (simp_all add: orders_ok_def)

text \<open>
  C28: When no two desired records of one slot have the same priority, the result of the filter
  depends on the set of the desired records only, not on the order in which the state lists them.
\<close>

theorem filter_order_independent:
  assumes "orders_ok ords" and "orders_ok ords'" and "untied ris" and "set ris' = set ris"
  shows "\<exists>out out'. FilterRecordIntents ords ris = Some out \<and>
    FilterRecordIntents ords' ris' = Some out' \<and> set out' = set out"
  using FilterRecordIntents_kept [OF assms(1), of ris] FilterRecordIntents_kept [OF assms(2), of ris']
    kept_set [OF assms(3,4)] by auto

theorem filter_order_independent_witness:
  "\<exists>out out'. FilterRecordIntents (\<lambda>s i ks. ks) [webA, webAlias] = Some out \<and>
    FilterRecordIntents (\<lambda>s i ks. rev ks) [webAlias, webA] = Some out' \<and> set out' = set out"
  by (rule filter_order_independent)
    (auto simp: orders_ok_def untied_def same_slot_def sample_defs kind_simps)

text \<open>
  The rule for an alias against many addresses is the rule for two records, taken against each
  of them: the flags the code collects compute nothing else.
\<close>

theorem replace_all_iff_each:
  "shouldReplaceAllExisting new existing \<longleftrightarrow> list_all (shouldReplaceExisting new) existing"
  by (simp add: shouldReplaceAllExisting_rank shouldReplaceExisting_rank list_all_iff)


section \<open>Validation\<close>

text \<open>
  C29: A record passes validation exactly when it is compatible with every existing record (no
  alias beside other records of its name, no duplicate address) and, for an alias, when the chain
  from its name through the first aliases of the existing records ends.
\<close>

theorem validation_exact:
  "ValidateRecord new existing = None \<longleftrightarrow>
     (\<forall>e \<in> set existing. compatible (Rec new) (Rec e)) \<and>
     (IsCNAME (Rec new) \<longrightarrow> ends (alias_map new existing) (Name (Rec new)))"
  by (rule ValidateRecord_None)

theorem validation_exact_witness:
  "(ValidateRecord webAlias [webA] = None \<longleftrightarrow>
     (\<forall>e \<in> set [webA]. compatible (Rec webAlias) (Rec e)) \<and>
     (IsCNAME (Rec webAlias) \<longrightarrow> ends (alias_map webAlias [webA]) (Name (Rec webAlias)))) \<and>
   ValidateRecord webAlias [webA] \<noteq> None"
proof
  show "ValidateRecord webAlias [webA] \<noteq> None" by code_simp
qed (rule validation_exact)

text \<open>
  The cycle error is reported exactly for an alias that is compatible with all existing records
  and whose chain does not end; every other rejected record gets the error of a conflict.
\<close>

theorem cycle_error_exact:
  "ValidateRecord new existing = Some (CNAMECycle (Name (Rec new))) \<longleftrightarrow>
     IsCNAME (Rec new) \<and> list_all (\<lambda>e. compatible (Rec new) (Rec e)) existing \<and>
     \<not> ends (alias_map new existing) (Name (Rec new))"
  unfolding list_all_iff by (rule ValidateRecord_cycle)

text \<open>
  The walk along the aliases always returns, and says that it met a loop exactly when the chain
  has no end.
\<close>

theorem walk_detects_loops:
  "cycleWalk forward [] start \<longleftrightarrow> \<not> (\<exists>end. resolves (map_of forward) start end)"
  by (simp add: cycleWalk_iff ends_def)


section \<open>The container tracker\<close>

text \<open>
  C30: \<open>MemoryState\<close> refines the abstract tracker: inserting, removing and resyncing containers
  commute with the abstraction, and the desired records are those of the tracked running
  containers.
\<close>

theorem memory_state_refines_tracker:
  assumes "mem_wf s" and "is_order ord"
  shows "mem_abs (Upsert s now cid nm c ris st) = track cid ris st (mem_abs s) \<and>
    mem_abs (fst (MarkRemoved s cid)) = untrack cid (mem_abs s) \<and>
    mem_abs (fst (RetainRunning ord s R)) = resync R (mem_abs s) \<and>
    set (GetAllDesiredRecordIntents ord s) = wanted (mem_abs s)"
  using assms by (simp add: mem.abs_upsert mem.abs_mark mem.abs_retain mem.set_desired)

theorem memory_state_refines_tracker_witness:
  "mem_abs (Upsert NewMemoryState 7 ''c1'' ''web'' 5 [webA] StatusRunning) =
     track ''c1'' [webA] StatusRunning (mem_abs NewMemoryState) \<and>
   mem_abs (fst (MarkRemoved NewMemoryState ''c1'')) = untrack ''c1'' (mem_abs NewMemoryState) \<and>
   mem_abs (fst (RetainRunning rev NewMemoryState {''c1''})) = resync {''c1''} (mem_abs NewMemoryState) \<and>
   set (GetAllDesiredRecordIntents rev NewMemoryState) = wanted (mem_abs NewMemoryState)"
  by (rule memory_state_refines_tracker) (simp_all add: mem_wf_New)

text \<open>
  C31: The resync is debounced.  A container the resync reports stays, one missed by a single
  resync stays, and one missed by two resyncs in a row is pruned.
\<close>

theorem resync_debounced:
  assumes "mem_wf s" and "is_order ord" and "is_order ord'" and "mem_abs s cid = Some (ris, 0)"
  shows "(\<exists>n. mem_abs (fst (RetainRunning ord s R)) cid = Some (ris, n)) \<and>
    (cid \<in> R \<longrightarrow> mem_abs (fst (RetainRunning ord s R)) cid = Some (ris, 0)) \<and>
    (cid \<notin> R \<and> cid \<notin> R' \<longrightarrow>
       mem_abs (fst (RetainRunning ord' (fst (RetainRunning ord s R)) R')) cid = None)"
  using mem.retain_debounce [OF assms(2,1,4), of R] mem.retain_running [OF assms(2,1), of cid R]
    mem.retain_twice [OF assms(2,3,1), of cid R R'] assms(4) by simp

theorem resync_debounced_witness:
  "let s = Upsert NewMemoryState 7 ''c1'' ''web'' 5 [webA] StatusRunning in
   (\<exists>n. mem_abs (fst (RetainRunning rev s {})) ''c1'' = Some ([webA], n)) \<and>
   (''c1'' \<in> {} \<longrightarrow> mem_abs (fst (RetainRunning rev s {})) ''c1'' = Some ([webA], 0)) \<and>
   (''c1'' \<notin> {} \<and> ''c1'' \<notin> {} \<longrightarrow>
      mem_abs (fst (RetainRunning rev (fst (RetainRunning rev s {})) {})) ''c1'' = None)"
  unfolding Let_def
  by (rule resync_debounced)
    (simp_all add: mem_wf_Upsert mem_wf_New, simp add: mem_abs_def Upsert_def NewMemoryState_def)

text \<open>\<open>RetainRunning\<close> returns the number of the containers it prunes.\<close>

theorem resync_counts_pruned:
  assumes "mem_wf s" and "is_order ord"
  shows "snd (RetainRunning ord s R) =
    card {cid. map_of (containers s) cid \<noteq> None \<and>
      map_of (containers (fst (RetainRunning ord s R))) cid = None}"
proof -
  note spec = RetainRunning_spec [OF assms(2) mem_wf_distinct [OF assms(1)], of R]
  have "{cid. map_of (containers s) cid \<noteq> None \<and>
      map_of (containers (fst (RetainRunning ord s R))) cid = None} =
      {cid. \<exists>cs. map_of (containers s) cid = Some cs \<and> retained R cid cs = None}"
    unfolding spec(2) by auto
  with spec(3) show ?thesis by simp
qed

theorem resync_counts_pruned_witness:
  "snd (RetainRunning rev NewMemoryState {''c1''}) =
    card {cid. map_of (containers NewMemoryState) cid \<noteq> None \<and>
      map_of (containers (fst (RetainRunning rev NewMemoryState {''c1''}))) cid = None}"
  by (rule resync_counts_pruned) (simp_all add: mem_wf_New)


section \<open>From the event stream to the tracker\<close>

text \<open>
  C32: Whatever events arrive, the tracker's state is well-formed, and it holds only valid records of
  this host, each under its own container and never an empty list, with a missed-resync count below
  the threshold.
\<close>

theorem tracker_holds_own_records:
  assumes "reachable cfg s"
  shows "mem_wf s \<and> tracks_own cfg (mem_abs s)"
  by (rule reachable_tracks_own [OF assms])

theorem tracker_holds_own_records_witness:
  "mem_wf (handleEvent rev (sampleCfg ''h1'') 7 NewMemoryState (resyncEvent [])) \<and>
   tracks_own (sampleCfg ''h1'')
     (mem_abs (handleEvent rev (sampleCfg ''h1'') 7 NewMemoryState (resyncEvent [])))"
  by (rule tracker_holds_own_records) (intro reachable.intros, simp add: is_order_def)

text \<open>
  C33: A connection cycle sends the listed containers, one resync with their ids, and then the events
  of the received messages in order, up to the point where the receiver stops accepting.
\<close>

theorem cycle_sends:
  "sent (fst (runOnce dw t0 c)) = take (accepted c) (cycle_events c)"
  by (rule runOnce_sent)

text \<open>
  C34: A container that two cycles in a row do not list is no longer tracked, whatever the tracker held
  before and whatever is received about other containers.
\<close>

theorem unlisted_container_forgotten:
  assumes "mem_wf s" and "listed c1 = Inr cs1" and "listed c2 = Inr cs2"
    and "cid \<notin> sumID ` set cs1" and "cid \<notin> sumID ` set cs2"
    and "silent cid c1" and "silent cid c2"
    and "feeds evs (cycle_events c1 @ cycle_events c2)"
  shows "mem_abs (runEvents cfg evs s) cid = None"
  by (rule reconnect_forgets [OF assms])

theorem unlisted_container_forgotten_witness:
  "mem_abs (runEvents (sampleCfg ''h1'') [(rev, 1, resyncEvent []), (rev, 2, resyncEvent [])]
     (memory sampleEngine)) ''c-h1'' = None"
  by (rule unlisted_container_forgotten [of _ "sampleCycle []" "[]" "sampleCycle []" "[]"])
    (use sample_run_inv in \<open>simp_all add: run_inv_def sampleCycle_def silent_def feeds_def cycle_events_def
      is_order_def\<close>)

text \<open>
  C35: A container that a cycle lists is tracked afterwards with exactly the records its labels give,
  and with no missed resync.
\<close>

theorem listed_container_tracked:
  assumes "mem_wf s" and "listed c = Inr cs" and "sm \<in> set cs" and "distinct (map sumID cs)"
    and "sumID sm \<noteq> []" and "silent (sumID sm) c" and "feeds evs (cycle_events c)"
    and "\<forall>ord. is_order ord \<longrightarrow> GetContainerRecordIntents ord (fromContainerSummary sm) cfg \<noteq> []"
  shows "\<exists>ord. is_order ord \<and> mem_abs (runEvents cfg evs s) (sumID sm) =
    Some (GetContainerRecordIntents ord (fromContainerSummary sm) cfg, 0)"
  by (rule reconnect_tracks [OF assms])

theorem listed_container_tracked_witness:
  "\<exists>ord. is_order ord \<and>
     mem_abs (runEvents (sampleCfg ''h1'')
       [(rev, 1, fromContainerSummary sampleSummary), (rev, 2, resyncEvent [''c9''])] NewMemoryState) ''c9'' =
     Some (GetContainerRecordIntents ord (fromContainerSummary sampleSummary) (sampleCfg ''h1''), 0)"
proof -
  have "sumID sampleSummary = ''c9''" by (simp add: sampleSummary_def)
  with listed_container_tracked [of NewMemoryState "sampleCycle [sampleSummary]" "[sampleSummary]"
      sampleSummary "[(rev, 1, fromContainerSummary sampleSummary), (rev, 2, resyncEvent [''c9''])]"
      "sampleCfg ''h1''"] sampleSummary_yields
  show ?thesis
    by (simp add: mem_wf_New sampleCycle_def silent_def feeds_def cycle_events_def is_order_def)
qed

text \<open>
  C36: Under a flapping stream the k-th sleep of the subscription is twice the one before, from the
  initial backoff up to the maximum, plus at most a quarter of jitter, for every choice of options.
\<close>

theorem flapping_stream_backs_off:
  assumes "\<forall>opt \<in> set opts. is_option opt" and "dw = NewDockerGenerator opts"
    and "sint (reconnectMax dw) < 2 ^ 62"
    and "\<forall>a \<in> set as. flapping dw a \<and> rand_ok (attRand a)"
    and "k < length (sleeps (Subscribe dw now as))"
  shows "let base = min (sint (reconnectInitial dw) * 2 ^ k) (sint (reconnectMax dw));
             slept = sint (sleeps (Subscribe dw now as) ! k)
         in base \<le> slept \<and> slept \<le> base + base div 4"
proof -
  have ok: "gen_ok dw" using NewDockerGenerator_ok assms(1,2) by blast
  then have first: "sint (reconnectInitial dw) = nominal dw 0"
    by (simp add: nominal_def gen_ok_def)
  have "sleeps (Subscribe dw now as) = sleeps (cycles dw as (now, reconnectInitial dw))"
    by (simp add: Subscribe_def)
  then show ?thesis
    using flapping_backoff [OF ok assms(3) first assms(4), of k now] assms(5)
    by (simp add: nominal_def Let_def)
qed

theorem flapping_stream_backs_off_witness:
  "let base = min (1000000000 * 2 ^ 1) 30000000000;
       slept = sint (sleeps (Subscribe (NewDockerGenerator []) 0 [lostAttempt, lostAttempt]) ! 1)
   in base \<le> slept \<and> slept \<le> base + base div (4 :: int)"
proof -
  let ?dw = "NewDockerGenerator []"
  have dw: "sint (reconnectInitial ?dw) = 1000000000" "sint (reconnectMax ?dw) = 30000000000"
    by code_simp+
  have two: "length (sleeps (Subscribe ?dw 0 [lostAttempt, lostAttempt])) = 2" by code_simp
  have "flapping ?dw lostAttempt" by code_simp
  moreover have "rand_ok (attRand lostAttempt)" by (simp add: lostAttempt_def rand_ok_def)
  ultimately show ?thesis
    using flapping_stream_backs_off [of "[]" ?dw "[lostAttempt, lostAttempt]" 1 0] dw two by simp
qed


section \<open>From labels to intents\<close>

text \<open>
  C37: When no two labels mean the same field, the parser returns exactly one record per kind and
  alias that some label mentions, with the fields its labels give, for every order of the map.
\<close>

theorem labels_parsed_exactly:
  assumes "is_order ord" and "distinct (map fst labels)" and "unambiguous prefix labels"
  shows "set (Records (ParseLabels ord prefix labels)) =
      {label_spec prefix labels kind al | kind al.
        \<exists>k v field. (k, v) \<in> set labels \<and> label_target prefix k = Some (kind, al, field)} \<and>
    distinct (map (\<lambda>lr. (lrKind lr, lrAlias lr)) (Records (ParseLabels ord prefix labels)))"
  using ParseLabels_spec [OF assms] ParseLabels_distinct [OF assms(1)] by blast

theorem labels_parsed_exactly_witness:
  "set (Records (ParseLabels rev ''coredns'' [(''coredns.A.name'', ''a.org'')])) =
      {label_spec ''coredns'' [(''coredns.A.name'', ''a.org'')] kind al | kind al.
        \<exists>k v field. (k, v) \<in> set [(''coredns.A.name'', ''a.org'')] \<and>
          label_target ''coredns'' k = Some (kind, al, field)} \<and>
    distinct (map (\<lambda>lr. (lrKind lr, lrAlias lr))
      (Records (ParseLabels rev ''coredns'' [(''coredns.A.name'', ''a.org'')])))"
  by (rule labels_parsed_exactly) (simp_all add: unambiguous_def)

text \<open>
  C38: Every intent built from a container is well-formed: a valid record, owned by this host and
  that container, with the container's creation time.
\<close>

theorem intents_well_formed:
  assumes "ri \<in> set (GetContainerRecordIntents ord event cfg)"
  shows "record_ok (Rec ri) \<and> Hostname ri = AppHostname cfg \<and> ContainerId ri = Id (Container event) \<and>
    ContainerName ri = ContName (Container event) \<and> Created ri = ContCreated (Container event)"
  using assms buildIntent_Some by (fastforce simp: intents_mem Let_def)

definition sampleEvent :: ContainerEvent where
  "sampleEvent =
     \<lparr>Container = \<lparr>Id = ''c1'', ContName = ''web'', ContCreated = 5,
        Labels = [(''coredns.enabled'', ''true''), (''coredns.A.name'', ''a.org'')]\<rparr>,
      EventType = EventTypeContainerStarted, RunningContainerIds = []\<rparr>"

definition builtIntent :: RecordIntent where
  "builtIntent =
     \<lparr>ContainerId = ''c1'', ContainerName = ''web'', Created = 5, Hostname = ''h1'', Force = False,
      TTL = 300, Rec = \<lparr>Name = ''a.org'', Kind = RecordA, Value = ''10.0.0.9''\<rparr>\<rparr>"

theorem intents_well_formed_witness:
  "record_ok (Rec builtIntent) \<and> Hostname builtIntent = AppHostname (sampleCfg ''h1'') \<and>
   ContainerId builtIntent = Id (Container sampleEvent) \<and>
   ContainerName builtIntent = ContName (Container sampleEvent) \<and>
   Created builtIntent = ContCreated (Container sampleEvent)"
proof (rule intents_well_formed)
  have "GetContainerRecordIntents (\<lambda>ks. ks) sampleEvent (sampleCfg ''h1'') = [builtIntent]"
    by code_simp
  then show "builtIntent \<in> set (GetContainerRecordIntents (\<lambda>ks. ks) sampleEvent (sampleCfg ''h1''))"
    by simp
qed

text \<open>
  A labelled record yields an intent exactly when its name is not blank and, with its own value
  or the host's address for an empty one, it is a valid record.
\<close>

theorem intent_built_iff:
  "buildIntent cfg c cf lr \<noteq> None \<longleftrightarrow>
     TrimSpace (lrName lr) \<noteq> [] \<and>
     (\<exists>value. fallbackValue cfg lr = Some value \<and>
        record_ok \<lparr>Name = lrName lr, Kind = lrKind lr, Value = value\<rparr>)"
  by (rule buildIntent_iff)


section \<open>Records and keys\<close>

text \<open>The record constructor accepts exactly the valid records, and returns its arguments.\<close>

theorem constructor_exact:
  "NewFromKind kind name value = Inr r \<longleftrightarrow>
     r = \<lparr>Name = name, Kind = kind, Value = value\<rparr> \<and> record_ok r"
  by (rule NewFromKind_iff)

text \<open>
  The hostname pattern accepts exactly the dot-separated lists of labels of 1 to 63 letters,
  digits and dashes that start and end with a letter or digit.
\<close>

theorem hostname_pattern_exact:
  "isValidHostname h \<longleftrightarrow> length h \<le> 255 \<and> list_all label_ok (Split (CHR ''.'') h)"
  by (simp add: isValidHostname_labels)

text \<open>
  C39: The key by which the reconciler compares intents identifies them up to the creation time, as
  long as the container's and the host's names hold no bar.
\<close>

theorem intent_key_identifies:
  assumes "plain_intent r" and "plain_intent q"
  shows "Intent_Key r = Intent_Key q \<longleftrightarrow> Intent_Equal r q"
  by (rule Intent_Key_Equal [OF assms])

theorem intent_key_identifies_witness:
  "Intent_Key webA = Intent_Key webA2 \<longleftrightarrow> Intent_Equal webA webA2"
  by (rule intent_key_identifies)
    (use sample_ok in \<open>simp_all add: plain_intent_def plain_def sample_defs\<close>)


section \<open>Registry keys\<close>

text \<open>
  The name read back from the key of a record is the record's name, for every prefix and index.
\<close>

theorem registry_key_roundtrip:
  assumes "isValidHostname h"
  shows "fqdnFromKey prefix (indexedKey (keyBaseForFQDN prefix h) i) = h"
  by (rule fqdn_of_indexedKey [OF assms])

theorem registry_key_roundtrip_witness:
  "fqdnFromKey ''/skydns'' (indexedKey (keyBaseForFQDN ''/skydns'' ''web.example.com'') 3) =
     ''web.example.com''"
  by (rule registry_key_roundtrip) (simp add: go_eval)


section \<open>Health and configuration\<close>

text \<open>
  Over any history, the daemon is ready exactly when it is not in dry-run mode, the last report
  of the event stream was a connection, the last pass did not fail, and a pass succeeded no longer
  ago than the threshold.
\<close>

theorem ready_exactly:
  "fst (Ready now (fold status_step evs (SetDryRun (NewStatus th) dry))) \<longleftrightarrow>
     \<not> dry \<and> last_connection (rev evs) \<and> last_error (rev evs) = None \<and>
     (case last_success (rev evs) of
        None \<Rightarrow> False | Some t \<Rightarrow> t \<noteq> zeroTime \<and> TimeSub now t \<le> th)"
  by (auto simp: Ready_def IsZero_def status_history [OF refl] split: option.splits)



text \<open>
  The defaults are a valid configuration as soon as a hostname is set, and only then.
\<close>

theorem defaults_valid:
  "validate (defaultConfig\<lparr>App := App defaultConfig\<lparr>AppHostname := h\<rparr>\<rparr>) =
     (if h = [] then Some EmptyHostname else None)"
proof -
  have "\<not> overlapsHeartbeat ''/skydns''" "ToUpper ''INFO'' \<in> set validLevels"
    "bad_endpoint [''http://localhost:2379''] = None"
    by code_simp+
  then show ?thesis
    by (simp add: validate_def defaultConfig_def HTTPServerEnabled_def Configured_def)
qed

end
